(* ===== verification/Prelude.thy ===== *)
theory Prelude
  imports Main "HOL-Library.Word"
begin

text \<open>
  Shared vocabulary of the development: the machine types of the C++ sources, the ways a
  process can stop, sequencing of fallible operations and byte order conversions.  The
  simplification rules collected here carry the proofs of the component theories.
\<close>

unbundle bit_operations_syntax

named_theorems fault_simps \<open>equations about sequencing and failing\<close>
named_theorems wire_simps \<open>equations about byte order and framing\<close>
named_theorems text_simps \<open>equations about tokens and numerals\<close>

section \<open>Machine types\<close>

type_synonym byte = "8 word"
type_synonym u16 = "16 word"
type_synonym u32 = "32 word"
type_synonym u64 = "64 word"
type_synonym bytes = "byte list"

section \<open>Ways a process can stop\<close>

text \<open>
  \<^term>\<open>Exit c m\<close> is \<^verbatim>\<open>err\<close>, \<^verbatim>\<open>errx\<close> or \<^verbatim>\<open>exit\<close> with status \<open>c\<close>; \<open>Assertion\<close> a failed
  \<^verbatim>\<open>assert\<close>; \<open>Uncaught\<close> a C++ exception no handler catches (\<^verbatim>\<open>std::terminate\<close>);
  \<open>Undefined\<close> an access the language gives no meaning to, such as a read outside a buffer;
  \<open>Diverges\<close> a loop that does not end.
\<close>

datatype cpp_exception = Invalid_argument | Out_of_range | Length_error | Bad_alloc

datatype fault =
    Exit int string
  | Assertion string
  | Uncaught cpp_exception
  | Undefined string
  | Diverges string

type_synonym 'a result = "fault + 'a"

definition bindE :: "'a result \<Rightarrow> ('a \<Rightarrow> 'b result) \<Rightarrow> 'b result" where
  "bindE x f = (case x of Inl e \<Rightarrow> Inl e | Inr a \<Rightarrow> f a)"

definition uncaught :: "cpp_exception + 'a \<Rightarrow> 'a result" where
  "uncaught x = (case x of Inl e \<Rightarrow> Inl (Uncaught e) | Inr a \<Rightarrow> Inr a)"

text \<open>The result of a loop defined as a partial function, \<open>None\<close> meaning that it does not end.\<close>

definition returning :: "string \<Rightarrow> ('a result) option \<Rightarrow> 'a result" where
  "returning s r = (case r of None \<Rightarrow> Inl (Diverges s) | Some x \<Rightarrow> x)"

definition require :: "bool \<Rightarrow> fault \<Rightarrow> unit result" where
  "require b e = (if b then Inr () else Inl e)"

fun foldE :: "('s \<Rightarrow> 'a \<Rightarrow> 's result) \<Rightarrow> 's \<Rightarrow> 'a list \<Rightarrow> 's result" where
  "foldE f s [] = Inr s"
| "foldE f s (x # xs) = bindE (f s x) (\<lambda>s'. foldE f s' xs)"

lemma bindE_Inl [simp, fault_simps]: "bindE (Inl e) f = Inl e"
  by (simp add: bindE_def)

lemma bindE_Inr [simp, fault_simps]: "bindE (Inr a) f = f a"
  by (simp add: bindE_def)

lemma bindE_eq_Inr [fault_simps]:
  "(bindE x f = Inr b) \<longleftrightarrow> (\<exists>a. x = Inr a \<and> f a = Inr b)"
  by (cases x) auto

lemma bindE_eq_Inl [fault_simps]:
  "(bindE x f = Inl e) \<longleftrightarrow> (x = Inl e \<or> (\<exists>a. x = Inr a \<and> f a = Inl e))"
  by (cases x) auto

lemma bindE_assoc: "bindE (bindE x f) g = bindE x (\<lambda>a. bindE (f a) g)"
  by (cases x) auto

lemma bindE_cong [fundef_cong]:
  "x = y \<Longrightarrow> (\<And>a. y = Inr a \<Longrightarrow> f a = g a) \<Longrightarrow> bindE x f = bindE y g"
  by (cases y) (auto simp: bindE_def)

lemma require_Inr [simp, fault_simps]: "(require b e = Inr u) \<longleftrightarrow> b"
  by (simp add: require_def)

lemma require_simps [simp, fault_simps]:
  "require True e = Inr ()"
  "require False e = Inl e"
  by (simp_all add: require_def)

lemma uncaught_simps [simp, fault_simps]:
  "uncaught (Inl e) = Inl (Uncaught e)"
  "uncaught (Inr a) = Inr a"
  by (simp_all add: uncaught_def)

lemma returning_simps [simp, fault_simps]:
  "returning s None = Inl (Diverges s)"
  "returning s (Some x) = x"
  by (simp_all add: returning_def)

lemma uncaught_eq_Inr [simp, fault_simps]: "(uncaught x = Inr a) \<longleftrightarrow> x = Inr a"
  by (cases x) auto

lemma foldE_append: "foldE f s (xs @ ys) = bindE (foldE f s xs) (\<lambda>s'. foldE f s' ys)"
  by (induction xs arbitrary: s) (auto simp: bindE_assoc)

text \<open>An invariant that every step keeps is kept by the loop.\<close>

lemma foldE_invariant:
  assumes "foldE f s xs = Inr s'" and "P s"
    and "\<And>t x t'. x \<in> set xs \<Longrightarrow> P t \<Longrightarrow> f t x = Inr t' \<Longrightarrow> P t'"
  shows "P s'"
  using assms
proof (induction xs arbitrary: s)
  case Nil
  then show ?case by simp
next
  case (Cons x xs)
  from Cons.prems(1) obtain t where t: "f s x = Inr t" "foldE f t xs = Inr s'"
    by (auto simp: fault_simps)
  with Cons.prems(2,3) have "P t" by (meson list.set_intros(1))
  with t(2) Cons.IH Cons.prems(3) show ?case by (meson list.set_intros(2))
qed

section \<open>Byte order\<close>

text \<open>
  Integers cross the sockets in network byte order: \<^verbatim>\<open>htonl\<close>/\<^verbatim>\<open>htons\<close> followed by a copy
  of the object representation puts the most significant byte first.
\<close>

definition be16 :: "u16 \<Rightarrow> bytes" where
  "be16 w = [ucast (drop_bit 8 w), ucast w]"

definition rd16 :: "byte \<Rightarrow> byte \<Rightarrow> u16" where
  "rd16 a b = push_bit 8 (ucast a) OR ucast b"

definition be32 :: "u32 \<Rightarrow> bytes" where
  "be32 w = [ucast (drop_bit 24 w), ucast (drop_bit 16 w), ucast (drop_bit 8 w), ucast w]"

definition rd32 :: "byte \<Rightarrow> byte \<Rightarrow> byte \<Rightarrow> byte \<Rightarrow> u32" where
  "rd32 a b c d =
     push_bit 24 (ucast a) OR push_bit 16 (ucast b) OR push_bit 8 (ucast c) OR ucast d"

lemma length_be16 [simp, wire_simps]: "length (be16 w) = 2"
  by (simp add: be16_def)

lemma length_be32 [simp, wire_simps]: "length (be32 w) = 4"
  by (simp add: be32_def)

lemma rd16_be16 [wire_simps]: "rd16 (be16 w ! 0) (be16 w ! 1) = w"
  by (rule bit_word_eqI) (auto simp: rd16_def be16_def bit_simps)

lemma rd32_be32 [wire_simps]:
  "rd32 (be32 w ! 0) (be32 w ! 1) (be32 w ! 2) (be32 w ! 3) = w"
proof (rule bit_word_eqI)
  fix n assume "n < LENGTH(32)"
  then consider "n < 8" | "8 \<le> n" "n < 16" | "16 \<le> n" "n < 24" | "24 \<le> n" "n < 32"
    by fastforce
  then show "bit (rd32 (be32 w ! 0) (be32 w ! 1) (be32 w ! 2) (be32 w ! 3)) n = bit w n"
    by cases (auto simp: rd32_def be32_def bit_simps)
qed

end
