(* ===== verification/Timeval.thy ===== *)
theory Timeval
  imports Prelude
begin

text \<open>
  \<^verbatim>\<open>struct timeval\<close> and the libevent macros the client uses on it.  Seconds and microseconds
  are unbounded integers here and 64 bit numbers in the code: a difference of two normal values whose
  seconds are smaller than \<open>2 ^ 62\<close> in size, as those of clocks and traces are, fits
  (\<open>timersub_fits\<close>), and below \<open>2 ^ 61\<close> so does the difference of two such differences.  The order is the one
  of \<^verbatim>\<open>evutil_timercmp\<close>; on normal values it agrees with the number of microseconds.
\<close>

datatype timeval = Timeval (tv_sec: int) (tv_usec: int)

instantiation timeval :: linorder
begin

definition less_eq_timeval :: "timeval \<Rightarrow> timeval \<Rightarrow> bool" where
  "less_eq_timeval a b \<longleftrightarrow> tv_sec a < tv_sec b \<or> tv_sec a = tv_sec b \<and> tv_usec a \<le> tv_usec b"

definition less_timeval :: "timeval \<Rightarrow> timeval \<Rightarrow> bool" where
  "less_timeval a b \<longleftrightarrow> tv_sec a < tv_sec b \<or> tv_sec a = tv_sec b \<and> tv_usec a < tv_usec b"

instance
  by standard (auto simp: less_eq_timeval_def less_timeval_def timeval.expand)

end

definition timersub :: "timeval \<Rightarrow> timeval \<Rightarrow> timeval" where
  "timersub a b =
     (let s = tv_sec a - tv_sec b; us = tv_usec a - tv_usec b
      in if us < 0 then Timeval (s - 1) (us + 1000000) else Timeval s us)"

definition timerisset :: "timeval \<Rightarrow> bool" where
  "timerisset a \<longleftrightarrow> tv_sec a \<noteq> 0 \<or> tv_usec a \<noteq> 0"

definition usecs :: "timeval \<Rightarrow> int" where
  "usecs a = tv_sec a * 1000000 + tv_usec a"

definition normal :: "timeval \<Rightarrow> bool" where
  "normal a \<longleftrightarrow> 0 \<le> tv_usec a \<and> tv_usec a < 1000000"

lemma usecs_timersub [simp]: "usecs (timersub a b) = usecs a - usecs b"
  by (simp add: usecs_def timersub_def Let_def)

lemma normal_timersub [simp]: "normal a \<Longrightarrow> normal b \<Longrightarrow> normal (timersub a b)"
  by (auto simp: normal_def timersub_def Let_def)

lemma timersub_fits:
  assumes "normal a" and "normal b" and "\<bar>tv_sec a\<bar> \<le> B" and "\<bar>tv_sec b\<bar> \<le> B" and "B < 2 ^ 62"
  shows "\<bar>tv_sec (timersub a b)\<bar> \<le> 2 * B + 1 \<and> 2 * B + 1 < 2 ^ 63 \<and>
    0 \<le> tv_usec (timersub a b) \<and> tv_usec (timersub a b) < 1000000"
  using assms by (auto simp: timersub_def normal_def Let_def)

lemma normal_negative: "normal a \<Longrightarrow> tv_sec a < 0 \<longleftrightarrow> usecs a < 0"
  by (auto simp: normal_def usecs_def)

lemma normal_le_usecs: "normal a \<Longrightarrow> normal b \<Longrightarrow> a \<le> b \<longleftrightarrow> usecs a \<le> usecs b"
  by (auto simp: normal_def usecs_def less_eq_timeval_def)

end
