(* ===== verification/Pacing.thy ===== *)
theory Pacing
  imports Timeval
begin

text \<open>
  Reading ahead of the clock.  The manager and the reader of the controller may be told to stay
  at most a number of seconds ahead of real time; both sleep in the same loop.  Floating point
  arithmetic is a parameter, and the theorem is that the loop ends when the clock advances.
\<close>

text \<open>The operations on \<^verbatim>\<open>double\<close> the code uses; \<open>dbl_to_int\<close> is the truncating conversion.\<close>

record 'r dbl =
  dbl_of_int :: "int \<Rightarrow> 'r"
  dbl_to_int :: "'r \<Rightarrow> int"
  dbl_add :: "'r \<Rightarrow> 'r \<Rightarrow> 'r"
  dbl_sub :: "'r \<Rightarrow> 'r \<Rightarrow> 'r"
  dbl_mul :: "'r \<Rightarrow> 'r \<Rightarrow> 'r"
  dbl_div :: "'r \<Rightarrow> 'r \<Rightarrow> 'r"
  dbl_less :: "'r \<Rightarrow> 'r \<Rightarrow> bool"

definition SLEEP_TIME :: int where "SLEEP_TIME = 1"

text \<open>
  The inner \<^verbatim>\<open>while\<close> that sleeps until the trace is at most \<open>limit\<close> ahead of the clock:
  \<open>tdiff\<close> is the time passed in the trace and \<open>now k\<close> the \<open>k\<close>-th reading of the clock.  It has no
  bound of its own; not returning is \<open>None\<close>.
\<close>

partial_function (option) wait_loop ::
    "'r dbl \<Rightarrow> (nat \<Rightarrow> 'r) \<Rightarrow> 'r \<Rightarrow> 'r \<Rightarrow> 'r \<Rightarrow> nat \<Rightarrow> nat option" where
  "wait_loop F now tdiff start limit k =
     (if dbl_less F limit (dbl_sub F tdiff (dbl_sub F (now k) start))
      then wait_loop F now tdiff start limit (Suc k)
      else Some (Suc k))"

text \<open>
  The local variables of the two callers, with the number of clock readings taken, and the part
  of their loops that keeps the distance: \<open>cur\<close> is the time of the message in the trace.
\<close>

record 'r pace_state =
  ps_real_start :: 'r
  ps_trace_start :: 'r
  ps_ticks :: nat

definition pace_init :: "'r dbl \<Rightarrow> 'r pace_state" where
  "pace_init F = \<lparr>ps_real_start = dbl_of_int F (-1), ps_trace_start = dbl_of_int F (-1), ps_ticks = 0\<rparr>"

definition trace_ts :: "'r dbl \<Rightarrow> int \<Rightarrow> int \<Rightarrow> 'r" where
  "trace_ts F s us = dbl_add F (dbl_of_int F s) (dbl_div F (dbl_of_int F us) (dbl_of_int F 1000000))"

text \<open>
  The clock both programs read (\<^verbatim>\<open>utility.cc\<close>); \<open>None\<close> is a failure of \<^verbatim>\<open>gettimeofday\<close>.  They ask for
  seconds, the scale of the times of a trace.
\<close>

definition get_time_now :: "'r dbl \<Rightarrow> timeval option \<Rightarrow> string \<Rightarrow> 'r result" where
  "get_time_now F clock t =
     (case clock of
        None \<Rightarrow> Inl (Exit 1 ''gettimeofday fails!'')
      | Some tv \<Rightarrow>
          let s = dbl_of_int F (tv_sec tv); us = dbl_of_int F (tv_usec tv)
          in if t = ''second'' then Inr (dbl_add F s (dbl_div F us (dbl_of_int F 1000000)))
             else if t = ''ms'' then Inr (dbl_add F (dbl_mul F s (dbl_of_int F 1000)) (dbl_div F us (dbl_of_int F 1000)))
             else if t = ''us'' then Inr (dbl_add F (dbl_mul F s (dbl_of_int F 1000000)) us)
             else Inr (dbl_of_int F (-1)))"

lemma clock_scale: "get_time_now F (Some tv) ''second'' = Inr (trace_ts F (tv_sec tv) (tv_usec tv))"
  by (simp add: get_time_now_def trace_ts_def)

definition limit_wait ::
    "'r dbl \<Rightarrow> (nat \<Rightarrow> 'r) \<Rightarrow> bool \<Rightarrow> 'r \<Rightarrow> 'r \<Rightarrow> 'r pace_state \<Rightarrow> 'r pace_state option" where
  "limit_wait F now limited limit cur ps =
     (if limited then
        if dbl_less F (ps_trace_start ps) (dbl_of_int F 0)
        then Some (ps\<lparr>ps_trace_start := cur, ps_real_start := now (ps_ticks ps),
                      ps_ticks := Suc (ps_ticks ps)\<rparr>)
        else map_option (\<lambda>k. ps\<lparr>ps_ticks := k\<rparr>)
               (wait_loop F now (dbl_sub F cur (ps_trace_start ps)) (ps_real_start ps)
                  (dbl_add F limit (dbl_of_int F SLEEP_TIME)) (ps_ticks ps))
      else Some ps)"

text \<open>
  The wait ends because the clock moves on: for any two times \<open>T\<close> of the trace and any start of
  the clock, some later reading is close enough.
\<close>

definition clock_advances :: "'r dbl \<Rightarrow> (nat \<Rightarrow> 'r) \<Rightarrow> 'r \<Rightarrow> 'r set \<Rightarrow> bool" where
  "clock_advances F now limit T \<longleftrightarrow>
     dbl_less F (dbl_of_int F (-1)) (dbl_of_int F 0) \<and>
     (\<forall>a \<in> T. \<forall>b \<in> T. \<forall>i k. \<exists>j. \<not> dbl_less F (dbl_add F limit (dbl_of_int F SLEEP_TIME))
        (dbl_sub F (dbl_sub F a b) (dbl_sub F (now (k + j)) (now i))))"

definition pace_ok :: "'r dbl \<Rightarrow> (nat \<Rightarrow> 'r) \<Rightarrow> 'r set \<Rightarrow> 'r pace_state \<Rightarrow> bool" where
  "pace_ok F now T ps \<longleftrightarrow>
     dbl_less F (ps_trace_start ps) (dbl_of_int F 0) \<or>
     ps_trace_start ps \<in> T \<and> (\<exists>i. ps_real_start ps = now i)"

lemma wait_loop_returns:
  "\<not> dbl_less F limit (dbl_sub F tdiff (dbl_sub F (now (k + j)) start)) \<Longrightarrow>
   \<exists>k'. wait_loop F now tdiff start limit k = Some k'"
proof (induction j arbitrary: k)
  case 0
  then show ?case by (simp add: wait_loop.simps)
next
  case (Suc j)
  then have "\<exists>k'. wait_loop F now tdiff start limit (Suc k) = Some k'" by simp
  then show ?case by (subst wait_loop.simps) auto
qed

lemma limit_wait_returns:
  assumes "clock_advances F now limit T" and "pace_ok F now T ps" and "cur \<in> T"
  obtains ps' where "limit_wait F now limited limit cur ps = Some ps'" "pace_ok F now T ps'"
proof (cases "limited \<and> \<not> dbl_less F (ps_trace_start ps) (dbl_of_int F 0)")
  case False
  then have "\<exists>ps'. limit_wait F now limited limit cur ps = Some ps' \<and> pace_ok F now T ps'"
    using assms(2,3) by (cases limited) (auto simp: limit_wait_def pace_ok_def)
  with that show thesis by blast
next
  case True
  then obtain i where i: "ps_trace_start ps \<in> T" "ps_real_start ps = now i"
    using assms(2) by (auto simp: pace_ok_def)
  then have "\<exists>k. wait_loop F now (dbl_sub F cur (ps_trace_start ps)) (ps_real_start ps)
      (dbl_add F limit (dbl_of_int F SLEEP_TIME)) (ps_ticks ps) = Some k"
    using assms(1,3) wait_loop_returns unfolding clock_advances_def by metis
  then have "\<exists>ps'. limit_wait F now limited limit cur ps = Some ps' \<and> pace_ok F now T ps'"
    using True i by (auto simp: limit_wait_def pace_ok_def)
  with that show thesis by blast
qed

lemma pace_init_ok: "clock_advances F now limit T \<Longrightarrow> pace_ok F now T (pace_init F)"
  by (simp add: clock_advances_def pace_ok_def pace_init_def)

text \<open>Integers as a stand-in for \<^verbatim>\<open>double\<close>.\<close>

definition int_dbl :: "int dbl" where
  "int_dbl = \<lparr>dbl_of_int = (\<lambda>i. i), dbl_to_int = (\<lambda>i. i), dbl_add = (+), dbl_sub = (-),
     dbl_mul = (*), dbl_div = (div), dbl_less = (<)\<rparr>"

lemma int_clock: "clock_advances int_dbl int limit T"
proof -
  have "\<exists>j. \<not> limit + 1 < a - b - (int (k + j) - int i)" for a b i k
    by (rule exI [of _ "nat (a - b + int i - limit)"]) simp
  then show ?thesis by (simp add: clock_advances_def int_dbl_def SLEEP_TIME_def)
qed

end
