(* ===== verification/Framing.thy ===== *)
theory Framing
  imports Prelude
begin

text \<open>
  Messages travel between the processes as a four byte length in network byte order followed
  by the payload, and DNS over TCP uses a two byte length.  The receivers buffer what a read
  callback delivers and cut complete messages off the front.  This theory has the writer and
  the head of the receive loops, with the integer widths of the sources, and the contract of
  framing as locales: a cut-off message does not depend on how the byte stream was split into
  reads, and what was framed is what is cut off.
\<close>

section \<open>Writers and loop heads\<close>

text \<open>Length, then data (\<^verbatim>\<open>uint32_t sz = msg_str.size(); sz = htonl(sz); write; write\<close>).\<close>

definition frame32 :: "bytes \<Rightarrow> bytes" where
  "frame32 p = be32 (of_nat (length p)) @ p"

text \<open>
  Head of \<^verbatim>\<open>while (buf.size() > sizeof(uint32_t))\<close>: the length \<^verbatim>\<open>sz\<close>, the rest \<^verbatim>\<open>left\<close> cut to
  32 bits, and \<^verbatim>\<open>sz > left\<close> as the exit.  \<open>Some\<close> gives the payload and
  \<^verbatim>\<open>buf.substr(sz + sizeof(uint32_t))\<close>.
\<close>

definition step32 :: "bytes \<Rightarrow> (bytes \<times> bytes) option" where
  "step32 buf =
     (if length buf \<le> 4 then None
      else let sz = rd32 (buf ! 0) (buf ! 1) (buf ! 2) (buf ! 3);
               left = (of_nat (length buf - 4) :: u32)
           in if left < sz then None
              else Some (take (unat sz) (drop 4 buf), drop (unat sz + 4) buf))"

text \<open>The same for the two byte length of DNS over TCP; \<^verbatim>\<open>left\<close> has 16 bits.\<close>

definition frame16 :: "bytes \<Rightarrow> bytes" where
  "frame16 p = be16 (of_nat (length p)) @ p"

definition step16 :: "bytes \<Rightarrow> (bytes \<times> bytes) option" where
  "step16 buf =
     (if length buf \<le> 2 then None
      else let sz = rd16 (buf ! 0) (buf ! 1);
               left = (of_nat (length buf - 2) :: u16)
           in if left < sz then None
              else Some (take (unat sz) (drop 2 buf), drop (unat sz + 2) buf))"

text \<open>
  All complete messages at the front of a buffer and what remains.  The first argument of
  \<open>deframe_fuel\<close> bounds the number of messages; every message takes at least one byte off the
  buffer, so the length of the buffer is enough.
\<close>

fun deframe_fuel ::
    "(bytes \<Rightarrow> (bytes \<times> bytes) option) \<Rightarrow> nat \<Rightarrow> bytes \<Rightarrow> bytes list \<times> bytes" where
  "deframe_fuel step 0 b = ([], b)"
| "deframe_fuel step (Suc n) b =
     (case step b of
        None \<Rightarrow> ([], b)
      | Some (p, r) \<Rightarrow> (case deframe_fuel step n r of (ps, r') \<Rightarrow> (p # ps, r')))"

definition deframe :: "(bytes \<Rightarrow> (bytes \<times> bytes) option) \<Rightarrow> bytes \<Rightarrow> bytes list \<times> bytes" where
  "deframe step b = deframe_fuel step (length b) b"

text \<open>A receiver that runs its loop after every read, on what was left plus the new bytes.\<close>

definition feed ::
    "(bytes \<Rightarrow> 's \<Rightarrow> ('s \<times> bytes) result) \<Rightarrow> 's \<times> bytes \<Rightarrow> bytes list \<Rightarrow> ('s \<times> bytes) result" where
  "feed loop sb chunks = foldE (\<lambda>(s, b) c. loop (b @ c) s) sb chunks"

section \<open>The contract of a length prefix\<close>

text \<open>
  \<open>step\<close> cuts one message; \<open>lim\<close> bounds the buffer sizes for which the sources' integer widths
  are wide enough.
\<close>

locale framing =
  fixes step :: "bytes \<Rightarrow> (bytes \<times> bytes) option"
    and lim :: nat
  assumes shrink: "step b = Some (p, r) \<Longrightarrow> length r < length b"
    and extend: "step b = Some (p, r) \<Longrightarrow> length (b @ c) \<le> lim \<Longrightarrow> step (b @ c) = Some (p, r @ c)"
begin

lemma deframe_fuel_enough:
  "length b \<le> n \<Longrightarrow> length b \<le> m \<Longrightarrow> deframe_fuel step n b = deframe_fuel step m b"
proof (induction n arbitrary: b m)
  case 0
  then have "b = []" by simp
  moreover have "step [] = None" using shrink [of "[]"] by (cases "step []") auto
  ultimately show ?case by (cases m) auto
next
  case (Suc n)
  show ?case
  proof (cases "step b")
    case None
    then show ?thesis by (cases m) auto
  next
    case (Some pr)
    obtain p r where pr: "pr = (p, r)" by fastforce
    with Some shrink have lt: "length r < length b" by blast
    then obtain m' where m: "m = Suc m'" using Suc.prems by (cases m) auto
    have "deframe_fuel step n r = deframe_fuel step m' r"
      using lt Suc.prems m by (intro Suc.IH) auto
    with Some pr m show ?thesis by simp
  qed
qed

lemma deframe_None [simp]: "step b = None \<Longrightarrow> deframe step b = ([], b)"
  by (cases b) (auto simp: deframe_def)

lemma deframe_Some:
  assumes "step b = Some (p, r)"
  shows "deframe step b = (p # fst (deframe step r), snd (deframe step r))"
proof -
  from assms have lt: "length r < length b" by (rule shrink)
  then obtain n where n: "length b = Suc n" by (cases b) auto
  then have "deframe_fuel step n r = deframe_fuel step (length r) r"
    using lt by (intro deframe_fuel_enough) auto
  with n assms show ?thesis by (simp add: deframe_def split: prod.splits)
qed

lemma deframe_induct [case_names stop cut]:
  assumes "\<And>b. step b = None \<Longrightarrow> P b"
    and "\<And>b p r. step b = Some (p, r) \<Longrightarrow> P r \<Longrightarrow> P b"
  shows "P b"
proof (induction b rule: length_induct)
  case (1 b)
  show ?case
  proof (cases "step b")
    case None
    then show ?thesis by (rule assms(1))
  next
    case (Some pr)
    obtain p r where pr: "pr = (p, r)" by fastforce
    with Some shrink "1.IH" have "P r" by blast
    with Some pr show ?thesis by (auto intro: assms(2))
  qed
qed

lemma residue_stuck: "step (snd (deframe step b)) = None"
  by (induction b rule: deframe_induct) (auto simp: deframe_Some)

lemma deframe_append:
  "length (b @ c) \<le> lim \<Longrightarrow>
   deframe step (b @ c) =
     (fst (deframe step b) @ fst (deframe step (snd (deframe step b) @ c)),
      snd (deframe step (snd (deframe step b) @ c)))"
proof (induction b rule: deframe_induct)
  case (stop b)
  then show ?case by simp
next
  case (cut b p r)
  from cut.hyps cut.prems have ext: "step (b @ c) = Some (p, r @ c)" by (rule extend)
  from shrink [OF cut.hyps] cut.prems have "length (r @ c) \<le> lim" by simp
  from cut.IH [OF this] show ?case by (simp add: deframe_Some [OF ext] deframe_Some [OF cut.hyps])
qed

lemma residue_length: "length (snd (deframe step b)) \<le> length b"
  by (induction b rule: deframe_induct) (auto simp: deframe_Some dest: shrink)

end

text \<open>A writer whose frames the reader cuts off again.\<close>

locale frame_writer = framing +
  fixes frame :: "bytes \<Rightarrow> bytes"
    and valid :: "bytes \<Rightarrow> bool"
  assumes step_frame:
    "valid p \<Longrightarrow> length (frame p @ c) \<le> lim \<Longrightarrow> step (frame p @ c) = Some (p, c)"
    and step_Nil: "step [] = None"
begin

lemma deframe_frames:
  "\<forall>p \<in> set ps. valid p \<Longrightarrow> length (concat (map frame ps)) \<le> lim \<Longrightarrow>
   deframe step (concat (map frame ps)) = (ps, [])"
proof (induction ps)
  case Nil
  then show ?case by (simp add: step_Nil)
next
  case (Cons p ps)
  then have "step (frame p @ concat (map frame ps)) = Some (p, concat (map frame ps))"
    by (intro step_frame) auto
  from deframe_Some [OF this] Cons show ?case by simp
qed

end

text \<open>A receive loop: cut a message, process it, go on; stop when no message is complete.\<close>

locale frame_loop = framing +
  fixes body :: "'s \<Rightarrow> bytes \<Rightarrow> 's result"
    and loop :: "bytes \<Rightarrow> 's \<Rightarrow> ('s \<times> bytes) result"
  assumes loop_stop: "step b = None \<Longrightarrow> loop b s = Inr (s, b)"
    and loop_cut: "step b = Some (p, r) \<Longrightarrow> loop b s = bindE (body s p) (\<lambda>s'. loop r s')"
begin

lemma loop_foldE:
  "loop b s = bindE (foldE body s (fst (deframe step b))) (\<lambda>s'. Inr (s', snd (deframe step b)))"
proof (induction b arbitrary: s rule: deframe_induct)
  case (stop b)
  then show ?case by (simp add: loop_stop)
next
  case (cut b p r)
  then show ?case by (simp add: loop_cut [OF cut.hyps] deframe_Some [OF cut.hyps] bindE_assoc)
qed

text \<open>However the stream is split into reads, the same messages are processed in the same order.\<close>

lemma feed_foldE:
  assumes "step b = None" and "length (b @ concat chunks) \<le> lim"
  shows "feed loop (s, b) chunks =
     bindE (foldE body s (fst (deframe step (b @ concat chunks))))
       (\<lambda>s'. Inr (s', snd (deframe step (b @ concat chunks))))"
  using assms
proof (induction chunks arbitrary: s b)
  case Nil
  then show ?case by (simp add: feed_def)
next
  case (Cons c chunks)
  let ?r = "snd (deframe step (b @ c))"
  have stuck: "step ?r = None" by (rule residue_stuck)
  have len: "length (?r @ concat chunks) \<le> lim"
    using residue_length [of "b @ c"] Cons.prems(2) by simp
  have split: "deframe step (b @ concat (c # chunks)) =
     (fst (deframe step (b @ c)) @ fst (deframe step (?r @ concat chunks)),
      snd (deframe step (?r @ concat chunks)))"
    using deframe_append [of "b @ c" "concat chunks"] Cons.prems(2) by simp
  have "feed loop (s, b) (c # chunks) = bindE (loop (b @ c) s) (\<lambda>sb. feed loop sb chunks)"
    by (simp add: feed_def)
  also have "\<dots> = bindE (foldE body s (fst (deframe step (b @ c)))) (\<lambda>s'. feed loop (s', ?r) chunks)"
    by (simp add: loop_foldE bindE_assoc)
  also have "\<dots> = bindE (foldE body s (fst (deframe step (b @ c))))
      (\<lambda>s'. bindE (foldE body s' (fst (deframe step (?r @ concat chunks))))
        (\<lambda>s''. Inr (s'', snd (deframe step (?r @ concat chunks)))))"
    by (simp add: Cons.IH [OF stuck len])
  finally show ?case by (simp only: split fst_conv snd_conv foldE_append bindE_assoc)
qed

end

section \<open>Four byte lengths\<close>

lemma unat_word_le: "(of_nat n :: 'a::len word) \<ge> sz \<Longrightarrow> unat sz \<le> n"
proof -
  assume "(of_nat n :: 'a word) \<ge> sz"
  then have "unat sz \<le> unat (of_nat n :: 'a word)" by (simp add: word_le_nat_alt)
  also have "\<dots> \<le> n" by (simp add: unat_of_nat)
  finally show ?thesis .
qed

lemma of_nat_less_word_iff:
  "n < 2 ^ LENGTH('a) \<Longrightarrow> (of_nat n :: 'a::len word) < sz \<longleftrightarrow> n < unat sz"
  by (simp add: word_less_nat_alt unat_of_nat)

definition lim32 :: nat where "lim32 = 2 ^ 32 + 3"

definition len32 :: "bytes \<Rightarrow> nat" where
  "len32 b = unat (rd32 (b ! 0) (b ! 1) (b ! 2) (b ! 3))"

lemma len32_append: "4 \<le> length b \<Longrightarrow> len32 (b @ c) = len32 b"
  by (auto simp: len32_def nth_append)

text \<open>Within the limit the 32 bit arithmetic is exact.\<close>

lemma step32_exact:
  "length b \<le> lim32 \<Longrightarrow>
   step32 b = (if length b \<le> 4 \<or> length b < len32 b + 4 then None
               else Some (take (len32 b) (drop 4 b), drop (len32 b + 4) b))"
  by (auto simp: step32_def Let_def len32_def lim32_def of_nat_less_word_iff
           simp del: of_nat_diff)

lemma step32_Some:
  assumes "step32 b = Some (p, r)"
  shows "4 < length b" "len32 b + 4 \<le> length b"
    "p = take (len32 b) (drop 4 b)" "r = drop (len32 b + 4) b"
proof -
  let ?sz = "rd32 (b ! 0) (b ! 1) (b ! 2) (b ! 3)"
  from assms have len: "4 < length b" and le: "\<not> (of_nat (length b - 4) :: u32) < ?sz"
    and pr: "p = take (len32 b) (drop 4 b)" "r = drop (len32 b + 4) b"
    unfolding step32_def len32_def Let_def by (simp_all split: if_split_asm del: of_nat_diff)
  then show "4 < length b" "p = take (len32 b) (drop 4 b)" "r = drop (len32 b + 4) b" by simp_all
  from le have "len32 b \<le> length b - 4" unfolding len32_def by (intro unat_word_le) simp
  with len show "len32 b + 4 \<le> length b" by simp
qed

lemma step32_extend:
  assumes s: "step32 b = Some (p, r)" and lim: "length (b @ c) \<le> lim32"
  shows "step32 (b @ c) = Some (p, r @ c)"
  using step32_Some [OF s] lim by (simp add: step32_exact len32_append)

lemma step32_shrink: "step32 b = Some (p, r) \<Longrightarrow> length r < length b"
  using step32_Some [of b p r] by simp

interpretation pb32: framing step32 lim32
  by unfold_locales (erule step32_shrink, erule (1) step32_extend)

text \<open>A payload the four byte length can announce and the receive loop picks up.\<close>

definition valid32 :: "bytes \<Rightarrow> bool" where
  "valid32 p \<longleftrightarrow> p \<noteq> [] \<and> length p < 2 ^ 32"

lemma len32_frame32: "length p < 2 ^ 32 \<Longrightarrow> len32 (frame32 p @ c) = length p"
  using rd32_be32 [of "of_nat (length p)"]
  by (simp add: len32_def frame32_def nth_append unat_of_nat)

lemma length_frame32 [simp, wire_simps]: "length (frame32 p) = length p + 4"
  by (simp add: frame32_def)

lemma drop_frame32 [simp, wire_simps]: "drop 4 (frame32 p) = p"
  by (simp add: frame32_def)

lemma step32_frame32:
  assumes "valid32 p" and "length (frame32 p @ c) \<le> lim32"
  shows "step32 (frame32 p @ c) = Some (p, c)"
  using assms by (simp add: step32_exact len32_frame32 valid32_def)

interpretation pb32: frame_writer step32 lim32 frame32 valid32
  by unfold_locales (erule (1) step32_frame32, simp add: step32_def)

section \<open>Two byte lengths\<close>

definition lim16 :: nat where "lim16 = 2 ^ 16 + 1"

definition len16 :: "bytes \<Rightarrow> nat" where
  "len16 b = unat (rd16 (b ! 0) (b ! 1))"

lemma len16_append: "2 \<le> length b \<Longrightarrow> len16 (b @ c) = len16 b"
  by (auto simp: len16_def nth_append)

lemma step16_exact:
  "length b \<le> lim16 \<Longrightarrow>
   step16 b = (if length b \<le> 2 \<or> length b < len16 b + 2 then None
               else Some (take (len16 b) (drop 2 b), drop (len16 b + 2) b))"
  by (auto simp: step16_def Let_def len16_def lim16_def of_nat_less_word_iff
           simp del: of_nat_diff)

lemma step16_Some:
  assumes "step16 b = Some (p, r)"
  shows "2 < length b" "len16 b + 2 \<le> length b"
    "p = take (len16 b) (drop 2 b)" "r = drop (len16 b + 2) b"
proof -
  let ?sz = "rd16 (b ! 0) (b ! 1)"
  from assms have len: "2 < length b" and le: "\<not> (of_nat (length b - 2) :: u16) < ?sz"
    and pr: "p = take (len16 b) (drop 2 b)" "r = drop (len16 b + 2) b"
    unfolding step16_def len16_def Let_def by (simp_all split: if_split_asm del: of_nat_diff)
  then show "2 < length b" "p = take (len16 b) (drop 2 b)" "r = drop (len16 b + 2) b" by simp_all
  from le have "len16 b \<le> length b - 2" unfolding len16_def by (intro unat_word_le) simp
  with len show "len16 b + 2 \<le> length b" by simp
qed

lemma step16_extend:
  assumes s: "step16 b = Some (p, r)" and lim: "length (b @ c) \<le> lim16"
  shows "step16 (b @ c) = Some (p, r @ c)"
  using step16_Some [OF s] lim by (simp add: step16_exact len16_append)

lemma step16_shrink: "step16 b = Some (p, r) \<Longrightarrow> length r < length b"
  using step16_Some [of b p r] by simp

interpretation tcp16: framing step16 lim16
  by unfold_locales (erule step16_shrink, erule (1) step16_extend)

definition valid16 :: "bytes \<Rightarrow> bool" where
  "valid16 p \<longleftrightarrow> p \<noteq> [] \<and> length p < 2 ^ 16"

lemma len16_frame16: "length p < 2 ^ 16 \<Longrightarrow> len16 (frame16 p @ c) = length p"
  using rd16_be16 [of "of_nat (length p)"]
  by (simp add: len16_def frame16_def nth_append unat_of_nat)

lemma length_frame16 [simp, wire_simps]: "length (frame16 p) = length p + 2"
  by (simp add: frame16_def)

lemma drop_frame16 [simp, wire_simps]: "drop 2 (frame16 p) = p"
  by (simp add: frame16_def)

lemma step16_frame16:
  assumes "valid16 p" and "length (frame16 p @ c) \<le> lim16"
  shows "step16 (frame16 p @ c) = Some (p, c)"
  using assms by (simp add: step16_exact len16_frame16 valid16_def)

interpretation tcp16: frame_writer step16 lim16 frame16 valid16
  by unfold_locales (erule (1) step16_frame16, simp add: step16_def)

end
