(* ===== verification/Cpp_Strings.thy ===== *)
theory Cpp_Strings
  imports Prelude
begin

text \<open>
  The parts of the C++ string library the tools use, in the default "C" locale: character
  classes, extraction of a token with \<^verbatim>\<open>istringstream >> x\<close>, splitting with \<^verbatim>\<open>getline\<close>,
  \<^verbatim>\<open>std::stoi\<close> and \<^verbatim>\<open>std::to_string\<close>.  The lemmas relate printing and reading of numerals
  and describe tokens of concatenated words.
\<close>

section \<open>Characters\<close>

definition isspace :: "char \<Rightarrow> bool" where
  "isspace c \<longleftrightarrow> c \<in> {CHR '' '', CHR 0x09, CHR 0x0A, CHR 0x0B, CHR 0x0C, CHR 0x0D}"

definition isdigit :: "char \<Rightarrow> bool" where
  "isdigit c \<longleftrightarrow> c \<in> set ''0123456789''"

definition digit_val :: "char \<Rightarrow> nat" where
  "digit_val c = of_char c - 48"

definition digit_char :: "nat \<Rightarrow> char" where
  "digit_char d = char_of (d + 48)"

definition char_tolower :: "char \<Rightarrow> char" where
  "char_tolower c = (if 65 \<le> (of_char c :: nat) \<and> (of_char c :: nat) \<le> 90
                     then char_of ((of_char c :: nat) + 32) else c)"

section \<open>Streams\<close>

text \<open>
  \<^verbatim>\<open>ss >> x\<close> on a string stream: skip white space, take characters up to the next white
  space or the end.  The second component is what is left in the stream; it is empty
  exactly when the extraction ran into the end and set \<^verbatim>\<open>eofbit\<close>.
\<close>

definition next_token :: "string \<Rightarrow> string \<times> string" where
  "next_token s =
     (let t = dropWhile isspace s
      in (takeWhile (\<lambda>c. \<not> isspace c) t, dropWhile (\<lambda>c. \<not> isspace c) t))"

lemma next_token_shrinks:
  assumes "snd (next_token s) \<noteq> []"
  shows "length (snd (next_token s)) < length s"
proof -
  let ?t = "dropWhile isspace s"
  have le: "length ?t \<le> length s" by (rule length_dropWhile_le)
  from assms have ne: "dropWhile (\<lambda>c. \<not> isspace c) ?t \<noteq> []"
    by (simp add: next_token_def Let_def)
  then have t: "?t \<noteq> []" by (metis dropWhile.simps(1))
  then have "\<not> isspace (hd ?t)" by (rule hd_dropWhile)
  then have "dropWhile (\<lambda>c. \<not> isspace c) ?t = dropWhile (\<lambda>c. \<not> isspace c) (tl ?t)"
    using t by (cases ?t) auto
  also have "length \<dots> \<le> length (tl ?t)" by (rule length_dropWhile_le)
  finally have "length (dropWhile (\<lambda>c. \<not> isspace c) ?t) < length ?t"
    using t by (cases ?t) auto
  with le show ?thesis by (simp add: next_token_def Let_def)
qed

text \<open>Reading tokens until \<^verbatim>\<open>eof()\<close>: every extraction, a failed last one included.\<close>

function stream_tokens :: "string \<Rightarrow> string list" where
  "stream_tokens s =
     (case next_token s of (x, rest) \<Rightarrow> if rest = [] then [x] else x # stream_tokens rest)"
  by pat_completeness auto
termination
  by (relation "measure length") (metis in_measure next_token_shrinks snd_conv wf_measure)+

declare stream_tokens.simps [simp del]

text \<open>
  \<^verbatim>\<open>while (!ss.eof()) { getline(ss, x, c); ... }\<close>: the pieces between the delimiters, a last
  empty piece after a final delimiter included.
\<close>

function getline_pieces :: "char \<Rightarrow> string \<Rightarrow> string list" where
  "getline_pieces c s =
     (if c \<in> set s
      then takeWhile (\<lambda>x. x \<noteq> c) s # getline_pieces c (tl (dropWhile (\<lambda>x. x \<noteq> c) s))
      else [s])"
  by pat_completeness auto
termination
proof (relation "measure (\<lambda>(c, s). length s)")
  fix c :: char and s :: string
  assume "c \<in> set s"
  then have "dropWhile (\<lambda>x. x \<noteq> c) s \<noteq> []" by simp
  moreover have "length (dropWhile (\<lambda>x. x \<noteq> c) s) \<le> length s" by (rule length_dropWhile_le)
  ultimately show "((c, tl (dropWhile (\<lambda>x. x \<noteq> c) s)), (c, s)) \<in> measure (\<lambda>(c, s). length s)"
    by (cases "dropWhile (\<lambda>x. x \<noteq> c) s") auto
qed simp

declare getline_pieces.simps [simp del]

section \<open>Numerals\<close>

fun digits_val :: "nat \<Rightarrow> string \<Rightarrow> nat" where
  "digits_val n [] = n"
| "digits_val n (c # cs) = digits_val (10 * n + digit_val c) cs"

text \<open>
  \<^verbatim>\<open>std::stoi\<close>: leading white space, an optional sign, digits; what follows is ignored.
  \<^verbatim>\<open>int\<close> has 32 bits.
\<close>

definition int_min :: int where "int_min = - (2 ^ 31)"
definition int_max :: int where "int_max = 2 ^ 31 - 1"

definition stoi :: "string \<Rightarrow> cpp_exception + int" where
  "stoi s =
     (let t = dropWhile isspace s;
          neg = (t \<noteq> [] \<and> hd t = CHR ''-'');
          u = (if t \<noteq> [] \<and> (hd t = CHR ''-'' \<or> hd t = CHR ''+'') then tl t else t);
          ds = takeWhile isdigit u;
          v = (if neg then - int (digits_val 0 ds) else int (digits_val 0 ds))
      in if ds = [] then Inl Invalid_argument
         else if v < int_min \<or> int_max < v then Inl Out_of_range
         else Inr v)"

fun nat_digits :: "nat \<Rightarrow> string" where
  "nat_digits n =
     (if n < 10 then [digit_char n] else nat_digits (n div 10) @ [digit_char (n mod 10)])"

declare nat_digits.simps [simp del]

definition to_string :: "int \<Rightarrow> string" where
  "to_string i = (if i < 0 then CHR ''-'' # nat_digits (nat (- i)) else nat_digits (nat i))"

section \<open>Facts about tokens\<close>

lemma next_token_word [text_simps]:
  "\<forall>c \<in> set w. \<not> isspace c \<Longrightarrow> next_token w = (w, [])"
  by (cases w) (auto simp: next_token_def Let_def takeWhile_eq_all_conv [THEN iffD2])

lemma next_token_word_sep:
  assumes "\<forall>c \<in> set w. \<not> isspace c" and "isspace c" and "w \<noteq> []"
  shows "next_token (w @ c # r) = (w, c # r)"
proof -
  from assms(1,3) have d: "dropWhile isspace (w @ c # r) = w @ c # r"
    by (cases w) auto
  have "takeWhile (\<lambda>c. \<not> isspace c) (w @ c # r) = w @ takeWhile (\<lambda>c. \<not> isspace c) (c # r)"
    using assms(1) by (intro takeWhile_append2) auto
  moreover have "dropWhile (\<lambda>c. \<not> isspace c) (w @ c # r) = dropWhile (\<lambda>c. \<not> isspace c) (c # r)"
    using assms(1) by (intro dropWhile_append2) auto
  ultimately show ?thesis using assms(2) by (simp add: next_token_def Let_def d)
qed

lemma next_token_space [text_simps]: "isspace c \<Longrightarrow> next_token (c # s) = next_token s"
  by (simp add: next_token_def)

lemma next_token_Nil [simp, text_simps]: "next_token [] = ([], [])"
  by (simp add: next_token_def)

lemma stream_tokens_Nil [simp, text_simps]: "stream_tokens [] = [[]]"
  by (simp add: stream_tokens.simps)

lemma stream_tokens_space [text_simps]:
  "isspace c \<Longrightarrow> stream_tokens (c # s) = stream_tokens s"
  by (simp add: stream_tokens.simps [of "c # s"] stream_tokens.simps [of s] next_token_space)

lemma stream_tokens_word [text_simps]:
  "\<forall>c \<in> set w. \<not> isspace c \<Longrightarrow> stream_tokens w = [w]"
  by (simp add: stream_tokens.simps [of w] next_token_word)

lemma stream_tokens_word_sep [text_simps]:
  "\<forall>c \<in> set w. \<not> isspace c \<Longrightarrow> isspace c \<Longrightarrow> w \<noteq> [] \<Longrightarrow>
   stream_tokens (w @ c # r) = w # stream_tokens r"
  by (simp add: stream_tokens.simps [of "w @ c # r"] next_token_word_sep stream_tokens_space)

text \<open>A token never contains white space.\<close>

lemma next_token_nonspace: "c \<in> set (fst (next_token s)) \<Longrightarrow> \<not> isspace c"
  by (auto simp: next_token_def Let_def dest: set_takeWhileD)

lemma stream_tokens_nonspace:
  "w \<in> set (stream_tokens s) \<Longrightarrow> c \<in> set w \<Longrightarrow> \<not> isspace c"
proof (induction s rule: stream_tokens.induct)
  case (1 s)
  obtain x rest where tok: "next_token s = (x, rest)" by fastforce
  then have x: "\<forall>c \<in> set x. \<not> isspace c" using next_token_nonspace [of _ s] by simp
  show ?case
  proof (cases "rest = []")
    case True
    with "1.prems" tok x show ?thesis by (simp add: stream_tokens.simps [of s])
  next
    case False
    with "1.prems"(1) tok have "w = x \<or> w \<in> set (stream_tokens rest)"
      by (simp add: stream_tokens.simps [of s])
    with "1.IH" [OF tok [symmetric] False] "1.prems"(2) x show ?thesis by blast
  qed
qed

section \<open>Facts about numerals\<close>

lemma of_char_digit_char: "d < 10 \<Longrightarrow> of_char (digit_char d) = d + 48"
  by (simp add: digit_char_def)

lemma digit_val_digit_char [simp, text_simps]: "d < 10 \<Longrightarrow> digit_val (digit_char d) = d"
  by (simp add: digit_val_def of_char_digit_char)

lemma isdigit_zero [simp]: "isdigit CHR ''0''"
  by (simp add: isdigit_def)

lemma isdigit_digit_chars: "\<forall>d \<in> set [0..<10]. isdigit (digit_char d)"
  by code_simp

lemma isdigit_digit_char [simp, text_simps]: "d < 10 \<Longrightarrow> isdigit (digit_char d)"
  using isdigit_digit_chars by simp

lemma digits_val_append [text_simps]:
  "digits_val n (xs @ ys) = digits_val (digits_val n xs) ys"
  by (induction xs arbitrary: n) auto

lemma digits_val_nat_digits [simp, text_simps]: "digits_val 0 (nat_digits n) = n"
proof (induction n rule: nat_digits.induct)
  case (1 n)
  then show ?case
    by (cases "n < 10") (simp_all add: nat_digits.simps [of n] digits_val_append)
qed

lemma nat_digits_isdigit: "c \<in> set (nat_digits n) \<Longrightarrow> isdigit c"
proof (induction n rule: nat_digits.induct)
  case (1 n)
  then show ?case
    by (cases "n < 10") (auto simp: nat_digits.simps [of n])
qed

lemma nat_digits_nonempty [simp]: "nat_digits n \<noteq> []"
  by (subst nat_digits.simps) simp

lemma isdigit_nonspace: "isdigit c \<Longrightarrow> \<not> isspace c"
  by (auto simp: isdigit_def isspace_def)

lemma isspace_dot [simp]: "\<not> isspace CHR ''.''"
  by (simp add: isspace_def)

lemma isdigit_not_hash: "isdigit c \<Longrightarrow> c \<noteq> CHR ''#''"
  by (auto simp: isdigit_def)

lemma isdigit_not_sign: "isdigit c \<Longrightarrow> c \<noteq> CHR ''-'' \<and> c \<noteq> CHR ''+'' \<and> c \<noteq> CHR ''.''"
  by (auto simp: isdigit_def)

lemma length_nat_digits: "n < 10 ^ Suc k \<Longrightarrow> length (nat_digits n) \<le> Suc k"
proof (induction k arbitrary: n)
  case 0
  then show ?case by (simp add: nat_digits.simps)
next
  case (Suc k)
  then have "n div 10 < 10 ^ Suc k" by (simp add: div_less_iff_less_mult)
  with Suc.IH [of "n div 10"] show ?case by (subst nat_digits.simps) simp
qed

text \<open>Reading a non-empty digit string gives its value.\<close>

lemma stoi_digits:
  assumes "ds \<noteq> []" and "\<forall>c \<in> set ds. isdigit c" and "int (digits_val 0 ds) \<le> int_max"
  shows "stoi ds = Inr (int (digits_val 0 ds))"
proof -
  from assms(1,2) have hd: "isdigit (hd ds)" by simp
  then have d: "dropWhile isspace ds = ds" using assms(1) isdigit_nonspace by (cases ds) auto
  have t: "takeWhile isdigit ds = ds" using assms(2) by (simp add: takeWhile_eq_all_conv)
  show ?thesis using assms(1,3) isdigit_not_sign [OF hd]
    by (simp add: stoi_def Let_def int_min_def d t)
qed

lemma stoi_to_string: "0 \<le> i \<Longrightarrow> i \<le> int_max \<Longrightarrow> stoi (to_string i) = Inr i"
  by (simp add: to_string_def stoi_digits nat_digits_isdigit)

lemma digits_val_zeros [simp, text_simps]:
  "digits_val 0 (replicate k CHR ''0'' @ ds) = digits_val 0 ds"
  by (induction k) (auto simp: digit_val_def)

end
