(* ===== verification/Dns_Msg.thy ===== *)
theory Dns_Msg
  imports Cpp_Strings
begin

text \<open>
  The message the processes exchange (\<^verbatim>\<open>dns_msg.proto\<close>) with the presence bits of proto2, and
  the DNS packet helpers of the client and controller (\<^verbatim>\<open>dns_util.cc\<close>).  The generated
  protocol buffer code and the ldns library are not part of the repository: the codec and the
  library calls are parameters, collected in the records \<open>pb\<close> and \<open>ldns\<close>, and the facts the
  code relies on are the predicates \<open>codec_ok\<close> and \<open>id_rw_ok\<close>.
\<close>

unbundle bit_operations_syntax

section \<open>trace\_replay.DNSMsg\<close>

record dnsmsg =
  f_seconds :: "int option"
  f_microseconds :: "int option"
  f_tcp :: "bool option"
  f_ipv4 :: "bool option"
  f_response :: "bool option"
  f_src_ip :: "string option"
  f_dst_ip :: "string option"
  f_raw :: "bytes option"
  f_sync_time :: "bool option"

definition new_DNSMsg :: dnsmsg where
  "new_DNSMsg = \<lparr>f_seconds = None, f_microseconds = None, f_tcp = None, f_ipv4 = None,
     f_response = None, f_src_ip = None, f_dst_ip = None, f_raw = None, f_sync_time = None\<rparr>"

text \<open>The accessors return the default of the type when the field is absent.\<close>

definition seconds :: "dnsmsg \<Rightarrow> int" where
  "seconds m = (case f_seconds m of None \<Rightarrow> 0 | Some v \<Rightarrow> v)"

definition microseconds :: "dnsmsg \<Rightarrow> int" where
  "microseconds m = (case f_microseconds m of None \<Rightarrow> 0 | Some v \<Rightarrow> v)"

definition tcp :: "dnsmsg \<Rightarrow> bool" where
  "tcp m = (case f_tcp m of None \<Rightarrow> False | Some v \<Rightarrow> v)"

definition src_ip :: "dnsmsg \<Rightarrow> string" where
  "src_ip m = (case f_src_ip m of None \<Rightarrow> [] | Some v \<Rightarrow> v)"

definition raw :: "dnsmsg \<Rightarrow> bytes" where
  "raw m = (case f_raw m of None \<Rightarrow> [] | Some v \<Rightarrow> v)"

definition sync_time :: "dnsmsg \<Rightarrow> bool" where
  "sync_time m = (case f_sync_time m of None \<Rightarrow> False | Some v \<Rightarrow> v)"

definition set_sync_time :: "bool \<Rightarrow> dnsmsg \<Rightarrow> dnsmsg" where
  "set_sync_time b m = m\<lparr>f_sync_time := Some b\<rparr>"

text \<open>The required fields of the schema.\<close>

definition initialized :: "dnsmsg \<Rightarrow> bool" where
  "initialized m \<longleftrightarrow>
     f_seconds m \<noteq> None \<and> f_microseconds m \<noteq> None \<and> f_tcp m \<noteq> None \<and> f_ipv4 m \<noteq> None \<and>
     f_src_ip m \<noteq> None \<and> f_raw m \<noteq> None"

section \<open>Code outside the repository\<close>

text \<open>
  \<^verbatim>\<open>SerializeToString\<close> (\<open>None\<close> when it returns false) and \<^verbatim>\<open>ParseFromArray\<close>, whose result flag
  the sources ignore.
\<close>

record pb =
  SerializeToString :: "dnsmsg \<Rightarrow> bytes option"
  ParseFromArray :: "bytes \<Rightarrow> dnsmsg"

text \<open>
  What the sources rely on for a message: it serialises to a non-empty string below the two
  gigabyte limit of protocol buffers, and parsing that string gives the message back.
\<close>

definition codec_ok :: "pb \<Rightarrow> dnsmsg \<Rightarrow> bool" where
  "codec_ok c m \<longleftrightarrow>
     (case SerializeToString c m of
        None \<Rightarrow> False
      | Some bs \<Rightarrow> bs \<noteq> [] \<and> length bs < 2 ^ 31 \<and> ParseFromArray c bs = m)"

text \<open>
  The ldns calls: parsing and building packets, the number of questions, the text of the first
  question, the two byte accessors of the wire format and the setters of a parsed packet.
\<close>

record 'p ldns =
  ldns_wire2pkt :: "bytes \<Rightarrow> 'p option"
  ldns_pkt2wire :: "'p \<Rightarrow> bytes option"
  ldns_pkt_qdcount :: "'p \<Rightarrow> nat"
  ldns_question_str :: "'p \<Rightarrow> string"
  ldns_pkt_new :: "'p option"
  ldns_pkt_query_new_frm_str :: "string \<Rightarrow> string \<Rightarrow> string \<Rightarrow> 'p option option"
  ldns_pkt_set_id :: "'p \<Rightarrow> u16 \<Rightarrow> 'p"
  ldns_pkt_set_edns_do :: "'p \<Rightarrow> bool \<Rightarrow> 'p"
  ldns_pkt_set_edns_udp_size :: "'p \<Rightarrow> u16 \<Rightarrow> 'p"
  ldns_read_uint16 :: "bytes \<Rightarrow> u16"
  ldns_write_uint16 :: "bytes \<Rightarrow> u16 \<Rightarrow> bytes"

text \<open>
  The two byte accessors agree with each other, keep the length and touch the first two bytes
  only.
\<close>

definition id_rw_ok :: "'p ldns \<Rightarrow> bytes \<Rightarrow> u16 \<Rightarrow> bool" where
  "id_rw_ok L buf v \<longleftrightarrow>
     ldns_read_uint16 L (ldns_write_uint16 L buf v) = v \<and>
     length (ldns_write_uint16 L buf v) = length buf \<and>
     drop 2 (ldns_write_uint16 L buf v) = drop 2 buf"

section \<open>dns\_util.cc\<close>

text \<open>
  \<^verbatim>\<open>build_dns_pkt\<close> and \<^verbatim>\<open>build_dns_query\<close> return the wire form, \<open>None\<close> when they return false.
  The random identifier is an argument.  In \<^verbatim>\<open>ldns_pkt_query_new_frm_str\<close> the outer \<open>None\<close> is an
  error status and \<open>Some None\<close> a null packet with status ok.
\<close>

definition build_dns_pkt :: "'p ldns \<Rightarrow> u16 \<Rightarrow> bytes option" where
  "build_dns_pkt L rnd =
     (case ldns_pkt_new L of
        None \<Rightarrow> None
      | Some p \<Rightarrow> ldns_pkt2wire L (ldns_pkt_set_id L p rnd))"

definition build_dns_query :: "'p ldns \<Rightarrow> u16 \<Rightarrow> string \<Rightarrow> string \<Rightarrow> string \<Rightarrow> bytes option" where
  "build_dns_query L rnd qname qclass qtype =
     (case ldns_pkt_query_new_frm_str L qname qtype qclass of
        None \<Rightarrow> None
      | Some None \<Rightarrow> None
      | Some (Some p) \<Rightarrow>
          (let p1 = ldns_pkt_set_edns_do L p True;
               p2 = ldns_pkt_set_edns_udp_size L p1 4096;
               p3 = ldns_pkt_set_id L p2 rnd
           in ldns_pkt2wire L p3))"

text \<open>The QR bit of the header; the two bytes are copied without a check of the length.\<close>

definition is_query :: "bytes \<Rightarrow> bool \<Rightarrow> bool result" where
  "is_query buf is_tcp =
     (let offset = 2 + (if is_tcp then 2 else 0)
      in if length buf < offset + 2 then Inl (Undefined ''is_query: read past the buffer'')
         else let bits = rd16 (buf ! offset) (buf ! (offset + 1))
              in Inr ((0x8000 AND bits) = 0))"

definition set_random_id :: "'p ldns \<Rightarrow> u16 \<Rightarrow> bytes \<Rightarrow> bytes result" where
  "set_random_id L rnd buf =
     (if length buf < 2 then Inl (Undefined ''set_random_id: write past the buffer'')
      else Inr (ldns_write_uint16 L buf rnd))"

definition get_id :: "'p ldns \<Rightarrow> bytes \<Rightarrow> u16 result" where
  "get_id L buf =
     (if length buf < 2 then Inl (Undefined ''get_id: read past the buffer'')
      else Inr (ldns_read_uint16 L buf))"

definition get_query_rr_str :: "'p ldns \<Rightarrow> bytes \<Rightarrow> string" where
  "get_query_rr_str L buf =
     (case ldns_wire2pkt L buf of
        None \<Rightarrow> []
      | Some pkt \<Rightarrow> if ldns_pkt_qdcount L pkt \<le> 0 then [] else ldns_question_str L pkt)"

section \<open>Facts\<close>

lemmas dnsmsg_accessors =
  seconds_def microseconds_def tcp_def src_ip_def raw_def sync_time_def

lemma set_sync_time_simps [simp]:
  "sync_time (set_sync_time b m) = b"
  "raw (set_sync_time b m) = raw m"
  "src_ip (set_sync_time b m) = src_ip m"
  "seconds (set_sync_time b m) = seconds m"
  "microseconds (set_sync_time b m) = microseconds m"
  "set_sync_time a (set_sync_time b m) = set_sync_time a m"
  by (simp_all add: set_sync_time_def dnsmsg_accessors)

lemma codec_okE:
  assumes "codec_ok c m"
  obtains bs where "SerializeToString c m = Some bs" "bs \<noteq> []" "length bs < 2 ^ 31"
    "ParseFromArray c bs = m"
  using assms by (auto simp: codec_ok_def split: option.splits)

text \<open>The QR bit is the top bit of the third byte of a DNS header.\<close>

lemma is_query_top_bit:
  assumes "4 \<le> length buf"
  shows "is_query buf False = Inr (\<not> bit (buf ! 2) 7)"
proof -
  have "((0x8000 :: u16) AND w = 0) \<longleftrightarrow> \<not> bit w 15" for w :: u16
  proof -
    have pow: "(0x8000 :: u16) = 2 ^ 15" by simp
    have "bit ((0x8000 :: u16) AND w) n \<longleftrightarrow> n = 15 \<and> bit w n" for n
      unfolding pow bit_and_iff bit_exp_iff by auto
    then show ?thesis by (metis bit_0_eq bit_word_eqI bot_apply bot_bool_def)
  qed
  moreover have "\<not> bit (buf ! 3) 15" using bit_imp_le_length [of "buf ! 3" 15] by auto
  ultimately show ?thesis using assms by (simp add: is_query_def rd16_def bit_simps)
qed

section \<open>Concrete parameters\<close>

text \<open>
  Instances of the two parameters, for evaluating the model on concrete inputs: a codec that
  numbers the messages of a table, and the parts of the DNS wire format that need no parser.
\<close>

fun index_of :: "'a list \<Rightarrow> 'a \<Rightarrow> nat option" where
  "index_of [] x = None"
| "index_of (y # ys) x = (if x = y then Some 0 else map_option Suc (index_of ys x))"

definition table_pb :: "dnsmsg list \<Rightarrow> pb" where
  "table_pb ms =
     \<lparr>SerializeToString = (\<lambda>m. map_option (\<lambda>i. [of_nat i]) (index_of ms m)),
      ParseFromArray = (\<lambda>bs. case bs of [b] \<Rightarrow> if unat b < length ms then ms ! unat b else new_DNSMsg
                                        | _ \<Rightarrow> new_DNSMsg)\<rparr>"

definition header_ldns :: "bytes ldns" where
  "header_ldns =
     \<lparr>ldns_wire2pkt = (\<lambda>b. if length b < 12 then None else Some b),
      ldns_pkt2wire = Some,
      ldns_pkt_qdcount = (\<lambda>b. unat (rd16 (b ! 4) (b ! 5))),
      ldns_question_str = (\<lambda>b. ''a.'' @ [CHR 0x09] @ ''IN'' @ [CHR 0x09] @ ''A'' @ [CHR 0x0A]),
      ldns_pkt_new = Some (replicate 12 0),
      ldns_pkt_query_new_frm_str = (\<lambda>n t k. Some (Some (replicate 4 0 @ [0, 1] @ replicate 6 0))),
      ldns_pkt_set_id = (\<lambda>p v. be16 v @ drop 2 p),
      ldns_pkt_set_edns_do = (\<lambda>p b. p),
      ldns_pkt_set_edns_udp_size = (\<lambda>p n. p),
      ldns_read_uint16 = (\<lambda>b. rd16 (b ! 0) (b ! 1)),
      ldns_write_uint16 = (\<lambda>b v. be16 v @ drop 2 b)\<rparr>"

lemma index_of_Some: "index_of xs x = Some i \<Longrightarrow> i < length xs \<and> xs ! i = x"
  by (induction xs arbitrary: i) (auto split: if_splits)

lemma index_of_set: "x \<in> set xs \<Longrightarrow> \<exists>i. index_of xs x = Some i"
  by (induction xs) auto

lemma table_pb_ok: "m \<in> set ms \<Longrightarrow> length ms < 256 \<Longrightarrow> codec_ok (table_pb ms) m"
  using index_of_set [of m ms] index_of_Some [of ms m]
  by (auto simp: codec_ok_def table_pb_def unat_of_nat)

lemma header_ldns_rw: "2 \<le> length b \<Longrightarrow> id_rw_ok header_ldns b v"
  using rd16_be16 [of v] by (simp add: id_rw_ok_def header_ldns_def nth_append)

end
