(* ===== verification/Routing.thy ===== *)
theory Routing
  imports Framing Dns_Msg
begin

text \<open>
  What the manager of the client side and the postman of the controller have in common: both
  assign every source address to one of their peers the first time they see it and stay with
  it, and both write length-prefixed messages to their peers.  The locale \<open>sticky_router\<close> is the
  contract of the assignment; its consequences are proved here once.  \<open>stream\<close> is what one peer
  receives.
\<close>

section \<open>Writes\<close>

text \<open>The log of the writes to sockets or buffer events, in order.\<close>

type_synonym 'd writes = "('d \<times> bytes) list"

definition stream :: "'d \<Rightarrow> 'd writes \<Rightarrow> bytes" where
  "stream d w = concat (map snd (filter (\<lambda>x. fst x = d) w))"

text \<open>The two writes of a message: the length in network byte order and the data.\<close>

definition frame_writes :: "'d \<Rightarrow> bytes \<Rightarrow> 'd writes" where
  "frame_writes d bs = [(d, be32 (of_nat (length bs))), (d, bs)]"

lemma stream_Nil [simp]: "stream d [] = []"
  by (simp add: stream_def)

lemma stream_append [simp]: "stream d (w @ v) = stream d w @ stream d v"
  by (simp add: stream_def)

lemma stream_frame_writes [simp]:
  "stream d (frame_writes e bs) = (if d = e then frame32 bs else [])"
  by (simp add: stream_def frame_writes_def frame32_def)

lemma stream_concat: "stream d (concat ws) = concat (map (stream d) ws)"
  by (induction ws) auto

lemma stream_broadcast:
  "distinct ds \<Longrightarrow>
   stream d (concat (map (\<lambda>e. frame_writes e bs) ds)) = (if d \<in> set ds then frame32 bs else [])"
  by (induction ds) (auto simp: stream_concat)

lemma stream_routed:
  "stream d (concat (map (\<lambda>m. frame_writes (dest m) (f m)) ms)) =
   concat (map (\<lambda>m. frame32 (f m)) (filter (\<lambda>m. dest m = d) ms))"
  by (induction ms) auto

text \<open>
  A write on a socket.  \<open>wr n bs\<close> is what the call returns for the \<open>n\<close>-th write of the process:
  \<open>None\<close> is -1, \<open>Some k\<close> the number of bytes taken, which the sources do not look at.
  \<open>write_frame\<close> is the pair of calls that sends a message, each followed by the exit on -1.
\<close>

type_synonym write_ret = "nat \<Rightarrow> bytes \<Rightarrow> nat option"

definition sock_write :: "write_ret \<Rightarrow> 'd \<Rightarrow> bytes \<Rightarrow> 'd writes \<Rightarrow> 'd writes result" where
  "sock_write wr d bs w =
     (case wr (length w) bs of
        None \<Rightarrow> Inl (Exit 1 ''fail to write socket'')
      | Some k \<Rightarrow> Inr (w @ [(d, take k bs)]))"

definition write_frame :: "write_ret \<Rightarrow> 'd \<Rightarrow> bytes \<Rightarrow> 'd writes \<Rightarrow> 'd writes result" where
  "write_frame wr d bs w =
     bindE (sock_write wr d (be32 (of_nat (length bs))) w) (\<lambda>w1. sock_write wr d bs w1)"

text \<open>Writes that take all they are given.\<close>

definition full_writes :: "write_ret \<Rightarrow> bool" where
  "full_writes wr \<longleftrightarrow> (\<forall>n bs. wr n bs = Some (length bs))"

lemma write_frame_full:
  "full_writes wr \<Longrightarrow> write_frame wr d bs w = Inr (w @ frame_writes d bs)"
  by (simp add: write_frame_def sock_write_def full_writes_def frame_writes_def)

text \<open>A C string: the characters, or bytes, before the first null.\<close>

definition c_str :: "string \<Rightarrow> string" where
  "c_str s = takeWhile (\<lambda>c. c \<noteq> CHR 0x00) s"

definition c_data :: "bytes \<Rightarrow> bytes" where
  "c_data bs = takeWhile (\<lambda>b. b \<noteq> 0) bs"

text \<open>\<^verbatim>\<open>m[k]\<close> of an \<^verbatim>\<open>unordered_map\<close>: an absent key is inserted with the default value.\<close>

definition map_index :: "('k \<rightharpoonup> 'v) \<Rightarrow> 'k \<Rightarrow> 'v \<Rightarrow> 'v \<times> ('k \<rightharpoonup> 'v)" where
  "map_index m k d = (case m k of Some v \<Rightarrow> (v, m) | None \<Rightarrow> (d, m(k \<mapsto> d)))"

lemma map_index_Some [simp]: "m k = Some v \<Longrightarrow> map_index m k d = (v, m)"
  by (simp add: map_index_def)

text \<open>\<^verbatim>\<open>insert\<close> of an \<^verbatim>\<open>unordered_map\<close>: an entry that is there stays.\<close>

definition map_insert :: "'k \<Rightarrow> 'v \<Rightarrow> ('k \<rightharpoonup> 'v) \<Rightarrow> ('k \<rightharpoonup> 'v)" where
  "map_insert k v m = (case m k of None \<Rightarrow> m(k \<mapsto> v) | Some _ \<Rightarrow> m)"

text \<open>Serialising a message that is about to be sent.\<close>

definition serialize :: "pb \<Rightarrow> dnsmsg \<Rightarrow> bytes result" where
  "serialize c msg =
     (case SerializeToString c msg of
        None \<Rightarrow> Inl (Exit 1 ''serialize message fails'')
      | Some s \<Rightarrow> if s = [] then Inl (Assertion ''msg_str.size() > 0'') else Inr s)"

definition ser :: "pb \<Rightarrow> bool \<Rightarrow> dnsmsg \<Rightarrow> bytes" where
  "ser c b q = the (SerializeToString c (set_sync_time b q))"

definition serializable :: "pb \<Rightarrow> dnsmsg \<Rightarrow> bool" where
  "serializable c q \<longleftrightarrow>
     (\<forall>b. \<exists>s. SerializeToString c (set_sync_time b q) = Some s \<and> s \<noteq> [])"

text \<open>
  What the peer \<open>d\<close> is to receive of the queries \<open>qs\<close> when \<open>tbl\<close> assigns the sources: the first
  query marked for synchronisation, unless that has happened, and its own queries.
\<close>

definition routed ::
    "pb \<Rightarrow> bool \<Rightarrow> (string \<rightharpoonup> 'd) \<Rightarrow> 'd \<Rightarrow> dnsmsg list \<Rightarrow> bytes list" where
  "routed c sync tbl fd qs =
     (if sync \<or> qs = [] then [] else [ser c True (hd qs)]) @
     map (ser c False) (filter (\<lambda>q. tbl (c_str (src_ip q)) = Some fd) qs)"

text \<open>The source of a query is assigned to one of the peers \<open>D\<close>.\<close>

definition assigned :: "(string \<rightharpoonup> 'd) \<Rightarrow> 'd set \<Rightarrow> dnsmsg \<Rightarrow> bool" where
  "assigned tbl D q \<longleftrightarrow> tbl (c_str (src_ip q)) \<in> Some ` D"

lemma assignedI: "tbl (c_str (src_ip q)) = Some d \<Longrightarrow> d \<in> D \<Longrightarrow> assigned tbl D q"
  by (simp add: assigned_def)

lemma assigned_le: "assigned tbl D q \<Longrightarrow> tbl \<subseteq>\<^sub>m tbl' \<Longrightarrow> assigned tbl' D q"
  by (auto simp: assigned_def map_le_def dom_def)

lemma serialize_ok:
  assumes "serializable c q"
  shows "serialize c (set_sync_time b q) = Inr (ser c b q)"
proof -
  from assms obtain s where "SerializeToString c (set_sync_time b q) = Some s" "s \<noteq> []"
    unfolding serializable_def by blast
  then show ?thesis by (simp add: serialize_def ser_def)
qed

text \<open>The bytes of a text.\<close>

definition str_bytes :: "string \<Rightarrow> bytes" where
  "str_bytes s = map of_char s"

text \<open>The event flags of libevent.\<close>

definition BEV_EVENT_EOF :: u16 where "BEV_EVENT_EOF = 0x10"
definition BEV_EVENT_ERROR :: u16 where "BEV_EVENT_ERROR = 0x20"
definition BEV_EVENT_TIMEOUT :: u16 where "BEV_EVENT_TIMEOUT = 0x40"
definition BEV_EVENT_CONNECTED :: u16 where "BEV_EVENT_CONNECTED = 0x80"

section \<open>Sticky assignment\<close>

text \<open>Assigning a list of sources one after the other.\<close>

fun assign_all ::
    "('s \<Rightarrow> string \<Rightarrow> ('d \<times> 's) result) \<Rightarrow> 's \<Rightarrow> string list \<Rightarrow> ('d list \<times> 's) result" where
  "assign_all assign s [] = Inr ([], s)"
| "assign_all assign s (ip # ips) =
     bindE (assign s ip) (\<lambda>(d, s1).
       bindE (assign_all assign s1 ips) (\<lambda>(ds, s2). Inr (d # ds, s2)))"

locale sticky_router =
  fixes assign :: "'s \<Rightarrow> string \<Rightarrow> ('d \<times> 's) result"
    and table :: "'s \<Rightarrow> string \<rightharpoonup> 'd"
    and good :: "'s \<Rightarrow> bool"
    and peers :: "'s \<Rightarrow> 'd set"
  assumes known: "good s \<Longrightarrow> table s ip = Some d \<Longrightarrow> assign s ip = Inr (d, s)"
    and fresh: "good s \<Longrightarrow> table s ip = None \<Longrightarrow>
      \<exists>d s'. assign s ip = Inr (d, s') \<and> table s' = (table s)(ip \<mapsto> d) \<and> d \<in> peers s \<and>
             good s' \<and> peers s' = peers s"
    and range: "good s \<Longrightarrow> ran (table s) \<subseteq> peers s"
begin

text \<open>An assignment succeeds, is recorded, and changes no other entry.\<close>

lemma assign_step:
  assumes "good s"
  obtains d s' where "assign s ip = Inr (d, s')" "table s' ip = Some d" "table s \<subseteq>\<^sub>m table s'"
    "d \<in> peers s" "good s'" "peers s' = peers s"
proof (cases "table s ip")
  case None
  from fresh [OF assms None] None that show thesis by (fastforce simp: map_le_def)
next
  case (Some d)
  with known [OF assms Some] range [OF assms] assms that show thesis
    by (metis map_le_refl ranI subsetD)
qed

text \<open>
  Every source of a sequence goes to the peer the final table has for it, and the entries the
  table had before are kept.
\<close>

lemma assign_all_table:
  assumes "good s"
  shows "\<exists>ds s'. assign_all assign s ips = Inr (ds, s') \<and> map Some ds = map (table s') ips \<and>
     table s \<subseteq>\<^sub>m table s' \<and> set ds \<subseteq> peers s \<and> good s' \<and> peers s' = peers s"
  using assms
proof (induction ips arbitrary: s)
  case Nil
  then show ?case by simp
next
  case (Cons ip ips)
  obtain d s1 where 1: "assign s ip = Inr (d, s1)" "table s1 ip = Some d" "table s \<subseteq>\<^sub>m table s1"
    "d \<in> peers s" "good s1" "peers s1 = peers s"
    using assign_step [OF Cons.prems, of ip] by blast
  obtain ds s2 where 2: "assign_all assign s1 ips = Inr (ds, s2)"
    "map Some ds = map (table s2) ips" "table s1 \<subseteq>\<^sub>m table s2" "set ds \<subseteq> peers s1" "good s2"
    "peers s2 = peers s1"
    using Cons.IH [OF 1(5)] by blast
  have "table s2 ip = Some d" using 1(2) 2(3) by (metis domI map_le_def)
  with 1 2 show ?case by (auto intro: map_le_trans)
qed

lemma same_source_same_peer:
  assumes "good s" and "assign_all assign s ips = Inr (ds, s')"
    and "i < length ips" and "j < length ips" and "ips ! i = ips ! j"
  shows "ds ! i = ds ! j \<and> ds ! i \<in> peers s"
proof -
  from assign_all_table [OF assms(1), of ips] assms(2)
  have m: "map Some ds = map (table s') ips" and p: "set ds \<subseteq> peers s" by auto
  then have len: "length ds = length ips" by (metis length_map)
  from m have "\<forall>k < length ips. Some (ds ! k) = table s' (ips ! k)"
    by (metis len length_map nth_map)
  with assms(3-5) have "Some (ds ! i) = Some (ds ! j)" by metis
  with p len assms(3) show ?thesis by (metis nth_mem option.inject subsetD)
qed

end

end
