(* ===== verification/Text_Util.thy ===== *)
theory Text_Util
  imports Cpp_Strings
begin

text \<open>
  The string helpers and command line checks of the client (\<^verbatim>\<open>utility.cc\<close>, the same file is
  used by the controller, and \<^verbatim>\<open>check.cc\<close>) and of the mutator (\<^verbatim>\<open>str_util.cc\<close>,
  \<^verbatim>\<open>file_util.cc\<close>).  Overloaded C++ names carry a suffix.  The theorems say what the
  helpers compute: \<^verbatim>\<open>fmt_str\<close> normalises white space, the numeric checks accept exactly a
  sign and digits in the first token, and the two versions of \<^verbatim>\<open>str_split\<close> differ on
  trailing white space only.
\<close>

section \<open>utility.cc\<close>

definition trim_spaces :: "string \<Rightarrow> string" where
  "trim_spaces s = fst (next_token s)"

definition int2str :: "int \<Rightarrow> string" where
  "int2str n = to_string n"

text \<open>The loop of \<^verbatim>\<open>is_number(string &)\<close>; the flag is \<^verbatim>\<open>firsttime\<close>.\<close>

fun is_number_loop :: "bool \<Rightarrow> string \<Rightarrow> bool" where
  "is_number_loop firsttime [] = True"
| "is_number_loop firsttime (c # cs) =
     (if firsttime \<and> c = CHR ''-'' then is_number_loop firsttime cs
      else if \<not> isdigit c then False
      else is_number_loop False cs)"

definition is_number_any :: "string \<Rightarrow> bool" where
  "is_number_any s = (if s = [] then False else is_number_loop True s)"

definition is_number :: "string \<Rightarrow> bool \<Rightarrow> bool" where
  "is_number s0 positive =
     (let s = trim_spaces s0
      in if s = [] then False
         else if positive
           then (if hd s = CHR ''-'' then False
                 else list_all isdigit (if hd s = CHR ''+'' then tl s else s))
           else (if hd s \<noteq> CHR ''-'' then False else list_all isdigit (tl s)))"

definition lt0 :: "string \<Rightarrow> bool" where
  "lt0 s = is_number s False"

definition gt0 :: "string \<Rightarrow> bool" where
  "gt0 s = is_number s True"

text \<open>
  \<^verbatim>\<open>stat\<close> is a parameter: \<open>None\<close> when it fails, else whether the path is a directory.
  A null pointer argument is \<open>None\<close>.
\<close>

definition check_path :: "(string \<Rightarrow> bool option) \<Rightarrow> string option \<Rightarrow> bool \<Rightarrow> unit result" where
  "check_path stat f is_dir =
     (case f of
        None \<Rightarrow> Inl (Exit 1 ''file is NULL'')
      | Some p \<Rightarrow>
          if length p \<le> 0 then Inl (Exit 1 ''file is not valid'')
          else (case stat p of
                  None \<Rightarrow> Inl (Exit 1 ''file cannot be openned'')
                | Some isdir \<Rightarrow>
                    if is_dir \<and> \<not> isdir then Inl (Exit 1 ''file is not a directory'')
                    else if \<not> is_dir \<and> isdir then Inl (Exit 1 ''file is a directory'')
                    else Inr ()))"

definition str_split :: "string \<Rightarrow> string list" where
  "str_split s = (if s = [] then [] else stream_tokens s)"

definition str_split_char :: "string \<Rightarrow> char \<Rightarrow> bool \<Rightarrow> string list" where
  "str_split_char s c do_trim =
     map (\<lambda>x. if do_trim then trim_spaces x else x) (getline_pieces c s)"

definition str_split_two :: "string \<Rightarrow> char \<Rightarrow> (string \<times> string) result" where
  "str_split_two s c =
     (if c \<notin> set s then Inl (Exit 1 ''does not contain'')
      else Inr (takeWhile (\<lambda>x. x \<noteq> c) s, tl (dropWhile (\<lambda>x. x \<noteq> c) s)))"

definition rm_last_dot :: "string \<Rightarrow> string" where
  "rm_last_dot s = (if 1 < length s \<and> last s = CHR ''.'' then take (length s - 1) s else s)"

definition str_tolower :: "string \<Rightarrow> string" where
  "str_tolower s = map char_tolower s"

text \<open>The accumulating loop of \<^verbatim>\<open>fmt_str\<close>: \<open>first\<close> and the result so far.\<close>

fun fmt_loop :: "string \<Rightarrow> bool \<Rightarrow> string \<Rightarrow> string list \<Rightarrow> string" where
  "fmt_loop c first r [] = r"
| "fmt_loop c first r (e # v) =
     (if length e = 0 \<or> e = [CHR 0x0A] then fmt_loop c first r v
      else if first then fmt_loop c False (r @ e) v
      else fmt_loop c False ((r @ c) @ e) v)"

definition fmt_str :: "string \<Rightarrow> string \<Rightarrow> string" where
  "fmt_str s c = fmt_loop c True [] (str_split s)"

section \<open>check.cc\<close>

definition check_lt0 :: "string \<Rightarrow> unit result" where
  "check_lt0 s1 = require (lt0 s1) (Exit 1 ''must be < 0'')"

definition check_gt0 :: "string \<Rightarrow> unit result" where
  "check_gt0 s1 = require (gt0 s1) (Exit 1 ''must be > 0'')"

definition check_int :: "int \<Rightarrow> unit result" where
  "check_int i = (if i \<le> 0 then Inl (Exit 1 ''is invalid'') else Inr ())"

definition check_int_str :: "string \<Rightarrow> unit result" where
  "check_int_str s1 =
     (if length s1 = 0 then Inl (Exit 1 ''is invalid'')
      else bindE (uncaught (stoi s1))
             (\<lambda>v. if v < 0 then Inl (Exit 1 ''is invalid'') else Inr ()))"

definition check_str :: "string \<Rightarrow> unit result" where
  "check_str s1 = (if length s1 = 0 then Inl (Exit 1 ''is invalid'') else Inr ())"

definition check_str2 :: "string \<Rightarrow> string \<Rightarrow> unit result" where
  "check_str2 s1 s2 =
     (if length s1 = 0 \<or> length s2 = 0 then Inl (Exit 1 ''is invalid'') else Inr ())"

definition check_set :: "string \<Rightarrow> string set \<Rightarrow> unit result" where
  "check_set s1 ss = require (s1 \<in> ss) (Exit 1 ''is invalid'')"

definition check_map :: "string \<Rightarrow> (string \<rightharpoonup> 'a) \<Rightarrow> unit result" where
  "check_map s1 m = require (m s1 \<noteq> None) (Exit 1 ''is invalid; available options'')"

section \<open>str_util.cc and file_util.cc of the mutator\<close>

definition trim_space :: "string \<Rightarrow> string" where
  "trim_space s = fst (next_token s)"

definition trim_space2 :: "string \<Rightarrow> string" where
  "trim_space2 s = trim_space s"

definition str_set :: "string \<Rightarrow> string set \<Rightarrow> bool" where
  "str_set s1 ss = (s1 \<in> ss)"

definition str_split_skip :: "string \<Rightarrow> string list" where
  "str_split_skip s =
     (if s = [] then [] else filter (\<lambda>x. x \<noteq> []) (map trim_space (stream_tokens s)))"

definition str_split_char_trim :: "string \<Rightarrow> char \<Rightarrow> bool \<Rightarrow> string list" where
  "str_split_char_trim s c trim =
     (if s = [] then [] else map (\<lambda>x. if trim then trim_space x else x) (getline_pieces c s))"

text \<open>
  The mutator's \<^verbatim>\<open>check_path\<close> returns a flag where the client's exits.
\<close>

definition check_path_ok :: "(string \<Rightarrow> bool option) \<Rightarrow> string option \<Rightarrow> bool \<Rightarrow> bool" where
  "check_path_ok stat f is_dir =
     (case f of
        None \<Rightarrow> False
      | Some p \<Rightarrow>
          if length p \<le> 0 then False
          else (case stat p of
                  None \<Rightarrow> False
                | Some isdir \<Rightarrow>
                    if is_dir \<and> \<not> isdir then False
                    else if \<not> is_dir \<and> isdir then False
                    else True))"

section \<open>Words\<close>

text \<open>The words of a text: its maximal runs of characters that are not white space.\<close>

definition words :: "string \<Rightarrow> string list" where
  "words s = filter (\<lambda>x. x \<noteq> []) (stream_tokens s)"

definition join :: "string \<Rightarrow> string list \<Rightarrow> string" where
  "join c ws = concat (map (\<lambda>w. w @ c) (butlast ws)) @ (if ws = [] then [] else last ws)"

lemma join_Nil [simp]: "join c [] = []"
  by (simp add: join_def)

lemma join_single [simp]: "join c [w] = w"
  by (simp add: join_def)

lemma join_Cons: "ws \<noteq> [] \<Longrightarrow> join c (w # ws) = w @ c @ join c ws"
  by (simp add: join_def)

definition is_word :: "string \<Rightarrow> bool" where
  "is_word w \<longleftrightarrow> w \<noteq> [] \<and> (\<forall>c \<in> set w. \<not> isspace c)"

lemma words_are_words: "w \<in> set (words s) \<Longrightarrow> is_word w"
  by (auto simp: words_def is_word_def dest: stream_tokens_nonspace)

lemma words_Nil [simp]: "words [] = []"
  by (simp add: words_def)

lemma isspace_space [simp]:
  "isspace CHR '' ''" "isspace CHR 0x09" "isspace CHR 0x0A"
  by (simp_all add: isspace_def)

lemma stream_tokens_join:
  assumes "\<forall>w \<in> set ws. is_word w" and "ws \<noteq> []"
  shows "stream_tokens (join [CHR '' ''] ws) = ws"
  using assms
proof (induction ws)
  case Nil
  then show ?case by simp
next
  case (Cons w ws)
  then have w: "w \<noteq> []" "\<forall>c \<in> set w. \<not> isspace c" by (auto simp: is_word_def)
  with Cons show ?case
    by (cases "ws = []") (simp_all add: stream_tokens_word join_Cons stream_tokens_word_sep)
qed

lemma words_join:
  assumes "\<forall>w \<in> set ws. is_word w"
  shows "words (join [CHR '' ''] ws) = ws"
proof (cases "ws = []")
  case False
  with assms show ?thesis
    by (simp add: words_def stream_tokens_join) (auto simp: is_word_def filter_id_conv)
qed simp

lemma newline_not_word: "is_word w \<Longrightarrow> w \<noteq> [CHR 0x0A]"
  unfolding is_word_def by (metis isspace_space(3) list.set_intros(1))

lemma fmt_loop_tokens:
  assumes "\<forall>e \<in> set v. \<forall>ch \<in> set e. \<not> isspace ch"
  shows "fmt_loop c first r v =
     (let ws = filter (\<lambda>x. x \<noteq> []) v
      in r @ (if ws = [] then [] else (if first then [] else c) @ join c ws))"
  using assms
proof (induction v arbitrary: first r)
  case Nil
  then show ?case by simp
next
  case (Cons e v)
  show ?case
  proof (cases "e = []")
    case True
    with Cons show ?thesis by simp
  next
    case False
    with Cons.prems have "e \<noteq> [CHR 0x0A]"
      using newline_not_word [of e] by (auto simp: is_word_def)
    with False Cons show ?thesis by (auto simp: Let_def join_Cons)
  qed
qed

text \<open>\<^verbatim>\<open>fmt_str\<close> joins the words of its argument with the separator.\<close>

lemma fmt_str_words: "fmt_str s c = join c (words s)"
proof (cases "s = []")
  case True
  then show ?thesis by (simp add: fmt_str_def str_split_def)
next
  case False
  have "\<forall>e \<in> set (stream_tokens s). \<forall>ch \<in> set e. \<not> isspace ch"
    by (auto dest: stream_tokens_nonspace)
  with False show ?thesis
    by (simp add: fmt_str_def str_split_def fmt_loop_tokens words_def Let_def)
qed

lemma words_fmt_str: "words (fmt_str s [CHR '' '']) = words s"
  by (simp add: fmt_str_words words_join words_are_words)

lemma words_newline [simp]: "words [CHR 0x0A] = []"
  by (simp add: words_def stream_tokens_space)

text \<open>The mutator's \<^verbatim>\<open>str_split\<close> returns the words; trimming a token changes nothing.\<close>

lemma str_split_skip_words: "str_split_skip s = words s"
proof -
  have "map trim_space (stream_tokens s) = stream_tokens s"
    by (rule map_idI) (simp add: trim_space_def next_token_word stream_tokens_nonspace)
  then show ?thesis by (simp add: str_split_skip_def words_def)
qed

lemma str_split_two_sep:
  assumes "c \<notin> set s"
  shows "str_split_two (s @ c # t) c = Inr (s, t)"
proof -
  have "\<forall>x \<in> set s. x \<noteq> c" using assms by blast
  then show ?thesis by (simp add: str_split_two_def takeWhile_append2 dropWhile_append2)
qed

section \<open>Command lines\<close>

text \<open>
  What \<^verbatim>\<open>getopt_long\<close> returns for an option: a character or a number of the program's own, paired with
  the argument (empty when there is none).  \<^verbatim>\<open>atoi\<close> is 0 for a text that is no number and has no
  meaning for one that does not fit.
\<close>

datatype getopt_code = Short char | Long nat

type_synonym cli = "(getopt_code \<times> string) list"

definition atoi :: "string \<Rightarrow> int result" where
  "atoi s = (case stoi s of
     Inr v \<Rightarrow> Inr v
   | Inl e \<Rightarrow> if e = Invalid_argument then Inr 0 else Inl (Undefined ''atoi: out of range''))"

end
