(* ===== verification/Input_Source.thy ===== *)
theory Input_Source
  imports Dns_Msg Text_Util Framing
begin

text \<open>
  The input side shared by the client and the controller (\<^verbatim>\<open>input_source.cc\<close>): a class that
  yields one message per call from a network trace, a text file or a file of length-prefixed
  protocol buffers.  The libtrace calls made on one packet are the fields of \<open>trace_pkt\<close>, what
  opening and reading the input delivers is the record \<open>input_env\<close>.  The theorems say that the
  raw format reads back what was written, that a trace packet becomes a message only if it is a
  DNS query on port 53, how a text line is turned into a message, and that reading ends.
\<close>

unbundle bit_operations_syntax

section \<open>The environment\<close>

text \<open>
  What libtrace reports about one packet.  A payload is the bytes from the returned pointer on;
  \<open>None\<close> is a null pointer.
\<close>

record trace_pkt =
  tp_layer3 :: "(u16 \<times> nat) option"
  tp_dst_port :: u16
  tp_src_port :: u16
  tp_ip_payload :: "(byte \<times> nat) option"
  tp_ip6_payload :: "(byte \<times> nat) option"
  tp_udp_payload :: "bytes option"
  tp_tcp_payload :: "bytes option"
  tp_timeval :: "int \<times> int"
  tp_src_addr :: "string option"
  tp_dst_addr :: "string option"

record input_env =
  env_packet_ok :: bool
  env_trace_err :: bool
  env_trace_start :: int
  env_opens :: "string \<Rightarrow> bool"
  env_bytes :: bytes
  env_lines :: "string list"
  env_packets :: "trace_pkt list"
  env_read_err :: bool

section \<open>The class\<close>

definition INPUT_SRC_NONE :: u32 where "INPUT_SRC_NONE = 0"
definition INPUT_SRC_TRACE :: u32 where "INPUT_SRC_TRACE = 1"
definition INPUT_SRC_TEXT :: u32 where "INPUT_SRC_TEXT = 2"
definition INPUT_SRC_RAW :: u32 where "INPUT_SRC_RAW = 4"

definition BUF_SIZE :: nat where "BUF_SIZE = 4096"

definition input_src_map :: "string \<rightharpoonup> u32" where
  "input_src_map =
     [''text'' \<mapsto> INPUT_SRC_TEXT, ''trace'' \<mapsto> INPUT_SRC_TRACE, ''raw'' \<mapsto> INPUT_SRC_RAW]"

record input_source =
  input_format :: u32
  is_stdin :: bool
  ifs_open :: bool
  trace_open :: bool
  packet_open :: bool
  in_bytes :: bytes
  in_lines :: "string list"
  in_packets :: "trace_pkt list"
  in_read_err :: bool

text \<open>
  The constructor.  \<^verbatim>\<open>input_src_map[ft]\<close> yields 0 for an unknown format, which opens nothing.
\<close>

definition InputSource :: "input_env \<Rightarrow> string \<Rightarrow> string \<Rightarrow> input_source result" where
  "InputSource env fn ft =
     (let fmt = (case input_src_map ft of None \<Rightarrow> INPUT_SRC_NONE | Some v \<Rightarrow> v);
          ins = \<lparr>input_format = fmt, is_stdin = (fn = ''-''), ifs_open = False,
                 trace_open = False, packet_open = False, in_bytes = env_bytes env,
                 in_lines = env_lines env, in_packets = env_packets env,
                 in_read_err = env_read_err env\<rparr>
      in if fmt AND INPUT_SRC_TRACE \<noteq> 0 then
           (if \<not> env_packet_ok env then Inl (Exit 1 ''cannot create libtrace packet'')
            else if env_trace_err env then Inl (Exit 1 ''cannot open trace file'')
            else if env_trace_start env = -1 then Inl (Exit 1 ''cannot start trace'')
            else Inr (ins\<lparr>trace_open := True, packet_open := True\<rparr>))
         else if fn \<noteq> ''-'' then
           (let opened = (if fmt AND INPUT_SRC_TEXT \<noteq> 0 \<or> fmt AND INPUT_SRC_RAW \<noteq> 0
                          then env_opens env fn else False)
            in if \<not> opened then Inl (Exit 1 ''cannot open input file'')
               else Inr (ins\<lparr>ifs_open := True\<rparr>))
         else Inr ins)"

definition trace_cleanup :: "input_source \<Rightarrow> input_source" where
  "trace_cleanup ins = ins\<lparr>trace_open := False, packet_open := False\<rparr>"

definition InputSource_destroy :: "input_source \<Rightarrow> input_source" where
  "InputSource_destroy ins =
     (if input_format ins AND INPUT_SRC_TRACE \<noteq> 0 then trace_cleanup ins
      else if \<not> is_stdin ins then ins\<lparr>ifs_open := False\<rparr>
      else ins)"

text \<open>
  \<^verbatim>\<open>read_bytes(buf, n)\<close> on what is left of the stream, for a buffer of \<open>cap\<close> bytes.  It copies
  as many of the \<open>n\<close> bytes as there are and fails when there are fewer; nothing bounds \<open>n\<close> by
  the size of the buffer.
\<close>

definition read_bytes :: "nat \<Rightarrow> bytes \<Rightarrow> nat \<Rightarrow> ((bytes option) \<times> bytes) result" where
  "read_bytes cap s n =
     (if cap < min n (length s) then Inl (Undefined ''read_bytes: write past the buffer'')
      else if length s < n then Inr (None, [])
      else Inr (Some (take n s), drop n s))"

text \<open>\<^verbatim>\<open>get_from_raw\<close>: its \<^verbatim>\<open>while (true)\<close> leaves in the first round on every path.\<close>

definition get_from_raw :: "pb \<Rightarrow> input_source \<Rightarrow> (dnsmsg option \<times> input_source) result" where
  "get_from_raw c ins =
     bindE (read_bytes 4 (in_bytes ins) 4) (\<lambda>(hdr, s1).
       case hdr of
         None \<Rightarrow> Inr (None, ins\<lparr>in_bytes := s1\<rparr>)
       | Some h \<Rightarrow>
           let sz = rd32 (h ! 0) (h ! 1) (h ! 2) (h ! 3)
           in bindE (read_bytes BUF_SIZE s1 (unat sz)) (\<lambda>(payload, s2).
                case payload of
                  None \<Rightarrow> Inr (None, ins\<lparr>in_bytes := s2\<rparr>)
                | Some d \<Rightarrow> Inr (Some (ParseFromArray c d), ins\<lparr>in_bytes := s2\<rparr>)))"

definition skip_line :: "string \<Rightarrow> bool" where
  "skip_line line \<longleftrightarrow> length line = 0 \<or> line = [CHR 0x0A] \<or> hd line = CHR ''#''"

text \<open>The time stamp: no dot is seconds, one dot separates seconds and microseconds.\<close>

definition line_time :: "string \<Rightarrow> (int \<times> int) result" where
  "line_time v0 =
     (let dot_c = length (filter (\<lambda>c. c = CHR ''.'') v0)
      in if 1 < dot_c then Inl (Exit 1 ''wrong timestamp format'')
         else if dot_c = 0 then bindE (uncaught (stoi v0)) (\<lambda>s. Inr (s, 0))
         else bindE (str_split_two v0 CHR ''.'') (\<lambda>(t1, t2).
                bindE (if t1 \<noteq> [] then uncaught (stoi t1) else Inr 0) (\<lambda>s.
                  bindE (if t2 \<noteq> [] then uncaught (stoi t2) else Inr 0) (\<lambda>us. Inr (s, us)))))"

definition process_line :: "'p ldns \<Rightarrow> u16 \<Rightarrow> string \<Rightarrow> dnsmsg result" where
  "process_line L rnd line =
     (if skip_line line then Inr new_DNSMsg
      else let v = str_split line
           in if length v \<noteq> 6 then Inr new_DNSMsg
              else let qraw = (if v ! 2 = ''-'' \<and> v ! 3 = ''-'' \<and> v ! 4 = ''-''
                               then build_dns_pkt L rnd
                               else build_dns_query L rnd (v ! 2) (v ! 3) (v ! 4));
                       msg = new_DNSMsg\<lparr>f_raw := Some (case qraw of None \<Rightarrow> [] | Some q \<Rightarrow> q),
                                        f_src_ip := Some (v ! 1)\<rparr>
                   in bindE (line_time (v ! 0)) (\<lambda>(s, us).
                        Inr (msg\<lparr>f_seconds := Some s, f_microseconds := Some us,
                                 f_tcp := Some (v ! 5 = ''tcp''), f_ipv4 := Some True\<rparr>)))"

fun text_loop :: "string list \<Rightarrow> (string \<times> string list) option" where
  "text_loop [] = None"
| "text_loop (line # ls) = (if skip_line line then text_loop ls else Some (line, ls))"

definition get_from_text ::
    "'p ldns \<Rightarrow> u16 \<Rightarrow> input_source \<Rightarrow> (dnsmsg option \<times> input_source) result" where
  "get_from_text L rnd ins =
     (case text_loop (in_lines ins) of
        None \<Rightarrow> Inr (None, ins\<lparr>in_lines := []\<rparr>)
      | Some (line, ls) \<Rightarrow>
          bindE (process_line L rnd line) (\<lambda>m. Inr (Some m, ins\<lparr>in_lines := ls\<rparr>)))"

definition ETHERTYPE_IP :: u16 where "ETHERTYPE_IP = 0x0800"
definition ETHERTYPE_IPV6 :: u16 where "ETHERTYPE_IPV6 = 0x86DD"
definition IPPROTO_UDP :: byte where "IPPROTO_UDP = 17"
definition IPPROTO_TCP :: byte where "IPPROTO_TCP = 6"

text \<open>
  The transport header of a packet whose network layer had \<open>proto\<close> and \<open>left\<close> bytes: the
  payload behind it and the number of bytes of a TCP length prefix.  \<open>None\<close> where the code
  gives up.
\<close>

definition transport_payload :: "trace_pkt \<Rightarrow> byte \<Rightarrow> nat \<Rightarrow> (bytes option \<times> nat) option" where
  "transport_payload p proto left =
     (if proto = IPPROTO_UDP then (if left < 8 then None else Some (tp_udp_payload p, 0))
      else if proto = IPPROTO_TCP then (if left < 20 then None else Some (tp_tcp_payload p, 2))
      else None)"

text \<open>The message filled in for a packet that passed every test.\<close>

definition fill_msg :: "trace_pkt \<Rightarrow> u16 \<Rightarrow> byte \<Rightarrow> bytes \<Rightarrow> dnsmsg" where
  "fill_msg p ethertype proto payload =
     (let msg = new_DNSMsg\<lparr>f_seconds := Some (fst (tp_timeval p)),
                           f_microseconds := Some (snd (tp_timeval p)),
                           f_tcp := Some (proto = IPPROTO_TCP),
                           f_ipv4 := Some (ethertype = ETHERTYPE_IP)\<rparr>
      in case tp_src_addr p of
           None \<Rightarrow> msg
         | Some sa \<Rightarrow>
             let msg = msg\<lparr>f_src_ip := Some sa\<rparr>
             in case tp_dst_addr p of
                  None \<Rightarrow> msg
                | Some da \<Rightarrow> msg\<lparr>f_dst_ip := Some da, f_raw := Some payload\<rparr>)"

text \<open>The last stage of \<^verbatim>\<open>process_packet\<close>, from the transport payload on.\<close>

definition query_of :: "trace_pkt \<Rightarrow> u16 \<Rightarrow> byte \<Rightarrow> (bytes option \<times> nat) option \<Rightarrow> dnsmsg result" where
  "query_of p ethertype proto tr =
     (case tr of
        None \<Rightarrow> Inr new_DNSMsg
      | Some (None, left_limit) \<Rightarrow> Inr new_DNSMsg
      | Some (Some cp, left_limit) \<Rightarrow>
          if length cp \<le> left_limit + 12 then Inr new_DNSMsg
          else bindE (is_query (drop left_limit cp) False) (\<lambda>q.
                 if \<not> q then Inr new_DNSMsg
                 else Inr (fill_msg p ethertype proto (drop left_limit cp))))"

definition process_packet :: "trace_pkt \<Rightarrow> dnsmsg result" where
  "process_packet p =
     (case tp_layer3 p of
        None \<Rightarrow> Inr new_DNSMsg
      | Some (ethertype, left) \<Rightarrow>
          if left = 0 then Inr new_DNSMsg
          else if tp_dst_port p \<noteq> 53 \<and> tp_src_port p \<noteq> 53 then Inr new_DNSMsg
          else case (if ethertype = ETHERTYPE_IP then tp_ip_payload p
                     else if ethertype = ETHERTYPE_IPV6 then tp_ip6_payload p
                     else None) of
                 None \<Rightarrow> Inr new_DNSMsg
               | Some (proto, left) \<Rightarrow>
                   if left = 0 then Inr new_DNSMsg
                   else query_of p ethertype proto (transport_payload p proto left))"

text \<open>\<^verbatim>\<open>trace_read_packet\<close> returns the next packet, or reports the end or an error.\<close>

definition get_from_trace :: "input_source \<Rightarrow> (dnsmsg option \<times> input_source) result" where
  "get_from_trace ins =
     (case in_packets ins of
        p # ps \<Rightarrow> bindE (process_packet p) (\<lambda>m. Inr (Some m, ins\<lparr>in_packets := ps\<rparr>))
      | [] \<Rightarrow> if in_read_err ins then Inl (Exit 1 ''error in reading packets'')
              else Inr (None, ins))"

definition get ::
    "pb \<Rightarrow> 'p ldns \<Rightarrow> u16 \<Rightarrow> input_source \<Rightarrow> (dnsmsg option \<times> input_source) result" where
  "get c L rnd ins =
     (if input_format ins = INPUT_SRC_TRACE then get_from_trace ins
      else if input_format ins = INPUT_SRC_TEXT then get_from_text L rnd ins
      else if input_format ins = INPUT_SRC_RAW then get_from_raw c ins
      else Inr (None, ins))"

text \<open>What is left to read; every message that is delivered makes it smaller.\<close>

definition input_left :: "input_source \<Rightarrow> nat" where
  "input_left ins = length (in_bytes ins) + length (in_lines ins) + length (in_packets ins)"

section \<open>Reading makes progress\<close>

lemma read_bytes_Some:
  assumes "read_bytes cap s n = Inr (Some d, s')"
  shows "d = take n s" "s' = drop n s" "n \<le> length s"
  using assms by (auto simp: read_bytes_def split: if_splits)

lemma text_loop_shrinks: "text_loop ls = Some (line, ls') \<Longrightarrow> length ls' < length ls"
  by (induction ls) (auto split: if_splits)

lemma get_progress:
  assumes "get c L rnd ins = Inr (Some m, ins')"
  shows "input_left ins' < input_left ins"
proof -
  consider "get_from_trace ins = Inr (Some m, ins')" | "get_from_text L rnd ins = Inr (Some m, ins')"
    | "get_from_raw c ins = Inr (Some m, ins')"
    using assms by (auto simp: get_def split: if_splits)
  then show ?thesis
  proof cases
    case 1
    then show ?thesis
      by (auto simp: get_from_trace_def input_left_def fault_simps split: list.splits if_splits)
  next
    case 2
    then show ?thesis
      using text_loop_shrinks [of "in_lines ins"]
      by (auto simp: get_from_text_def input_left_def fault_simps split: option.splits)
  next
    case 3
    then obtain h s1 n d s2 where r1: "read_bytes 4 (in_bytes ins) 4 = Inr (Some h, s1)"
      and r2: "read_bytes BUF_SIZE s1 n = Inr (Some d, s2)" and i: "ins' = ins\<lparr>in_bytes := s2\<rparr>"
      unfolding get_from_raw_def bindE_eq_Inr Let_def by (auto split: option.splits simp: bindE_eq_Inr)
    from read_bytes_Some(2,3) [OF r1] read_bytes_Some(2) [OF r2] i show ?thesis
      by (simp add: input_left_def)
  qed
qed

text \<open>
  The loop \<^verbatim>\<open>while ((msg = ins->get()) != NULL)\<close> of the callers, here only collecting the
  messages; \<open>rnd\<close> gives the random identifiers drawn.
\<close>

function get_all ::
    "pb \<Rightarrow> 'p ldns \<Rightarrow> (nat \<Rightarrow> u16) \<Rightarrow> nat \<Rightarrow> input_source \<Rightarrow> dnsmsg list result" where
  "get_all c L rnd k ins =
     (case get c L (rnd k) ins of
        Inl e \<Rightarrow> Inl e
      | Inr (None, ins') \<Rightarrow> Inr []
      | Inr (Some m, ins') \<Rightarrow> bindE (get_all c L rnd (Suc k) ins') (\<lambda>ms. Inr (m # ms)))"
  by pat_completeness auto
termination
  by (relation "measure (\<lambda>(c, L, rnd, k, ins). input_left ins)") (auto intro: get_progress)

declare get_all.simps [simp del]

section \<open>Raw files\<close>

lemmas format_defs = INPUT_SRC_RAW_def INPUT_SRC_TEXT_def INPUT_SRC_TRACE_def INPUT_SRC_NONE_def

lemma raw_header:
  "rd32 (take 4 (frame32 bs @ rest) ! 0) (take 4 (frame32 bs @ rest) ! 1)
        (take 4 (frame32 bs @ rest) ! 2) (take 4 (frame32 bs @ rest) ! 3) = of_nat (length bs)"
  using rd32_be32 [of "of_nat (length bs)"] by (simp add: frame32_def nth_append)

lemma get_raw_eq: "input_format ins = INPUT_SRC_RAW \<Longrightarrow> get c L rnd ins = get_from_raw c ins"
  by (simp add: get_def format_defs)

lemma get_from_raw_frame:
  assumes "in_bytes ins = frame32 bs @ rest" and "length bs \<le> BUF_SIZE"
  shows "get_from_raw c ins = Inr (Some (ParseFromArray c bs), ins\<lparr>in_bytes := rest\<rparr>)"
proof -
  have "unat (of_nat (length bs) :: u32) = length bs"
    using assms(2) by (simp add: BUF_SIZE_def unat_of_nat)
  with assms show ?thesis
    unfolding get_from_raw_def assms(1) read_bytes_def
    by (simp add: raw_header [simplified])
qed

lemma get_from_raw_short:
  assumes "length (in_bytes ins) < 4"
  shows "get_from_raw c ins = Inr (None, ins\<lparr>in_bytes := []\<rparr>)"
  using assms by (simp add: get_from_raw_def read_bytes_def)

lemma get_from_raw_overflow:
  assumes "in_bytes ins = frame32 bs @ rest" and "BUF_SIZE < length bs" and "length bs < 2 ^ 32"
  shows "get_from_raw c ins = Inl (Undefined ''read_bytes: write past the buffer'')"
proof -
  have "unat (of_nat (length bs) :: u32) = length bs"
    using assms(3) by (simp add: unat_of_nat)
  with assms show ?thesis
    unfolding get_from_raw_def assms(1) read_bytes_def
    by (simp add: raw_header [simplified])
qed

text \<open>
  The contract of a reader of raw files: \<open>get1\<close> takes one frame off the stream, \<open>all\<close> is the loop
  that collects what \<open>get1\<close> delivers.  The client's reader and the mutator's are two instances.
\<close>

locale raw_reader =
  fixes get1 :: "nat \<Rightarrow> 's \<Rightarrow> (dnsmsg option \<times> 's) result"
    and all :: "nat \<Rightarrow> 's \<Rightarrow> dnsmsg list result"
    and is_raw :: "'s \<Rightarrow> bool"
    and left :: "'s \<Rightarrow> bytes"
    and parse :: "bytes \<Rightarrow> dnsmsg"
  assumes all_step: "all k s = (case get1 k s of
        Inl e \<Rightarrow> Inl e
      | Inr (None, s') \<Rightarrow> Inr []
      | Inr (Some m, s') \<Rightarrow> bindE (all (Suc k) s') (\<lambda>ms. Inr (m # ms)))"
    and get1_frame: "is_raw s \<Longrightarrow> left s = frame32 bs @ rest \<Longrightarrow> length bs \<le> BUF_SIZE \<Longrightarrow>
      \<exists>s'. get1 k s = Inr (Some (parse bs), s') \<and> is_raw s' \<and> left s' = rest"
    and get1_end: "is_raw s \<Longrightarrow> length (left s) < 4 \<Longrightarrow> \<exists>s'. get1 k s = Inr (None, s')"
begin

lemma all_frames:
  assumes "is_raw s" and "left s = concat (map frame32 bss) @ tail" and "length tail < 4"
    and "\<forall>bs \<in> set bss. length bs \<le> BUF_SIZE"
  shows "all k s = Inr (map parse bss)"
  using assms
proof (induction bss arbitrary: s k)
  case Nil
  then obtain s' where "get1 k s = Inr (None, s')" using get1_end [of s k] by auto
  then show ?case by (simp add: all_step [of k s])
next
  case (Cons bs bss)
  then obtain s' where s': "get1 k s = Inr (Some (parse bs), s')" "is_raw s'"
    "left s' = concat (map frame32 bss) @ tail"
    using get1_frame [of s bs "concat (map frame32 bss) @ tail" k] by auto
  have "all (Suc k) s' = Inr (map parse bss)" using Cons.prems s' by (intro Cons.IH) auto
  with s'(1) show ?case by (simp add: all_step [of k s])
qed

text \<open>Messages that the codec round-trips are read back as they were.\<close>

lemma all_messages:
  assumes "is_raw s" and "parse = ParseFromArray c" and "length tail < 4"
    and "\<forall>m \<in> set ms. codec_ok c m \<and> length (the (SerializeToString c m)) \<le> BUF_SIZE"
    and "left s = concat (map (\<lambda>m. frame32 (the (SerializeToString c m))) ms) @ tail"
  shows "all k s = Inr ms"
proof -
  let ?ser = "\<lambda>m. the (SerializeToString c m)"
  have "left s = concat (map frame32 (map ?ser ms)) @ tail" using assms(5) by (simp add: comp_def)
  with assms(1-4) have "all k s = Inr (map parse (map ?ser ms))"
    by (intro all_frames) auto
  moreover have "map (ParseFromArray c) (map ?ser ms) = ms"
    using assms(4) by (auto simp: codec_ok_def map_idI split: option.splits)
  ultimately show ?thesis using assms(2) by simp
qed

end

interpretation src_raw: raw_reader "\<lambda>k. get c L (rnd k)" "get_all c L rnd"
    "\<lambda>ins. input_format ins = INPUT_SRC_RAW" in_bytes "ParseFromArray c" for c L rnd
proof unfold_locales
  show "get_all c L rnd k s = (case get c L (rnd k) s of Inl e \<Rightarrow> Inl e
      | Inr (None, s') \<Rightarrow> Inr []
      | Inr (Some m, s') \<Rightarrow> bindE (get_all c L rnd (Suc k) s') (\<lambda>ms. Inr (m # ms)))" for k s
    by (rule get_all.simps)
qed (auto simp: get_raw_eq get_from_raw_frame get_from_raw_short)

section \<open>Trace packets\<close>

lemma process_packet_query_of:
  obtains "process_packet p = Inr new_DNSMsg"
  | ethertype proto left where
      "process_packet p = query_of p ethertype proto (transport_payload p proto left)"
      "tp_dst_port p = 53 \<or> tp_src_port p = 53"
proof (cases "tp_layer3 p")
  case None
  then show thesis using that(1) by (simp add: process_packet_def)
next
  case (Some el)
  obtain ethertype left0 where el: "el = (ethertype, left0)" by fastforce
  let ?ip = "if ethertype = ETHERTYPE_IP then tp_ip_payload p
             else if ethertype = ETHERTYPE_IPV6 then tp_ip6_payload p else None"
  show thesis
  proof (cases "left0 = 0 \<or> tp_dst_port p \<noteq> 53 \<and> tp_src_port p \<noteq> 53 \<or> ?ip = None")
    case True
    with Some el that(1) show thesis by (auto simp: process_packet_def)
  next
    case False
    then obtain proto left where ip: "?ip = Some (proto, left)" by fastforce
    with Some el False have eq: "process_packet p =
        (if left = 0 then Inr new_DNSMsg
         else query_of p ethertype proto (transport_payload p proto left))"
      by (simp only: process_packet_def option.case prod.case ip) auto
    show thesis
    proof (cases "left = 0")
      case True
      with eq that(1) show thesis by simp
    next
      case left: False
      from False have "tp_dst_port p = 53 \<or> tp_src_port p = 53" by auto
      with eq left that(2) show thesis by simp
    qed
  qed
qed

lemma query_of_total: "\<exists>m. query_of p e proto tr = Inr m"
  by (auto simp: query_of_def is_query_def split: option.splits)

lemma raw_new_DNSMsg [simp]: "raw new_DNSMsg = []"
  by (simp add: new_DNSMsg_def raw_def)

lemma query_of_transport:
  assumes "query_of p e proto (transport_payload p proto left) = Inr m" and "raw m \<noteq> []"
  obtains cp ll where "m = fill_msg p e proto (drop ll cp)"
    "ll + 12 < length cp" "is_query (drop ll cp) False = Inr True"
    "proto = IPPROTO_UDP \<and> ll = 0 \<and> tp_udp_payload p = Some cp \<or>
     proto = IPPROTO_TCP \<and> ll = 2 \<and> tp_tcp_payload p = Some cp"
proof -
  obtain cp ll where tr: "transport_payload p proto left = Some (Some cp, ll)"
    using assms by (auto simp: query_of_def split: option.splits)
  from assms tr have "ll + 12 < length cp" "is_query (drop ll cp) False = Inr True"
    "m = fill_msg p e proto (drop ll cp)"
    by (auto simp: query_of_def fault_simps split: if_splits)
  moreover have "proto = IPPROTO_UDP \<and> ll = 0 \<and> tp_udp_payload p = Some cp \<or>
     proto = IPPROTO_TCP \<and> ll = 2 \<and> tp_tcp_payload p = Some cp"
    using tr by (auto simp: transport_payload_def split: if_splits)
  ultimately show thesis by (intro that)
qed

lemma raw_fill_msg:
  "raw (fill_msg p e proto payload) \<noteq> [] \<Longrightarrow>
   tp_src_addr p = Some (src_ip (fill_msg p e proto payload)) \<and>
   raw (fill_msg p e proto payload) = payload"
  by (auto simp: fill_msg_def Let_def new_DNSMsg_def dnsmsg_accessors split: option.splits)

section \<open>Text lines\<close>

definition pad6 :: "nat \<Rightarrow> string" where
  "pad6 us = replicate (6 - length (nat_digits us)) CHR ''0'' @ nat_digits us"

lemma digits_no_dot: "\<forall>c \<in> set ds. isdigit c \<Longrightarrow> CHR ''.'' \<notin> set ds"
  using isdigit_not_sign by blast

lemma filter_dot_digits: "\<forall>c \<in> set ds. isdigit c \<Longrightarrow> filter (\<lambda>c. c = CHR ''.'') ds = []"
  using isdigit_not_sign by (auto simp: filter_empty_conv)

lemma pad6_digits: "\<forall>c \<in> set (pad6 us). isdigit c"
  using nat_digits_isdigit by (auto simp: pad6_def)

lemma str_split_two_dot:
  assumes "\<forall>c \<in> set ds. isdigit c"
  shows "str_split_two (ds @ CHR ''.'' # es) CHR ''.'' = Inr (ds, es)"
  by (rule str_split_two_sep [OF digits_no_dot [OF assms]])

lemma line_time_written:
  assumes "0 \<le> sec" "sec \<le> int_max" "us < 1000000"
  shows "line_time (to_string sec @ CHR ''.'' # pad6 us) = Inr (sec, int us)"
proof -
  have d1: "\<forall>c \<in> set (to_string sec). isdigit c"
    using assms(1) nat_digits_isdigit by (auto simp: to_string_def)
  have d2: "\<forall>c \<in> set (pad6 us). isdigit c" by (rule pad6_digits)
  have ne: "to_string sec \<noteq> []" "pad6 us \<noteq> []" by (auto simp: to_string_def pad6_def)
  have v: "digits_val 0 (pad6 us) = us" by (simp add: pad6_def)
  have "stoi (pad6 us) = Inr (int us)"
    using stoi_digits [OF ne(2) d2] assms(3) by (simp add: v int_max_def)
  then show ?thesis
    using assms(1,2) ne
    by (simp add: line_time_def filter_dot_digits [OF d1] filter_dot_digits [OF d2]
        str_split_two_dot [OF d1] stoi_to_string)
qed

text \<open>The first field of a written line: digits, a dot, digits.\<close>

lemma written_time:
  assumes "0 \<le> sec"
  shows "is_word (to_string sec @ CHR ''.'' # pad6 us)"
    and "isdigit (hd (to_string sec @ CHR ''.'' # pad6 us))"
proof -
  have d: "\<forall>c \<in> set (to_string sec). isdigit c" and ne: "to_string sec \<noteq> []"
    using assms nat_digits_isdigit by (auto simp: to_string_def)
  then show "isdigit (hd (to_string sec @ CHR ''.'' # pad6 us))" by simp
  show "is_word (to_string sec @ CHR ''.'' # pad6 us)"
    using d pad6_digits [of us] isdigit_nonspace by (auto simp: is_word_def)
qed

lemma digit_line_not_skipped:
  assumes "isdigit (hd line)" and "line \<noteq> []"
  shows "\<not> skip_line line"
  using assms isdigit_not_hash [OF assms(1)] isdigit_nonspace [OF assms(1)]
  by (auto simp: skip_line_def)

lemma hd_join: "w \<noteq> [] \<Longrightarrow> hd (join c (w # ws)) = hd w \<and> join c (w # ws) \<noteq> []"
  by (cases "ws = []") (simp_all add: join_Cons)

section \<open>Properties\<close>

text \<open>
  C25.  Reading a raw file gives back, in order, the messages that were written to it, each as
  a four byte length and its serialisation, when none is larger than the reader's buffer; an
  incomplete header at the end of the file is ignored.
\<close>

theorem raw_file_read_back:
  assumes "input_format ins = INPUT_SRC_RAW"
    and "\<forall>m \<in> set ms. codec_ok c m \<and> length (the (SerializeToString c m)) \<le> BUF_SIZE"
    and "in_bytes ins = concat (map (\<lambda>m. frame32 (the (SerializeToString c m))) ms) @ tail"
    and "length tail < 4"
  shows "get_all c L rnd k ins = Inr ms"
  by (rule src_raw.all_messages [OF assms(1) refl assms(4,2,3)])

definition raw_source :: "bytes \<Rightarrow> input_source" where
  "raw_source bs =
     \<lparr>input_format = INPUT_SRC_RAW, is_stdin = True, ifs_open = False, trace_open = False,
      packet_open = False, in_bytes = bs, in_lines = [], in_packets = [], in_read_err = False\<rparr>"

theorem raw_file_read_back_witness:
  "get_all (table_pb [new_DNSMsg, new_DNSMsg\<lparr>f_tcp := Some True\<rparr>]) header_ldns (\<lambda>_. 0) 0
     (raw_source (frame32 [1] @ frame32 [0] @ [7, 7])) =
   Inr [new_DNSMsg\<lparr>f_tcp := Some True\<rparr>, new_DNSMsg]"
proof (rule raw_file_read_back [where tail = "[7, 7]"])
  let ?ms = "[new_DNSMsg, new_DNSMsg\<lparr>f_tcp := Some True\<rparr>]"
  show "\<forall>m \<in> set [new_DNSMsg\<lparr>f_tcp := Some True\<rparr>, new_DNSMsg].
      codec_ok (table_pb ?ms) m \<and> length (the (SerializeToString (table_pb ?ms) m)) \<le> BUF_SIZE"
    by (simp add: table_pb_ok) (simp add: table_pb_def new_DNSMsg_def BUF_SIZE_def)
qed (simp_all add: raw_source_def table_pb_def new_DNSMsg_def)

text \<open>
  A raw file that holds a message larger than the 4096 byte buffer makes the reader write
  past the buffer, because the length read from the file is never compared with its size.
\<close>

lemma raw_file_oversized_message:
  assumes "input_format ins = INPUT_SRC_RAW"
    and "in_bytes ins = frame32 bs @ rest" and "BUF_SIZE < length bs" and "length bs < 2 ^ 32"
  shows "get c L rnd ins = Inl (Undefined ''read_bytes: write past the buffer'')"
  using assms by (simp add: get_raw_eq get_from_raw_overflow)

lemma raw_file_oversized_message_instance:
  "get (table_pb []) header_ldns 0 (raw_source (frame32 (replicate 5000 0))) =
   Inl (Undefined ''read_bytes: write past the buffer'')"
  by (rule raw_file_oversized_message [where rest = "[]" and bs = "replicate 5000 0"])
     (simp_all add: raw_source_def BUF_SIZE_def)

text \<open>
  C26.  A packet of a trace never stops the reader, and the message it becomes carries DNS data
  only if the packet used port 53, the data is what follows the UDP header or the two byte
  length behind the TCP header, is longer than a DNS header, has the QR bit clear, and the
  source address is the one of the packet.
\<close>

theorem process_packet_queries_only:
  "\<exists>m. process_packet p = Inr m \<and>
     (raw m = [] \<or>
      (tp_dst_port p = 53 \<or> tp_src_port p = 53) \<and> 12 < length (raw m) \<and>
      \<not> bit (raw m ! 2) 7 \<and> tp_src_addr p = Some (src_ip m) \<and>
      (tp_udp_payload p = Some (raw m) \<or> (\<exists>l. tp_tcp_payload p = Some (l @ raw m) \<and> length l = 2)))"
proof (rule process_packet_query_of [of p])
  assume "process_packet p = Inr new_DNSMsg"
  then show ?thesis by simp
next
  fix e proto left
  assume pq: "process_packet p = query_of p e proto (transport_payload p proto left)"
    and port: "tp_dst_port p = 53 \<or> tp_src_port p = 53"
  obtain m where m: "query_of p e proto (transport_payload p proto left) = Inr m"
    using query_of_total by blast
  show ?thesis
  proof (cases "raw m = []")
    case True
    with pq m show ?thesis by auto
  next
    case False
    from m False obtain cp ll where f: "m = fill_msg p e proto (drop ll cp)"
      "ll + 12 < length cp" "is_query (drop ll cp) False = Inr True"
      and tr: "proto = IPPROTO_UDP \<and> ll = 0 \<and> tp_udp_payload p = Some cp \<or>
       proto = IPPROTO_TCP \<and> ll = 2 \<and> tp_tcp_payload p = Some cp"
      by (rule query_of_transport)
    have src: "tp_src_addr p = Some (src_ip m)" and r: "raw m = drop ll cp"
      using raw_fill_msg False f(1) by blast+
    have "\<not> bit (raw m ! 2) 7" using is_query_top_bit [of "drop ll cp"] f(2,3) r by simp
    moreover have "tp_udp_payload p = Some (raw m) \<or>
        (\<exists>l. tp_tcp_payload p = Some (l @ raw m) \<and> length l = 2)"
      using tr f(2) r by (auto intro: exI [of _ "take 2 cp"])
    moreover have "12 < length (raw m)" using r f(2) by simp
    ultimately show ?thesis using pq m port src by auto
  qed
qed

text \<open>
  C27.  A text line with the six fields time, source, name, class, type and protocol becomes a
  message with that source, that time (seconds, a dot, six digits of microseconds, as the tools
  print it) and that protocol, and the packet built for the question.
\<close>

theorem process_line_fields:
  assumes "\<forall>w \<in> set [ip, qname, qclass, qtype, proto]. is_word w"
    and "0 \<le> sec" and "sec \<le> int_max" and "us < 1000000" and "qname \<noteq> ''-''"
  shows "process_line L rnd
           (join '' '' [to_string sec @ CHR ''.'' # pad6 us, ip, qname, qclass, qtype, proto]) =
         Inr (new_DNSMsg\<lparr>
           f_raw := Some (case build_dns_query L rnd qname qclass qtype of None \<Rightarrow> [] | Some q \<Rightarrow> q),
           f_src_ip := Some ip, f_seconds := Some sec, f_microseconds := Some (int us),
           f_tcp := Some (proto = ''tcp''), f_ipv4 := Some True\<rparr>)"
proof -
  let ?t = "to_string sec @ CHR ''.'' # pad6 us"
  let ?line = "join '' '' [?t, ip, qname, qclass, qtype, proto]"
  have line: "hd ?line = hd ?t \<and> ?line \<noteq> []" by (rule hd_join) simp
  then have "\<not> skip_line ?line"
    using written_time(2) [OF assms(2)] by (intro digit_line_not_skipped) auto
  moreover have "str_split ?line = [?t, ip, qname, qclass, qtype, proto]"
    using assms(1) written_time(1) [OF assms(2)] line
    by (simp add: str_split_def stream_tokens_join)
  ultimately show ?thesis
    using assms(5) line_time_written [OF assms(2-4)]
    by (simp add: process_line_def)
qed

theorem process_line_fields_witness:
  "process_line header_ldns 7 ''12.000034 10.0.0.1 a. IN A tcp'' =
   Inr (new_DNSMsg\<lparr>
     f_raw := Some (case build_dns_query header_ldns 7 ''a.'' ''IN'' ''A'' of None \<Rightarrow> [] | Some q \<Rightarrow> q),
     f_src_ip := Some ''10.0.0.1'', f_seconds := Some 12, f_microseconds := Some (int 34),
     f_tcp := Some (''tcp'' = ''tcp''), f_ipv4 := Some True\<rparr>)"
proof -
  have w: "\<forall>w \<in> set [''10.0.0.1'', ''a.'', ''IN'', ''A'', ''tcp'']. is_word w" by code_simp
  have t: "''12.000034 10.0.0.1 a. IN A tcp'' =
      join '' '' [to_string 12 @ CHR ''.'' # pad6 34, ''10.0.0.1'', ''a.'', ''IN'', ''A'', ''tcp'']"
    by code_simp
  show ?thesis
    unfolding t by (rule process_line_fields [OF w]) (simp_all add: int_max_def)
qed

text \<open>
  A shorter fraction is read as a number of microseconds, not as a decimal fraction of a second.
\<close>

lemma line_time_short_fraction: "line_time ''1.5'' = Inr (1, 5)"
  by code_simp

text \<open>A line with a blank at its end has a seventh, empty field and is dropped.\<close>

lemma process_line_trailing_blank:
  "process_line header_ldns 7 ''12.000034 10.0.0.1 a. IN A tcp '' = Inr new_DNSMsg"
  by code_simp

end
