(* ===== verification/Manager.thy ===== *)
theory Manager
  imports Pacing Routing Input_Source
begin

text \<open>
  The manager process of the replay client (\<^verbatim>\<open>manager.cc\<close>).  It takes the queries from a local
  file or from the controller's connection, assigns every source address to one of its worker
  processes and forwards the queries over socket pairs; the first query is sent to all workers
  to synchronise their clocks.  Workers report latencies, which the manager appends to the
  output.  Floating point arithmetic, the clock, \<^verbatim>\<open>rand\<close>, the results of \<^verbatim>\<open>write\<close> and the codec
  are parameters; file descriptors are integers and bufferevents are numbered handles.  Logging
  is left out.
\<close>

section \<open>State\<close>

definition FAIL_RETRY_LIMIT :: int where "FAIL_RETRY_LIMIT = 5"
definition FAKE_TRACE_START_TIME :: int where "FAKE_TRACE_START_TIME = 1000000000"

record client_t =
  ct_idx :: byte
  ct_fd :: int
  ct_pid :: int
  ct_bev :: "nat option"

text \<open>
  The class.  \<open>mg_out_open\<close> says whether \<^verbatim>\<open>out_fs\<close> is open, \<open>mg_out_text\<close> is what was written
  to it and \<open>mg_stdout\<close> what was written to the standard output.
  \<open>mg_live\<close> are the bufferevents allocated and not freed, \<open>mg_next_bev\<close> the next handle,
  \<open>mg_bev_fd\<close> the descriptor a bufferevent was made for, \<open>mg_closed\<close> the descriptors closed
  (the number of a closed descriptor is not given to another file),
  \<open>mg_writes\<close> the writes to the workers; \<open>mg_rand\<close> and \<open>mg_rand_pos\<close> are the generator behind
  \<^verbatim>\<open>rand\<close>.
\<close>

record 'r manager =
  mg_dist :: bool
  mg_done_sync_time :: bool
  mg_disable_mapping :: bool
  mg_num_clients :: int
  mg_com_fail_retry :: int
  mg_query_pace :: 'r
  mg_query_pace_ts :: 'r
  mg_trace_limit :: 'r
  mg_ins :: "input_source option"
  mg_input_file :: string
  mg_input_format :: string
  mg_output_file :: string
  mg_com_msg_buffer :: bytes
  mg_client_fd :: "int list"
  mg_client_pid :: "int list"
  mg_client_vec :: "client_t list"
  mg_client_idx2fd :: "int \<rightharpoonup> int"
  mg_client_fd2pid :: "int \<rightharpoonup> int"
  mg_client_src2fd :: "string \<rightharpoonup> int"
  mg_out_open :: bool
  mg_out_text :: bytes
  mg_stdout :: bytes
  mg_com_bev :: "nat option"
  mg_live :: "nat list"
  mg_next_bev :: nat
  mg_bev_fd :: "nat \<rightharpoonup> int"
  mg_closed :: "int list"
  mg_writes :: "int writes"
  mg_rand :: "nat \<Rightarrow> nat"
  mg_rand_pos :: nat

section \<open>Operations\<close>

text \<open>The loop of the constructor over the worker sockets.\<close>

definition add_client :: "'r manager \<Rightarrow> nat \<times> int \<times> int \<Rightarrow> 'r manager" where
  "add_client m = (\<lambda>(i, fd, pid).
     m\<lparr>mg_client_fd2pid := map_insert fd pid (mg_client_fd2pid m),
       mg_client_idx2fd := map_insert (int i) fd (mg_client_idx2fd m),
       mg_client_vec := mg_client_vec m @
         [\<lparr>ct_idx = of_nat i, ct_fd = fd, ct_pid = pid, ct_bev = None\<rparr>]\<rparr>)"

definition Manager_fields ::
    "'r dbl \<Rightarrow> input_source option \<Rightarrow> (nat \<Rightarrow> nat) \<Rightarrow> int \<Rightarrow> bool \<Rightarrow> string \<Rightarrow> string \<Rightarrow> string \<Rightarrow>
     int list \<Rightarrow> int list \<Rightarrow> bool \<Rightarrow> int \<Rightarrow> 'r \<Rightarrow> 'r manager" where
  "Manager_fields F src rnd n d in_fn in_ft out_fn clt_fd clt_pid no_map l pace =
     \<lparr>mg_dist = d, mg_done_sync_time = False, mg_disable_mapping = no_map,
      mg_num_clients = n, mg_com_fail_retry = 0, mg_query_pace = pace,
      mg_query_pace_ts = (if dbl_less F (dbl_of_int F 0) pace
        then dbl_of_int F FAKE_TRACE_START_TIME else dbl_of_int F 0),
      mg_trace_limit = dbl_of_int F l, mg_ins = src, mg_input_file = in_fn,
      mg_input_format = in_ft, mg_output_file = out_fn, mg_com_msg_buffer = [],
      mg_client_fd = clt_fd, mg_client_pid = clt_pid, mg_client_vec = [],
      mg_client_idx2fd = Map.empty, mg_client_fd2pid = Map.empty,
      mg_client_src2fd = Map.empty, mg_out_open = False, mg_out_text = [], mg_stdout = [],
      mg_com_bev = None, mg_live = [], mg_next_bev = 0, mg_bev_fd = Map.empty, mg_closed = [],
      mg_writes = [], mg_rand = rnd, mg_rand_pos = 0\<rparr>"

definition Manager_new ::
    "'r dbl \<Rightarrow> input_env \<Rightarrow> (string \<Rightarrow> bool) \<Rightarrow> (nat \<Rightarrow> nat) \<Rightarrow> int \<Rightarrow> bool \<Rightarrow> string \<Rightarrow> string \<Rightarrow>
     string \<Rightarrow> string \<Rightarrow> int list \<Rightarrow> int list \<Rightarrow> bool \<Rightarrow> int \<Rightarrow> 'r \<Rightarrow> 'r manager result" where
  "Manager_new F env inet_aton rnd n d in_fn in_ft out_fn c_ip clt_fd clt_pid no_map l pace =
     bindE (if d then Inr None else bindE (InputSource env in_fn in_ft) (\<lambda>i. Inr (Some i))) (\<lambda>src.
     bindE (require (length clt_fd = length clt_pid) (Assertion ''clt_fd.size() == clt_pid.size()'')) (\<lambda>_.
     let m1 = foldl add_client
                (Manager_fields F src rnd n d in_fn in_ft out_fn clt_fd clt_pid no_map l pace)
                (zip [0..<length clt_fd] (zip clt_fd clt_pid))
     in bindE (if out_fn \<noteq> [] \<and> out_fn \<noteq> ''-''
               then bindE (require (env_opens env out_fn) (Assertion ''out_fs.is_open()''))
                      (\<lambda>_. Inr (m1\<lparr>mg_out_open := True\<rparr>))
               else Inr m1) (\<lambda>m2.
        if d \<and> \<not> inet_aton c_ip then Inl (Exit 1 ''commander ip is invalid'') else Inr m2)))"

text \<open>
  \<^verbatim>\<open>rand() % num_clients\<close>; the divisor zero has no meaning.  \<^verbatim>\<open>client_idx2fd[idx]\<close> inserts 0 for
  an index that is not there.
\<close>

definition draw_fd :: "'r manager \<Rightarrow> (int \<times> 'r manager) result" where
  "draw_fd m =
     (if mg_num_clients m = 0 then Inl (Undefined ''rand() % 0'')
      else let idx = int (mg_rand m (mg_rand_pos m)) mod \<bar>mg_num_clients m\<bar>;
               (fd, tab) = map_index (mg_client_idx2fd m) idx 0
           in Inr (fd, m\<lparr>mg_rand_pos := Suc (mg_rand_pos m), mg_client_idx2fd := tab\<rparr>))"

definition rand_client_fd :: "'r manager \<Rightarrow> string \<Rightarrow> (int \<times> 'r manager) result" where
  "rand_client_fd m ip =
     (if mg_disable_mapping m then draw_fd m
      else case mg_client_src2fd m ip of
             None \<Rightarrow> bindE (draw_fd m) (\<lambda>(fd, m').
               Inr (fd, m'\<lparr>mg_client_src2fd := (mg_client_src2fd m')(ip \<mapsto> fd)\<rparr>))
           | Some fd \<Rightarrow> Inr (fd, m))"

text \<open>
  The two writes of a message, each followed by \<^verbatim>\<open>log_err\<close> on -1; a write to a closed
  descriptor gives -1.
\<close>

definition write_client :: "write_ret \<Rightarrow> bytes \<Rightarrow> 'r manager \<Rightarrow> int \<Rightarrow> 'r manager result" where
  "write_client wr d m fd =
     (if fd \<in> set (mg_closed m) then Inl (Exit 1 ''fail to write socket'')
      else bindE (write_frame wr fd d (mg_writes m)) (\<lambda>w. Inr (m\<lparr>mg_writes := w\<rparr>)))"

text \<open>Choosing the worker for a message and writing it: the tail of both input paths.\<close>

definition forward :: "write_ret \<Rightarrow> 'r manager \<Rightarrow> string \<Rightarrow> bytes \<Rightarrow> 'r manager result" where
  "forward wr m ip d =
     bindE (rand_client_fd m (c_str ip)) (\<lambda>(fd, m').
       bindE (require (fd \<noteq> -1) (Assertion ''fd != -1'')) (\<lambda>_. write_client wr d m' fd))"

definition broadcast :: "write_ret \<Rightarrow> 'r manager \<Rightarrow> bytes \<Rightarrow> 'r manager result" where
  "broadcast wr m d = foldE (write_client wr d) m (mg_client_fd m)"

text \<open>One message from the controller.\<close>

definition com_msg :: "pb \<Rightarrow> write_ret \<Rightarrow> 'r manager \<Rightarrow> bytes \<Rightarrow> 'r manager result" where
  "com_msg c wr m d =
     (let msg = ParseFromArray c d
      in if \<not> mg_done_sync_time m \<and> sync_time msg
         then broadcast wr (m\<lparr>mg_done_sync_time := True\<rparr>) d
         else forward wr m (src_ip msg) d)"

function com_loop :: "pb \<Rightarrow> write_ret \<Rightarrow> bytes \<Rightarrow> 'r manager \<Rightarrow> ('r manager \<times> bytes) result" where
  "com_loop c wr b m =
     (case step32 b of
        None \<Rightarrow> Inr (m, b)
      | Some (p, r) \<Rightarrow> bindE (com_msg c wr m p) (\<lambda>m'. com_loop c wr r m'))"
  by pat_completeness auto
termination
  by (relation "measure (\<lambda>(c, wr, b, m). length b)") (auto dest: step32_shrink)

declare com_loop.simps [simp del]

definition com_read_cb :: "pb \<Rightarrow> write_ret \<Rightarrow> 'r manager \<Rightarrow> nat \<Rightarrow> bytes \<Rightarrow> 'r manager result" where
  "com_read_cb c wr m bev data =
     bindE (require (mg_com_bev m = Some bev) (Assertion ''com_bev == bev'')) (\<lambda>_.
       bindE (com_loop c wr (mg_com_msg_buffer m @ data) m) (\<lambda>(m', b).
         Inr (m'\<lparr>mg_com_msg_buffer := b\<rparr>)))"

text \<open>
  Allocation and release of bufferevents, all of them with \<^verbatim>\<open>BEV_OPT_CLOSE_ON_FREE\<close>: releasing
  one closes its descriptor.  \<open>None\<close> is the descriptor -1, for which \<^verbatim>\<open>connect\<close> makes a socket
  that only the bufferevent uses.  Releasing a handle twice has no meaning.
\<close>

definition bev_new :: "int option \<Rightarrow> 'r manager \<Rightarrow> nat \<times> 'r manager" where
  "bev_new fd m = (mg_next_bev m,
     m\<lparr>mg_next_bev := Suc (mg_next_bev m), mg_live := mg_next_bev m # mg_live m,
       mg_bev_fd := (mg_bev_fd m)(mg_next_bev m := fd)\<rparr>)"

definition bev_free :: "nat \<Rightarrow> 'r manager \<Rightarrow> 'r manager result" where
  "bev_free b m =
     (if b \<in> set (mg_live m) then Inr (m\<lparr>mg_live := removeAll b (mg_live m),
          mg_closed := (case mg_bev_fd m b of None \<Rightarrow> mg_closed m | Some fd \<Rightarrow> fd # mg_closed m)\<rparr>)
      else Inl (Undefined ''bufferevent freed twice''))"

definition com_connect :: "bool \<Rightarrow> 'r manager \<Rightarrow> 'r manager result" where
  "com_connect ok m =
     (let (b, m') = bev_new None m
      in if ok then Inr (m'\<lparr>mg_com_bev := Some b\<rparr>)
         else Inl (Exit 1 ''bufferevent_socket_connect fails''))"

definition com_bevent_cb :: "bool \<Rightarrow> 'r manager \<Rightarrow> 'r manager result" where
  "com_bevent_cb ok m =
     (let m' = m\<lparr>mg_com_fail_retry := mg_com_fail_retry m + 1\<rparr>
      in if FAIL_RETRY_LIMIT \<le> mg_com_fail_retry m'
         then Inl (Exit 1 ''connection to commander fails too many times'')
         else com_connect ok m')"

text \<open>\<open>sock_err\<close> is the text of the socket error.\<close>

definition com_bevent_cb_helper ::
    "bool \<Rightarrow> string \<Rightarrow> nat \<Rightarrow> u16 \<Rightarrow> 'r manager \<Rightarrow> 'r manager result" where
  "com_bevent_cb_helper ok sock_err bev which m =
     (let err_msg =
        (if which AND BEV_EVENT_CONNECTED \<noteq> 0 then []
         else if which AND BEV_EVENT_ERROR \<noteq> 0 then sock_err
         else if which AND (BEV_EVENT_EOF OR BEV_EVENT_TIMEOUT) \<noteq> 0
         then (if which AND BEV_EVENT_TIMEOUT \<noteq> 0 then ''timeout'' else ''got a close'')
         else [])
      in if err_msg \<noteq> [] then bindE (bev_free bev m) (com_bevent_cb ok) else Inr m)"

text \<open>Data from a worker: printed as a C string.\<close>

definition read_client_cb :: "'r manager \<Rightarrow> bytes \<Rightarrow> 'r manager" where
  "read_client_cb m data =
     (if 0 < length data \<and> mg_output_file m \<noteq> []
      then (if mg_out_open m then m\<lparr>mg_out_text := mg_out_text m @ c_data data\<rparr>
            else m\<lparr>mg_stdout := mg_stdout m @ c_data data\<rparr>)
      else m)"

definition buf_ev_cb :: "nat \<Rightarrow> u16 \<Rightarrow> 'r manager \<Rightarrow> 'r manager result" where
  "buf_ev_cb bev events m =
     (if events AND BEV_EVENT_CONNECTED \<noteq> 0 then Inr m
      else if events AND (BEV_EVENT_EOF OR BEV_EVENT_ERROR OR BEV_EVENT_TIMEOUT) \<noteq> 0
      then bev_free bev m else Inr m)"


section \<open>The local input path\<close>

text \<open>
  \<^verbatim>\<open>read_input_file\<close> runs in its own thread.  The object and the local variables that pace it:
\<close>

record 'r reader_state =
  rs_mgr :: "'r manager"
  rs_pace :: "'r pace_state"

definition pace_msg :: "'r dbl \<Rightarrow> 'r manager \<Rightarrow> dnsmsg \<Rightarrow> dnsmsg \<times> 'r manager" where
  "pace_msg F m msg =
     (let zero = dbl_of_int F 0; ts = mg_query_pace_ts m; s = dbl_to_int F ts
      in if dbl_less F zero (mg_query_pace m) \<and> dbl_less F zero ts
         then (msg\<lparr>f_seconds := Some s,
                   f_microseconds := Some (dbl_to_int F (dbl_mul F
                      (dbl_sub F ts (dbl_of_int F s)) (dbl_of_int F 1000000)))\<rparr>,
               m\<lparr>mg_query_pace_ts := dbl_add F ts (mg_query_pace m)\<rparr>)
         else (msg, m))"

text \<open>The first message is sent to all workers with \<^verbatim>\<open>sync_time\<close> set.\<close>

definition sync_clients :: "pb \<Rightarrow> write_ret \<Rightarrow> 'r manager \<Rightarrow> dnsmsg \<Rightarrow> 'r manager result" where
  "sync_clients c wr m msg =
     (if mg_done_sync_time m then Inr m
      else bindE (serialize c (set_sync_time True msg)) (\<lambda>s.
             broadcast wr (m\<lparr>mg_done_sync_time := True\<rparr>) s))"

text \<open>The body of the outer loop.  \<open>None\<close>: the wait does not end.\<close>

definition input_msg ::
    "'r dbl \<Rightarrow> pb \<Rightarrow> write_ret \<Rightarrow> (nat \<Rightarrow> 'r) \<Rightarrow> 'r reader_state \<Rightarrow> dnsmsg \<Rightarrow>
     ('r reader_state result) option" where
  "input_msg F c wr now st msg0 =
     (if raw msg0 = [] then Some (Inr st)
      else let (msg, m1) = pace_msg F (rs_mgr st) msg0
           in case sync_clients c wr m1 msg of
                Inl e \<Rightarrow> Some (Inl e)
              | Inr m2 \<Rightarrow>
                  (case limit_wait F now (dbl_less F (dbl_of_int F 0) (mg_trace_limit m2))
                          (mg_trace_limit m2) (trace_ts F (seconds msg) (microseconds msg))
                          (rs_pace st) of
                     None \<Rightarrow> None
                   | Some ps \<Rightarrow>
                       Some (bindE (serialize c (set_sync_time False msg)) (\<lambda>s.
                         bindE (forward wr m2 (src_ip msg) s) (\<lambda>m3.
                           Inr \<lparr>rs_mgr = m3, rs_pace = ps\<rparr>)))))"

function input_loop ::
    "'r dbl \<Rightarrow> pb \<Rightarrow> 'p ldns \<Rightarrow> (nat \<Rightarrow> u16) \<Rightarrow> write_ret \<Rightarrow> (nat \<Rightarrow> 'r) \<Rightarrow> nat \<Rightarrow> input_source \<Rightarrow>
     'r reader_state \<Rightarrow> ('r reader_state result) option" where
  "input_loop F c L rnd wr now k ins st =
     (case get c L (rnd k) ins of
        Inl e \<Rightarrow> Some (Inl e)
      | Inr (None, ins') \<Rightarrow> Some (Inr (st\<lparr>rs_mgr := (rs_mgr st)\<lparr>mg_ins := Some ins'\<rparr>\<rparr>))
      | Inr (Some msg, ins') \<Rightarrow>
          (case input_msg F c wr now st msg of
             None \<Rightarrow> None
           | Some (Inl e) \<Rightarrow> Some (Inl e)
           | Some (Inr st') \<Rightarrow> input_loop F c L rnd wr now (Suc k) ins' st'))"
  by pat_completeness auto
termination
  by (relation "measure (\<lambda>(F, c, L, rnd, wr, now, k, ins, st). input_left ins)")
     (auto intro: get_progress)

declare input_loop.simps [simp del]

definition read_input_file ::
    "'r dbl \<Rightarrow> pb \<Rightarrow> 'p ldns \<Rightarrow> (nat \<Rightarrow> u16) \<Rightarrow> write_ret \<Rightarrow> (nat \<Rightarrow> 'r) \<Rightarrow> 'r manager \<Rightarrow>
     ('r manager result) option" where
  "read_input_file F c L rnd wr now m =
     (if mg_input_file m = [] then Some (Inl (Exit 1 ''input file is invalid''))
      else if input_src_map (mg_input_format m) = None
      then Some (Inl (Exit 1 ''input format is invalid''))
      else case mg_ins m of
             None \<Rightarrow> Some (Inl (Undefined ''ins is NULL''))
           | Some ins \<Rightarrow>
               map_option (\<lambda>r. bindE r (\<lambda>st. Inr (rs_mgr st)))
                 (input_loop F c L rnd wr now 0 ins
                    \<lparr>rs_mgr = m, rs_pace = pace_init F\<rparr>))"

section \<open>The event loop\<close>

text \<open>
  What libevent can report, with the handle concerned: data or an event of a worker's socket,
  data or an event of the controller's connection with the outcome of connecting again.
\<close>

datatype mgr_event =
    Client_read nat bytes
  | Client_event nat u16
  | Com_read nat bytes
  | Com_event nat u16 string bool

text \<open>Callbacks run only for a bufferevent that is allocated.\<close>

fun mgr_handle :: "pb \<Rightarrow> write_ret \<Rightarrow> 'r manager \<Rightarrow> mgr_event \<Rightarrow> 'r manager result" where
  "mgr_handle c wr m (Client_read b d) =
     (if b \<in> set (mg_live m) then Inr (read_client_cb m d) else Inr m)"
| "mgr_handle c wr m (Client_event b w) = (if b \<in> set (mg_live m) then buf_ev_cb b w m else Inr m)"
| "mgr_handle c wr m (Com_read b d) =
     (if b \<in> set (mg_live m) then com_read_cb c wr m b d else Inr m)"
| "mgr_handle c wr m (Com_event b w err ok) =
     (if b \<in> set (mg_live m) then com_bevent_cb_helper ok err b w m else Inr m)"

fun setup_bevs :: "client_t list \<Rightarrow> 'r manager \<Rightarrow> client_t list \<times> 'r manager" where
  "setup_bevs [] m = ([], m)"
| "setup_bevs (clt # cs) m =
     (let (b, m1) = bev_new (Some (ct_fd clt)) m; (cs', m2) = setup_bevs cs m1
      in (clt\<lparr>ct_bev := Some b\<rparr> # cs', m2))"

fun free_opt :: "nat option \<Rightarrow> 'r manager \<Rightarrow> 'r manager result" where
  "free_opt None m = Inl (Undefined ''bufferevent_free of NULL'')"
| "free_opt (Some b) m = bev_free b m"

text \<open>
  \<^verbatim>\<open>main_event_loop\<close>; \<open>evs\<close> are the events up to the end of the dispatch loop, and
  \<open>ok\<close> says whether the first connection attempt could be started.
\<close>

definition main_event_loop ::
    "pb \<Rightarrow> write_ret \<Rightarrow> bool \<Rightarrow> mgr_event list \<Rightarrow> 'r manager \<Rightarrow> 'r manager result" where
  "main_event_loop c wr ok evs m =
     (let (cs, m1) = setup_bevs (mg_client_vec m) m; m2 = m1\<lparr>mg_client_vec := cs\<rparr>
      in bindE (if mg_dist m2 then com_connect ok m2 else Inr m2) (\<lambda>m3.
         bindE (foldE (mgr_handle c wr) m3 evs) (\<lambda>m4.
         bindE (if mg_dist m4 then free_opt (mg_com_bev m4) m4 else Inr m4) (\<lambda>m5.
         bindE (foldE (\<lambda>m clt. free_opt (ct_bev clt) m) m5 (mg_client_vec m5)) (\<lambda>m6.
         Inr (m6\<lparr>mg_client_vec := map (\<lambda>clt. clt\<lparr>ct_bev := None\<rparr>) (mg_client_vec m6),
                 mg_out_open := False\<rparr>))))))"

section \<open>The assignment of sources to workers\<close>

text \<open>
  The manager is set up for sticky assignment: the workers are numbered from 0, their sockets
  are different, open and none is -1, and the table maps into them.
\<close>

definition mgr_ok :: "'r manager \<Rightarrow> bool" where
  "mgr_ok m \<longleftrightarrow>
     \<not> mg_disable_mapping m \<and> mg_num_clients m = int (length (mg_client_fd m)) \<and>
     mg_client_fd m \<noteq> [] \<and> distinct (mg_client_fd m) \<and> -1 \<notin> set (mg_client_fd m) \<and>
     set (mg_client_fd m) \<inter> set (mg_closed m) = {} \<and>
     (\<forall>i < length (mg_client_fd m). mg_client_idx2fd m (int i) = Some (mg_client_fd m ! i)) \<and>
     ran (mg_client_src2fd m) \<subseteq> set (mg_client_fd m)"

lemma draw_fd_ok:
  assumes "mgr_ok m"
  shows "\<exists>fd. draw_fd m = Inr (fd, m\<lparr>mg_rand_pos := Suc (mg_rand_pos m)\<rparr>) \<and> fd \<in> set (mg_client_fd m)"
proof -
  let ?n = "length (mg_client_fd m)"
  let ?i = "mg_rand m (mg_rand_pos m) mod ?n"
  have n: "?n > 0" "mg_num_clients m = int ?n" using assms by (auto simp: mgr_ok_def)
  then have i: "?i < ?n" by simp
  then have "mg_client_idx2fd m (int ?i) = Some (mg_client_fd m ! ?i)"
    using assms by (simp add: mgr_ok_def)
  with n i show ?thesis by (simp add: draw_fd_def zmod_int)
qed

interpretation mgr_router: sticky_router rand_client_fd mg_client_src2fd mgr_ok
  "\<lambda>m. set (mg_client_fd m)"
proof
  fix m :: "'r manager" and ip d
  assume "mgr_ok m" "mg_client_src2fd m ip = Some d"
  then show "rand_client_fd m ip = Inr (d, m)" by (simp add: rand_client_fd_def mgr_ok_def)
next
  fix m :: "'r manager" and ip
  assume ok: "mgr_ok m" and none: "mg_client_src2fd m ip = None"
  obtain fd where fd: "draw_fd m = Inr (fd, m\<lparr>mg_rand_pos := Suc (mg_rand_pos m)\<rparr>)"
    "fd \<in> set (mg_client_fd m)"
    using draw_fd_ok [OF ok] by blast
  let ?m = "m\<lparr>mg_rand_pos := Suc (mg_rand_pos m),
     mg_client_src2fd := (mg_client_src2fd m)(ip \<mapsto> fd)\<rparr>"
  have "mgr_ok ?m" using ok fd(2) none by (auto simp: mgr_ok_def)
  moreover have "rand_client_fd m ip = Inr (fd, ?m)"
    using ok fd none by (simp add: rand_client_fd_def mgr_ok_def)
  ultimately show "\<exists>d s'. rand_client_fd m ip = Inr (d, s') \<and>
      mg_client_src2fd s' = (mg_client_src2fd m)(ip \<mapsto> d) \<and> d \<in> set (mg_client_fd m) \<and>
      mgr_ok s' \<and> set (mg_client_fd s') = set (mg_client_fd m)"
    using fd(2) by auto
next
  fix m :: "'r manager"
  assume "mgr_ok m"
  then show "ran (mg_client_src2fd m) \<subseteq> set (mg_client_fd m)" by (simp add: mgr_ok_def)
qed

text \<open>What choosing a worker leaves alone.\<close>

lemma rand_client_fd_frame:
  assumes "rand_client_fd m ip = Inr (fd, m')"
  shows "mg_client_fd m' = mg_client_fd m" "mg_writes m' = mg_writes m"
    "mg_done_sync_time m' = mg_done_sync_time m" "mg_com_bev m' = mg_com_bev m"
    "mg_query_pace m' = mg_query_pace m" "mg_query_pace_ts m' = mg_query_pace_ts m"
    "mg_trace_limit m' = mg_trace_limit m" "mg_closed m' = mg_closed m"
  using assms
  by (auto simp: rand_client_fd_def draw_fd_def fault_simps split: if_splits option.splits prod.splits)

lemma forward_ok:
  assumes "mgr_ok m" and "full_writes wr"
  obtains fd m' where "forward wr m ip d = Inr m'" "mg_client_src2fd m' (c_str ip) = Some fd"
    "mg_client_src2fd m \<subseteq>\<^sub>m mg_client_src2fd m'" "fd \<in> set (mg_client_fd m)" "mgr_ok m'"
    "mg_client_fd m' = mg_client_fd m" "mg_writes m' = mg_writes m @ frame_writes fd d"
    "mg_done_sync_time m' = mg_done_sync_time m" "mg_query_pace m' = mg_query_pace m"
    "mg_query_pace_ts m' = mg_query_pace_ts m" "mg_trace_limit m' = mg_trace_limit m"
proof -
  obtain fd m1 where 1: "rand_client_fd m (c_str ip) = Inr (fd, m1)"
    "mg_client_src2fd m1 (c_str ip) = Some fd"
    "mg_client_src2fd m \<subseteq>\<^sub>m mg_client_src2fd m1" "fd \<in> set (mg_client_fd m)" "mgr_ok m1"
    using mgr_router.assign_step [OF assms(1)] by metis
  note fr = rand_client_fd_frame [OF 1(1)]
  have "fd \<noteq> -1" "fd \<notin> set (mg_closed m1)"
    using 1(4) assms(1) fr(8) by (auto simp: mgr_ok_def)
  then have fw: "forward wr m ip d = Inr (m1\<lparr>mg_writes := mg_writes m1 @ frame_writes fd d\<rparr>)"
    using 1(1) assms(2) by (simp add: forward_def write_client_def write_frame_full)
  have "mgr_ok (m1\<lparr>mg_writes := mg_writes m1 @ frame_writes fd d\<rparr>)"
    using 1(5) by (simp add: mgr_ok_def)
  then show thesis using that [OF fw] 1 fr by simp
qed

lemma broadcast_fold:
  assumes "full_writes wr" and "set fds \<inter> set (mg_closed m) = {}"
  shows "foldE (write_client wr d) m fds =
    Inr (m\<lparr>mg_writes := mg_writes m @ concat (map (\<lambda>e. frame_writes e d) fds)\<rparr>)"
  using assms by (induction fds arbitrary: m) (simp_all add: write_client_def write_frame_full)

lemma broadcast_full:
  "full_writes wr \<Longrightarrow> mgr_ok m \<Longrightarrow> broadcast wr m d =
    Inr (m\<lparr>mg_writes := mg_writes m @ concat (map (\<lambda>e. frame_writes e d) (mg_client_fd m))\<rparr>)"
  by (simp add: broadcast_def broadcast_fold mgr_ok_def)

section \<open>Messages from the controller\<close>

interpretation mgr_loop: frame_loop step32 lim32 "com_msg c wr" "com_loop c wr" for c wr
proof
  fix b p r and s :: "'a manager"
  show "step32 b = None \<Longrightarrow> com_loop c wr b s = Inr (s, b)"
    by (subst com_loop.simps) simp
  show "step32 b = Some (p, r) \<Longrightarrow> com_loop c wr b s = bindE (com_msg c wr s p) (com_loop c wr r)"
    by (subst com_loop.simps) simp
qed

text \<open>
  The messages a worker is to receive: the first one with \<^verbatim>\<open>sync_time\<close> set, unless the clocks
  are synchronised already, and the others whose source the table assigns to it.
\<close>

fun delivered :: "pb \<Rightarrow> bool \<Rightarrow> (string \<rightharpoonup> int) \<Rightarrow> int \<Rightarrow> bytes list \<Rightarrow> bytes list" where
  "delivered c sync tbl fd [] = []"
| "delivered c sync tbl fd (p # ps) =
     (if \<not> sync \<and> sync_time (ParseFromArray c p) then p # delivered c True tbl fd ps
      else if tbl (c_str (src_ip (ParseFromArray c p))) = Some fd then p # delivered c sync tbl fd ps
      else delivered c sync tbl fd ps)"

lemma com_msgs_delivered:
  assumes "mgr_ok m" and "full_writes wr"
  shows "\<exists>m'. foldE (com_msg c wr) m ps = Inr m' \<and> mgr_ok m' \<and> mg_client_fd m' = mg_client_fd m \<and>
     mg_client_src2fd m \<subseteq>\<^sub>m mg_client_src2fd m' \<and>
     (\<forall>p \<in> set ps. \<not> sync_time (ParseFromArray c p) \<longrightarrow>
        assigned (mg_client_src2fd m') (set (mg_client_fd m)) (ParseFromArray c p)) \<and>
     (\<forall>fd \<in> set (mg_client_fd m). stream fd (mg_writes m') = stream fd (mg_writes m) @
        concat (map frame32 (delivered c (mg_done_sync_time m) (mg_client_src2fd m') fd ps)))"
  using assms(1)
proof (induction ps arbitrary: m)
  case Nil
  then show ?case by simp
next
  case (Cons p ps)
  let ?msg = "ParseFromArray c p"
  show ?case
  proof (cases "\<not> mg_done_sync_time m \<and> sync_time ?msg")
    case True
    let ?m1 = "m\<lparr>mg_done_sync_time := True,
       mg_writes := mg_writes m @ concat (map (\<lambda>e. frame_writes e p) (mg_client_fd m))\<rparr>"
    have step: "com_msg c wr m p = Inr ?m1"
      using True assms(2) Cons.prems by (simp add: com_msg_def broadcast_full mgr_ok_def)
    have "mgr_ok ?m1" using Cons.prems by (simp add: mgr_ok_def)
    from Cons.IH [OF this] show ?thesis
      using True Cons.prems by (auto simp: step stream_broadcast mgr_ok_def)
  next
    case False
    obtain fd m1 where f: "forward wr m (src_ip ?msg) p = Inr m1"
      "mg_client_src2fd m1 (c_str (src_ip ?msg)) = Some fd"
      "mg_client_src2fd m \<subseteq>\<^sub>m mg_client_src2fd m1" "mgr_ok m1" "mg_client_fd m1 = mg_client_fd m"
      "mg_writes m1 = mg_writes m @ frame_writes fd p"
      "mg_done_sync_time m1 = mg_done_sync_time m" "fd \<in> set (mg_client_fd m)"
      using forward_ok [OF Cons.prems assms(2), of "src_ip ?msg" p] by metis
    have step: "com_msg c wr m p = Inr m1" using False f(1) by (auto simp: com_msg_def Let_def)
    obtain m' where m': "foldE (com_msg c wr) m1 ps = Inr m'" "mgr_ok m'"
      "mg_client_fd m' = mg_client_fd m1" "mg_client_src2fd m1 \<subseteq>\<^sub>m mg_client_src2fd m'"
      "\<forall>p \<in> set ps. \<not> sync_time (ParseFromArray c p) \<longrightarrow>
        assigned (mg_client_src2fd m') (set (mg_client_fd m1)) (ParseFromArray c p)"
      and st: "\<forall>fd \<in> set (mg_client_fd m1). stream fd (mg_writes m') = stream fd (mg_writes m1) @
        concat (map frame32 (delivered c (mg_done_sync_time m1) (mg_client_src2fd m') fd ps))"
      using Cons.IH [OF f(4)] by blast
    have "mg_client_src2fd m' (c_str (src_ip ?msg)) = Some fd"
      using f(2) m'(4) by (metis domI map_le_def)
    then show ?thesis
      using m' st f(3,5-8) False by (auto simp: step intro: map_le_trans assignedI)
  qed
qed

text \<open>
  The handling of messages does not look at the receive buffer, nor at what the manager prints: a
  bystander is an update of the object that leaves the fields alone that the routing of a message
  uses, and such an update can be made before or after a message is handled.
\<close>

locale bystander =
  fixes u :: "'r manager \<Rightarrow> 'r manager"
  assumes reads [simp]:
    "mg_writes (u m) = mg_writes m" "mg_client_fd (u m) = mg_client_fd m"
    "mg_done_sync_time (u m) = mg_done_sync_time m" "mg_disable_mapping (u m) = mg_disable_mapping m"
    "mg_num_clients (u m) = mg_num_clients m" "mg_rand (u m) = mg_rand m" "mg_rand_pos (u m) = mg_rand_pos m"
    "mg_client_idx2fd (u m) = mg_client_idx2fd m" "mg_client_src2fd (u m) = mg_client_src2fd m"
    "mg_closed (u m) = mg_closed m"
    and updates [simp]:
    "(u m)\<lparr>mg_writes := w\<rparr> = u (m\<lparr>mg_writes := w\<rparr>)"
    "(u m)\<lparr>mg_done_sync_time := t\<rparr> = u (m\<lparr>mg_done_sync_time := t\<rparr>)"
    "(u m)\<lparr>mg_rand_pos := k, mg_client_idx2fd := x\<rparr> = u (m\<lparr>mg_rand_pos := k, mg_client_idx2fd := x\<rparr>)"
    "(u m)\<lparr>mg_client_src2fd := y\<rparr> = u (m\<lparr>mg_client_src2fd := y\<rparr>)"
begin

lemma foldE_by:
  assumes "\<And>m x. f (u m) x = bindE (f m x) (\<lambda>m'. Inr (u m'))"
  shows "foldE f (u m) xs = bindE (foldE f m xs) (\<lambda>m'. Inr (u m'))"
  by (induction xs arbitrary: m) (simp_all add: assms bindE_assoc)

lemma write_client_by: "write_client wr d (u m) fd = bindE (write_client wr d m fd) (\<lambda>m'. Inr (u m'))"
  by (simp add: write_client_def bindE_assoc)

lemma rand_client_fd_by:
  "rand_client_fd (u m) ip = bindE (rand_client_fd m ip) (\<lambda>(fd, m'). Inr (fd, u m'))"
  by (simp add: rand_client_fd_def draw_fd_def Let_def split: prod.splits option.splits)

lemma com_msg_by: "com_msg c wr (u m) p = bindE (com_msg c wr m p) (\<lambda>m'. Inr (u m'))"
proof -
  have "broadcast wr (u m) p = bindE (broadcast wr m p) (\<lambda>m'. Inr (u m'))" for m
    unfolding broadcast_def reads by (rule foldE_by) (rule write_client_by)
  moreover have "forward wr (u m) ip p = bindE (forward wr m ip p) (\<lambda>m'. Inr (u m'))" for ip
    by (simp add: forward_def rand_client_fd_by bindE_assoc write_client_by case_prod_beta)
  ultimately show ?thesis by (simp add: com_msg_def Let_def)
qed

lemma com_loop_by: "com_loop c wr x (u m) = bindE (com_loop c wr x m) (\<lambda>(m', y). Inr (u m', y))"
  by (simp add: mgr_loop.loop_foldE foldE_by com_msg_by bindE_assoc)

end

interpretation recv: bystander "\<lambda>m. m\<lparr>mg_com_msg_buffer := b\<rparr>" for b
  by unfold_locales simp_all

lemma com_msg_bev: "com_msg c wr m p = Inr m' \<Longrightarrow> mg_com_bev m' = mg_com_bev m"
proof -
  have w: "write_client wr d s fd = Inr s' \<Longrightarrow> mg_com_bev s' = mg_com_bev s" for d fd
    and s s' :: "'a manager"
    by (auto simp: write_client_def fault_simps split: if_splits)
  have "broadcast wr s d = Inr s' \<Longrightarrow> mg_com_bev s' = mg_com_bev s" for d and s s' :: "'a manager"
    unfolding broadcast_def
    by (rule foldE_invariant [where P = "\<lambda>t. mg_com_bev t = mg_com_bev s"]) (auto dest: w)
  moreover have "forward wr s ip d = Inr s' \<Longrightarrow> mg_com_bev s' = mg_com_bev s" for d ip
    and s s' :: "'a manager"
    by (auto simp: forward_def fault_simps rand_client_fd_frame(4) dest!: w)
  moreover assume "com_msg c wr m p = Inr m'"
  ultimately show ?thesis by (fastforce simp: com_msg_def Let_def split: if_splits)
qed

lemma feed_buffer:
  "feed (com_loop c wr) (m\<lparr>mg_com_msg_buffer := b\<rparr>, x) chunks =
   bindE (feed (com_loop c wr) (m, x) chunks) (\<lambda>(m', y). Inr (m'\<lparr>mg_com_msg_buffer := b\<rparr>, y))"
  by (induction chunks arbitrary: m x)
     (auto simp: feed_def recv.com_loop_by bindE_assoc case_prod_beta intro!: bindE_cong)

lemma com_reads_feed:
  assumes "mg_com_bev m = Some bev"
  shows "foldE (\<lambda>m d. com_read_cb c wr m bev d) m chunks =
    bindE (feed (com_loop c wr) (m, mg_com_msg_buffer m) chunks)
      (\<lambda>(m', b). Inr (m'\<lparr>mg_com_msg_buffer := b\<rparr>))"
  using assms
proof (induction chunks arbitrary: m)
  case Nil
  then show ?case by (simp add: feed_def)
next
  case (Cons d chunks)
  let ?x = "mg_com_msg_buffer m @ d"
  show ?case
  proof (cases "com_loop c wr ?x m")
    case (Inl e)
    then show ?thesis using Cons.prems by (simp add: com_read_cb_def feed_def)
  next
    case (Inr mb)
    obtain m1 b where mb: "mb = (m1, b)" by fastforce
    from Inr mb have "foldE (com_msg c wr) m (fst (deframe step32 ?x)) = Inr m1"
      unfolding mgr_loop.loop_foldE by (auto simp: fault_simps)
    then have "mg_com_bev m1 = mg_com_bev m"
      by (rule foldE_invariant [where P = "\<lambda>t. mg_com_bev t = mg_com_bev m"])
         (auto dest: com_msg_bev)
    with Cons.prems have "mg_com_bev (m1\<lparr>mg_com_msg_buffer := b\<rparr>) = Some bev" by simp
    from Cons.IH [OF this] show ?thesis
      using Cons.prems Inr mb
      by (simp add: com_read_cb_def feed_buffer bindE_assoc case_prod_beta) (simp add: feed_def)
  qed
qed

section \<open>Messages from a local file\<close>

text \<open>The messages as they are sent: those with DNS data, with the time of the pace, if any.\<close>

fun paced :: "'r dbl \<Rightarrow> 'r manager \<Rightarrow> dnsmsg list \<Rightarrow> dnsmsg list" where
  "paced F m [] = []"
| "paced F m (q # qs) =
     (if raw q = [] then paced F m qs
      else fst (pace_msg F m q) # paced F (snd (pace_msg F m q)) qs)"

lemma paced_cong:
  "mg_query_pace m' = mg_query_pace m \<Longrightarrow> mg_query_pace_ts m' = mg_query_pace_ts m \<Longrightarrow>
   paced F m' qs = paced F m qs"
proof (induction qs arbitrary: m m')
  case Nil
  then show ?case by simp
next
  case (Cons q qs)
  have "fst (pace_msg F m' q) = fst (pace_msg F m q)"
    "mg_query_pace (snd (pace_msg F m' q)) = mg_query_pace (snd (pace_msg F m q))"
    "mg_query_pace_ts (snd (pace_msg F m' q)) = mg_query_pace_ts (snd (pace_msg F m q))"
    using Cons.prems by (simp_all add: pace_msg_def Let_def)
  with Cons show ?case by (metis paced.simps(2))
qed

lemma pace_msg_frame:
  "mgr_ok (snd (pace_msg F m q)) = mgr_ok m"
  "mg_writes (snd (pace_msg F m q)) = mg_writes m"
  "mg_done_sync_time (snd (pace_msg F m q)) = mg_done_sync_time m"
  "mg_client_fd (snd (pace_msg F m q)) = mg_client_fd m"
  "mg_client_src2fd (snd (pace_msg F m q)) = mg_client_src2fd m"
  "mg_trace_limit (snd (pace_msg F m q)) = mg_trace_limit m"
  by (simp_all add: pace_msg_def Let_def mgr_ok_def)

lemma sync_clients_ok:
  assumes "mgr_ok m" and "full_writes wr" and "serializable c q"
  obtains m' where "sync_clients c wr m q = Inr m'" "mgr_ok m'" "mg_done_sync_time m'"
    "mg_client_fd m' = mg_client_fd m" "mg_client_src2fd m' = mg_client_src2fd m"
    "mg_query_pace m' = mg_query_pace m" "mg_query_pace_ts m' = mg_query_pace_ts m"
    "mg_trace_limit m' = mg_trace_limit m"
    "\<forall>fd \<in> set (mg_client_fd m). stream fd (mg_writes m') = stream fd (mg_writes m) @
        (if mg_done_sync_time m then [] else frame32 (ser c True q))"
proof (cases "mg_done_sync_time m")
  case True
  then show thesis using assms that [of m] by (simp add: sync_clients_def)
next
  case False
  let ?m = "m\<lparr>mg_done_sync_time := True,
     mg_writes := mg_writes m @ concat (map (\<lambda>e. frame_writes e (ser c True q)) (mg_client_fd m))\<rparr>"
  have "sync_clients c wr m q = Inr ?m"
    using assms False by (simp add: sync_clients_def serialize_ok broadcast_full mgr_ok_def)
  moreover have "mgr_ok ?m" using assms(1) by (simp add: mgr_ok_def)
  ultimately show thesis
    using that [of ?m] assms(1) False by (simp add: stream_broadcast mgr_ok_def)
qed

lemma input_msg_ok:
  assumes ok: "mgr_ok (rs_mgr st)" and wr: "full_writes wr" and cl: "clock_advances F now (mg_trace_limit (rs_mgr st)) T"
    and ps: "pace_ok F now T (rs_pace st)" and ts: "trace_ts F (seconds q) (microseconds q) \<in> T"
    and raw: "raw q0 \<noteq> []" and q: "q = fst (pace_msg F (rs_mgr st) q0)" and s: "serializable c q"
  obtains st' fd where "input_msg F c wr now st q0 = Some (Inr st')" "mgr_ok (rs_mgr st')"
    "pace_ok F now T (rs_pace st')" "mg_trace_limit (rs_mgr st') = mg_trace_limit (rs_mgr st)"
    "mg_done_sync_time (rs_mgr st')" "mg_client_fd (rs_mgr st') = mg_client_fd (rs_mgr st)"
    "mg_client_src2fd (rs_mgr st) \<subseteq>\<^sub>m mg_client_src2fd (rs_mgr st')"
    "mg_client_src2fd (rs_mgr st') (c_str (src_ip q)) = Some fd"
    "mg_query_pace (rs_mgr st') = mg_query_pace (snd (pace_msg F (rs_mgr st) q0))"
    "mg_query_pace_ts (rs_mgr st') = mg_query_pace_ts (snd (pace_msg F (rs_mgr st) q0))"
    "\<forall>d \<in> set (mg_client_fd (rs_mgr st)). stream d (mg_writes (rs_mgr st')) =
       stream d (mg_writes (rs_mgr st)) @
       (if mg_done_sync_time (rs_mgr st) then [] else frame32 (ser c True q)) @
       (if d = fd then frame32 (ser c False q) else [])"
proof -
  obtain m1 where pm: "pace_msg F (rs_mgr st) q0 = (q, m1)"
    using q by (cases "pace_msg F (rs_mgr st) q0") simp
  note fr = pace_msg_frame [of F "rs_mgr st" q0, unfolded pm snd_conv]
  have ok1: "mgr_ok m1" using ok by (simp add: fr)
  obtain m2 where m2: "sync_clients c wr m1 q = Inr m2" "mgr_ok m2" "mg_done_sync_time m2"
    "mg_client_fd m2 = mg_client_fd m1" "mg_client_src2fd m2 = mg_client_src2fd m1"
    "mg_query_pace m2 = mg_query_pace m1" "mg_query_pace_ts m2 = mg_query_pace_ts m1"
    "mg_trace_limit m2 = mg_trace_limit m1"
    "\<forall>fd \<in> set (mg_client_fd m1). stream fd (mg_writes m2) = stream fd (mg_writes m1) @
        (if mg_done_sync_time m1 then [] else frame32 (ser c True q))"
    by (rule sync_clients_ok [OF ok1 wr s])
  have lim: "mg_trace_limit m2 = mg_trace_limit (rs_mgr st)" using m2 fr by simp
  obtain ps' where ps': "limit_wait F now (dbl_less F (dbl_of_int F 0) (mg_trace_limit m2))
      (mg_trace_limit m2) (trace_ts F (seconds q) (microseconds q)) (rs_pace st) = Some ps'"
    "pace_ok F now T ps'"
    using limit_wait_returns [OF cl ps ts] unfolding lim by metis
  obtain fd m3 where m3: "forward wr m2 (src_ip q) (ser c False q) = Inr m3"
    "mg_client_src2fd m3 (c_str (src_ip q)) = Some fd"
    "mg_client_src2fd m2 \<subseteq>\<^sub>m mg_client_src2fd m3" "mgr_ok m3" "mg_client_fd m3 = mg_client_fd m2"
    "mg_writes m3 = mg_writes m2 @ frame_writes fd (ser c False q)"
    "mg_done_sync_time m3 = mg_done_sync_time m2" "mg_query_pace m3 = mg_query_pace m2"
    "mg_query_pace_ts m3 = mg_query_pace_ts m2" "mg_trace_limit m3 = mg_trace_limit m2"
    using forward_ok [OF m2(2) wr, of "src_ip q" "ser c False q"] by metis
  have "input_msg F c wr now st q0 = Some (Inr \<lparr>rs_mgr = m3, rs_pace = ps'\<rparr>)"
    using raw pm m2(1) ps'(1) m3(1) s by (simp add: input_msg_def serialize_ok)
  then show thesis
    by (rule that [where fd = fd]) (use m2 m3 fr pm ps'(2) in auto)
qed

lemma input_loop_ok:
  assumes "get_all c L rnd k ins = Inr ms" and "mgr_ok (rs_mgr st)" and "full_writes wr"
    and "clock_advances F now (mg_trace_limit (rs_mgr st)) T" and "pace_ok F now T (rs_pace st)"
    and "\<forall>q \<in> set (paced F (rs_mgr st) ms).
          serializable c q \<and> trace_ts F (seconds q) (microseconds q) \<in> T"
  shows "\<exists>st'. input_loop F c L rnd wr now k ins st = Some (Inr st') \<and>
     mg_client_src2fd (rs_mgr st) \<subseteq>\<^sub>m mg_client_src2fd (rs_mgr st') \<and>
     (\<forall>q \<in> set (paced F (rs_mgr st) ms).
        assigned (mg_client_src2fd (rs_mgr st')) (set (mg_client_fd (rs_mgr st))) q) \<and>
     (\<forall>fd \<in> set (mg_client_fd (rs_mgr st)). stream fd (mg_writes (rs_mgr st')) =
        stream fd (mg_writes (rs_mgr st)) @
        concat (map frame32 (routed c (mg_done_sync_time (rs_mgr st))
           (mg_client_src2fd (rs_mgr st')) fd (paced F (rs_mgr st) ms))))"
  using assms
proof (induction ms arbitrary: k ins st)
  case Nil
  then obtain ins' where "get c L (rnd k) ins = Inr (None, ins')"
    by (subst (asm) get_all.simps) (auto simp: fault_simps split: sum.splits option.splits)
  then show ?case by (subst input_loop.simps) (simp add: routed_def)
next
  case (Cons q0 ms)
  then obtain ins' where g: "get c L (rnd k) ins = Inr (Some q0, ins')"
    "get_all c L rnd (Suc k) ins' = Inr ms"
    by (subst (asm) get_all.simps) (auto simp: fault_simps split: sum.splits option.splits)
  show ?case
  proof (cases "raw q0 = []")
    case True
    then have "input_msg F c wr now st q0 = Some (Inr st)" by (simp add: input_msg_def)
    with Cons.IH [OF g(2) Cons.prems(2-5)] Cons.prems(6) True g(1) show ?thesis
      by (subst input_loop.simps) simp
  next
    case False
    let ?q = "fst (pace_msg F (rs_mgr st) q0)"
    have s: "serializable c ?q" "trace_ts F (seconds ?q) (microseconds ?q) \<in> T"
      using Cons.prems(6) False by simp_all
    obtain st1 fd where st1: "input_msg F c wr now st q0 = Some (Inr st1)" "mgr_ok (rs_mgr st1)"
      "pace_ok F now T (rs_pace st1)" "mg_trace_limit (rs_mgr st1) = mg_trace_limit (rs_mgr st)"
      "mg_done_sync_time (rs_mgr st1)" "mg_client_fd (rs_mgr st1) = mg_client_fd (rs_mgr st)"
      "mg_client_src2fd (rs_mgr st) \<subseteq>\<^sub>m mg_client_src2fd (rs_mgr st1)"
      "mg_client_src2fd (rs_mgr st1) (c_str (src_ip ?q)) = Some fd"
      "mg_query_pace (rs_mgr st1) = mg_query_pace (snd (pace_msg F (rs_mgr st) q0))"
      "mg_query_pace_ts (rs_mgr st1) = mg_query_pace_ts (snd (pace_msg F (rs_mgr st) q0))"
      and str: "\<forall>d \<in> set (mg_client_fd (rs_mgr st)). stream d (mg_writes (rs_mgr st1)) =
         stream d (mg_writes (rs_mgr st)) @
         (if mg_done_sync_time (rs_mgr st) then [] else frame32 (ser c True ?q)) @
         (if d = fd then frame32 (ser c False ?q) else [])"
      using input_msg_ok [OF Cons.prems(2-5) s(2) False refl s(1)] by metis
    have fd: "fd \<in> set (mg_client_fd (rs_mgr st))" using st1(2,6,8) by (auto simp: mgr_ok_def ran_def)
    have p: "paced F (rs_mgr st) (q0 # ms) = ?q # paced F (rs_mgr st1) ms"
      using False paced_cong [OF st1(9,10)] by simp
    obtain st2 where st2: "input_loop F c L rnd wr now (Suc k) ins' st1 = Some (Inr st2)"
      "mg_client_src2fd (rs_mgr st1) \<subseteq>\<^sub>m mg_client_src2fd (rs_mgr st2)"
      "\<forall>q \<in> set (paced F (rs_mgr st1) ms).
        assigned (mg_client_src2fd (rs_mgr st2)) (set (mg_client_fd (rs_mgr st1))) q"
      "\<forall>fd \<in> set (mg_client_fd (rs_mgr st1)). stream fd (mg_writes (rs_mgr st2)) =
        stream fd (mg_writes (rs_mgr st1)) @
        concat (map frame32 (routed c (mg_done_sync_time (rs_mgr st1))
           (mg_client_src2fd (rs_mgr st2)) fd (paced F (rs_mgr st1) ms)))"
      using Cons.IH [OF g(2) st1(2) Cons.prems(3)] Cons.prems(4,6) st1(3,4) p by auto
    have "mg_client_src2fd (rs_mgr st2) (c_str (src_ip ?q)) = Some fd"
      using st1(8) st2(2) by (metis domI map_le_def)
    moreover have "input_loop F c L rnd wr now k ins st = Some (Inr st2)"
      using g(1) st1(1) st2(1) by (subst input_loop.simps) simp
    moreover have "mg_client_src2fd (rs_mgr st) \<subseteq>\<^sub>m mg_client_src2fd (rs_mgr st2)"
      using st1(7) st2(2) by (rule map_le_trans)
    moreover have "stream d (mg_writes (rs_mgr st2)) = stream d (mg_writes (rs_mgr st)) @
        concat (map frame32 (routed c (mg_done_sync_time (rs_mgr st))
           (mg_client_src2fd (rs_mgr st2)) d (?q # paced F (rs_mgr st1) ms)))"
      if "d \<in> set (mg_client_fd (rs_mgr st))" for d
      using that st1(5,6) st2(4) str calculation(1) by (simp add: routed_def)
    moreover have "assigned (mg_client_src2fd (rs_mgr st2)) (set (mg_client_fd (rs_mgr st))) q"
      if "q \<in> set (?q # paced F (rs_mgr st1) ms)" for q
      using that st2(3) st1(6) calculation(1) fd by (auto intro: assignedI)
    ultimately show ?thesis unfolding p by blast
  qed
qed

section \<open>The constructor\<close>

lemma add_clients:
  assumes "length fds = length pids"
  shows "mg_client_idx2fd (foldl add_client m (zip [k..<k + length fds] (zip fds pids))) (int i) =
     (if k \<le> i \<and> i < k + length fds \<and> mg_client_idx2fd m (int i) = None then Some (fds ! (i - k))
      else mg_client_idx2fd m (int i))"
  using assms
proof (induction fds pids arbitrary: m k rule: list_induct2)
  case Nil
  then show ?case by simp
next
  case (Cons fd fds pid pids)
  have "zip [k..<k + length (fd # fds)] (zip (fd # fds) (pid # pids)) =
      (k, fd, pid) # zip [Suc k..<Suc k + length fds] (zip fds pids)"
    by (simp add: upt_rec)
  then show ?case
    using Cons.IH [of "add_client m (k, fd, pid)" "Suc k"]
    by (auto simp: add_client_def map_insert_def nth_Cons' split: option.splits)
qed

lemma add_client_frame:
  "mg_disable_mapping (foldl add_client m xs) = mg_disable_mapping m"
  "mg_num_clients (foldl add_client m xs) = mg_num_clients m"
  "mg_client_fd (foldl add_client m xs) = mg_client_fd m"
  "mg_client_src2fd (foldl add_client m xs) = mg_client_src2fd m"
  "mg_writes (foldl add_client m xs) = mg_writes m"
  "mg_done_sync_time (foldl add_client m xs) = mg_done_sync_time m"
  "mg_input_file (foldl add_client m xs) = mg_input_file m"
  "mg_input_format (foldl add_client m xs) = mg_input_format m"
  "mg_com_msg_buffer (foldl add_client m xs) = mg_com_msg_buffer m"
  "mg_ins (foldl add_client m xs) = mg_ins m"
  "mg_closed (foldl add_client m xs) = mg_closed m"
  by (induction xs arbitrary: m) (auto simp: add_client_def)

lemma Manager_fields_sel:
  fixes F src rnd n d in_fn in_ft out_fn fds pids nm l pace
  defines "m \<equiv> Manager_fields F src rnd n d in_fn in_ft out_fn fds pids nm l pace"
  shows "mg_client_idx2fd m = Map.empty" "mg_client_src2fd m = Map.empty" "mg_client_fd m = fds"
    "mg_num_clients m = n" "mg_disable_mapping m = nm" "mg_writes m = []"
    "\<not> mg_done_sync_time m" "mg_input_file m = in_fn" "mg_input_format m = in_ft"
    "mg_com_msg_buffer m = []" "mg_ins m = src" "mg_query_pace m = pace" "mg_closed m = []"
  by (simp_all add: m_def Manager_fields_def)

lemma Manager_new_cases:
  assumes "Manager_new F env aton rnd n d in_fn in_ft out_fn c_ip fds pids nm l pace = Inr m"
  obtains src where "length fds = length pids" "(src = None) = d"
    "m = foldl add_client (Manager_fields F src rnd n d in_fn in_ft out_fn fds pids nm l pace)
          (zip [0..<length fds] (zip fds pids)) \<or>
     m = (foldl add_client (Manager_fields F src rnd n d in_fn in_ft out_fn fds pids nm l pace)
          (zip [0..<length fds] (zip fds pids)))\<lparr>mg_out_open := True\<rparr>"
proof -
  let ?m1 = "\<lambda>src. foldl add_client (Manager_fields F src rnd n d in_fn in_ft out_fn fds pids nm l pace)
          (zip [0..<length fds] (zip fds pids))"
  from assms obtain src m2 where
    src: "(if d then Inr None else bindE (InputSource env in_fn in_ft) (\<lambda>i. Inr (Some i))) = Inr src"
    and len: "length fds = length pids"
    and m2: "(if out_fn \<noteq> [] \<and> out_fn \<noteq> ''-''
               then bindE (require (env_opens env out_fn) (Assertion ''out_fs.is_open()''))
                      (\<lambda>_. Inr ((?m1 src)\<lparr>mg_out_open := True\<rparr>))
               else Inr (?m1 src)) = Inr m2"
    and m: "(if d \<and> \<not> aton c_ip then Inl (Exit 1 ''commander ip is invalid'') else Inr m2) = Inr m"
    unfolding Manager_new_def Let_def bindE_eq_Inr require_Inr by blast
  have "m = m2" using m by (simp split: if_split_asm)
  moreover have "(src = None) = d" using src by (cases d) (auto simp: fault_simps)
  moreover have "m2 = ?m1 src \<or> m2 = (?m1 src)\<lparr>mg_out_open := True\<rparr>"
    using m2 by (auto simp only: bindE_eq_Inr sum.inject split: if_split_asm)
  ultimately show thesis using that len by blast
qed

lemma Manager_new_ins:
  assumes "Manager_new F env aton rnd n d in_fn in_ft out_fn c_ip fds pids nm l pace = Inr m"
  shows "(mg_ins m = None) = d"
  by (rule Manager_new_cases [OF assms]) (elim disjE; simp add: add_client_frame Manager_fields_sel)

lemma Manager_new_ok:
  assumes "Manager_new F env aton rnd n d in_fn in_ft out_fn c_ip fds pids False l pace = Inr m"
    and "fds \<noteq> []" and "distinct fds" and "-1 \<notin> set fds" and "n = int (length fds)"
  shows "mgr_ok m \<and> mg_client_fd m = fds \<and> mg_writes m = [] \<and> \<not> mg_done_sync_time m \<and>
    mg_input_file m = in_fn \<and> mg_input_format m = in_ft \<and> mg_com_msg_buffer m = [] \<and> mg_closed m = []"
proof -
  from Manager_new_cases [OF assms(1)] obtain src where len: "length fds = length pids" and
    m: "m = foldl add_client
          (Manager_fields F src rnd n d in_fn in_ft out_fn fds pids False l pace)
          (zip [0..<length fds] (zip fds pids)) \<or>
        m = (foldl add_client
          (Manager_fields F src rnd n d in_fn in_ft out_fn fds pids False l pace)
          (zip [0..<length fds] (zip fds pids)))\<lparr>mg_out_open := True\<rparr>"
    (is "m = ?m1 \<or> _") by blast
  have "i < length fds \<Longrightarrow> mg_client_idx2fd ?m1 (int i) = Some (fds ! i)" for i
    using add_clients [OF len, of "Manager_fields F src rnd n d in_fn in_ft out_fn fds pids False l pace" 0 i]
    by (simp add: Manager_fields_sel)
  then have "mgr_ok ?m1"
    using assms(2-5) by (simp add: mgr_ok_def add_client_frame Manager_fields_sel)
  then have "mgr_ok m" using m by (auto simp: mgr_ok_def)
  with m show ?thesis by (auto simp: add_client_frame Manager_fields_sel)
qed

section \<open>Concrete parameters\<close>

text \<open>A manager with two workers.\<close>

definition empty_env :: input_env where
  "empty_env = \<lparr>env_packet_ok = True, env_trace_err = False, env_trace_start = 0,
     env_opens = (\<lambda>_. True), env_bytes = [], env_lines = [], env_packets = [], env_read_err = False\<rparr>"

definition new_demo :: "bool \<Rightarrow> bytes \<Rightarrow> int manager result" where
  "new_demo d bs = Manager_new int_dbl (empty_env\<lparr>env_bytes := bs\<rparr>) (\<lambda>_. True) (\<lambda>k. k) 2 d ''f''
     ''raw'' ''o'' ''10.0.0.9'' [5, 7] [105, 107] False 0 (-1)"

definition demo :: "bool \<Rightarrow> bytes \<Rightarrow> int manager" where
  "demo d bs = projr (new_demo d bs)"

lemma new_demo: "new_demo d bs = Inr (demo d bs)"
proof -
  have "\<exists>m. new_demo d bs = Inr m"
    by (simp add: new_demo_def Manager_new_def InputSource_def Let_def empty_env_def format_defs
        input_src_map_def)
  then show ?thesis by (auto simp: demo_def)
qed

lemma demo_ok:
  "mgr_ok (demo d bs)" "mg_client_fd (demo d bs) = [5, 7]" "mg_writes (demo d bs) = []"
  "\<not> mg_done_sync_time (demo d bs)" "mg_input_file (demo d bs) = ''f''"
  "mg_input_format (demo d bs) = ''raw''" "mg_com_msg_buffer (demo d bs) = []" "mg_closed (demo d bs) = []"
  using Manager_new_ok [OF new_demo [unfolded new_demo_def]] by auto

lemma full_writes_length: "full_writes (\<lambda>n bs. Some (length bs))"
  by (simp add: full_writes_def)

section \<open>Properties\<close>

text \<open>
  C28.  A manager that was constructed with distinct worker sockets and without
  \<^verbatim>\<open>--disable-mapping\<close> assigns every source address of any sequence of queries to one of its
  workers, and equal addresses to the same worker.
\<close>

theorem manager_assignment_is_sticky:
  assumes "Manager_new F env aton rnd n d in_fn in_ft out_fn c_ip fds pids False l pace = Inr m"
    and "fds \<noteq> []" and "distinct fds" and "-1 \<notin> set fds" and "n = int (length fds)"
  shows "\<exists>ds m'. assign_all rand_client_fd m ips = Inr (ds, m') \<and> set ds \<subseteq> set fds \<and>
     length ds = length ips \<and>
     (\<forall>i < length ips. \<forall>j < length ips. ips ! i = ips ! j \<longrightarrow> ds ! i = ds ! j)"
proof -
  from Manager_new_ok [OF assms] have ok: "mgr_ok m" and fd: "mg_client_fd m = fds" by auto
  obtain ds m' where a: "assign_all rand_client_fd m ips = Inr (ds, m')"
    "map Some ds = map (mg_client_src2fd m') ips" "set ds \<subseteq> set fds"
    using mgr_router.assign_all_table [OF ok, of ips] fd by auto
  then have "length ds = length ips" by (metis length_map)
  with a mgr_router.same_source_same_peer [OF ok a(1)] show ?thesis by blast
qed

theorem manager_assignment_is_sticky_witness:
  "\<exists>ds m'. assign_all rand_client_fd (demo True []) [''a'', ''b'', ''a''] = Inr (ds, m') \<and>
     set ds \<subseteq> set [5, 7] \<and> length ds = length [''a'', ''b'', ''a''] \<and>
     (\<forall>i < length [''a'', ''b'', ''a'']. \<forall>j < length [''a'', ''b'', ''a''].
        [''a'', ''b'', ''a''] ! i = [''a'', ''b'', ''a''] ! j \<longrightarrow> ds ! i = ds ! j)"
  by (rule manager_assignment_is_sticky [OF new_demo [unfolded new_demo_def]]) simp_all

text \<open>Reads of the controller's connection, split anywhere.\<close>

lemma com_reads_ok:
  assumes "mgr_ok m" and "full_writes wr" and "mg_com_bev m = Some bev"
    and "mg_com_msg_buffer m = []" and "length (concat chunks) \<le> lim32"
  shows "\<exists>m'. foldE (\<lambda>m d. com_read_cb c wr m bev d) m chunks = Inr m' \<and>
     mg_com_msg_buffer m' = snd (deframe step32 (concat chunks)) \<and>
     (\<forall>p \<in> set (fst (deframe step32 (concat chunks))). \<not> sync_time (ParseFromArray c p) \<longrightarrow>
        assigned (mg_client_src2fd m') (set (mg_client_fd m)) (ParseFromArray c p)) \<and>
     (\<forall>fd \<in> set (mg_client_fd m). stream fd (mg_writes m') = stream fd (mg_writes m) @
        concat (map frame32 (delivered c (mg_done_sync_time m) (mg_client_src2fd m') fd
          (fst (deframe step32 (concat chunks))))))"
proof -
  have none: "step32 [] = None" by (simp add: step32_def)
  obtain m1 where m1: "foldE (com_msg c wr) m (fst (deframe step32 (concat chunks))) = Inr m1"
    "\<forall>p \<in> set (fst (deframe step32 (concat chunks))). \<not> sync_time (ParseFromArray c p) \<longrightarrow>
        assigned (mg_client_src2fd m1) (set (mg_client_fd m)) (ParseFromArray c p)"
    "\<forall>fd \<in> set (mg_client_fd m). stream fd (mg_writes m1) = stream fd (mg_writes m) @
        concat (map frame32 (delivered c (mg_done_sync_time m) (mg_client_src2fd m1) fd
          (fst (deframe step32 (concat chunks)))))"
    using com_msgs_delivered [OF assms(1,2)] by blast
  have "feed (com_loop c wr) (m, []) chunks = Inr (m1, snd (deframe step32 (concat chunks)))"
    using mgr_loop.feed_foldE [OF none, of chunks c wr m] assms(5) m1(1) by simp
  then show ?thesis
    using com_reads_feed [OF assms(3), of c wr chunks] assms(4) m1(2,3) by simp
qed

text \<open>
  C9.  In distributed mode the bytes from the controller reach the workers as whole messages,
  however the connection splits them: after any sequence of reads every worker was sent exactly
  the first synchronisation message and the messages whose source is assigned to it, in the
  order of arrival; every source of a query is assigned to a worker, and the incomplete rest stays
  in the buffer.
\<close>

theorem controller_messages_delivered:
  assumes "mgr_ok m" and "full_writes wr" and "mg_com_bev m = Some bev"
    and "mg_com_msg_buffer m = []" and "length (concat chunks) \<le> lim32"
  shows "\<exists>m'. foldE (\<lambda>m d. com_read_cb c wr m bev d) m chunks = Inr m' \<and>
     mg_com_msg_buffer m' = snd (deframe step32 (concat chunks)) \<and>
     (\<forall>p \<in> set (fst (deframe step32 (concat chunks))). \<not> sync_time (ParseFromArray c p) \<longrightarrow>
        assigned (mg_client_src2fd m') (set (mg_client_fd m)) (ParseFromArray c p)) \<and>
     (\<forall>fd \<in> set (mg_client_fd m). stream fd (mg_writes m') = stream fd (mg_writes m) @
        concat (map frame32 (delivered c (mg_done_sync_time m) (mg_client_src2fd m') fd
          (fst (deframe step32 (concat chunks))))))"
  using com_reads_ok [OF assms] .

theorem controller_messages_delivered_witness:
  "let m = (demo True [])\<lparr>mg_com_bev := Some 0, mg_com_msg_buffer := []\<rparr>;
       c = table_pb [new_DNSMsg]; wr = (\<lambda>n bs. Some (length bs));
       chunks = [[0, 0], [0, 1, 0, 0, 0], [0, 1, 0, 0]]
   in \<exists>m'. foldE (\<lambda>m d. com_read_cb c wr m 0 d) m chunks = Inr m' \<and>
     mg_com_msg_buffer m' = snd (deframe step32 (concat chunks)) \<and>
     (\<forall>p \<in> set (fst (deframe step32 (concat chunks))). \<not> sync_time (ParseFromArray c p) \<longrightarrow>
        assigned (mg_client_src2fd m') (set (mg_client_fd m)) (ParseFromArray c p)) \<and>
     (\<forall>fd \<in> set (mg_client_fd m). stream fd (mg_writes m') = stream fd (mg_writes m) @
        concat (map frame32 (delivered c (mg_done_sync_time m) (mg_client_src2fd m') fd
          (fst (deframe step32 (concat chunks))))))"
  unfolding Let_def
  by (rule controller_messages_delivered)
     (use demo_ok [of True "[]"] in \<open>simp_all add: mgr_ok_def full_writes_length lim32_def\<close>)

text \<open>The reading thread, from the first to the last message.\<close>

lemma read_input_file_ok:
  assumes "mgr_ok m" and "full_writes wr"
    and "clock_advances F now (mg_trace_limit m)
           ((\<lambda>q. trace_ts F (seconds q) (microseconds q)) ` set (paced F m ms))"
    and "mg_input_file m \<noteq> []" and "input_src_map (mg_input_format m) \<noteq> None"
    and "mg_ins m = Some ins" and "get_all c L rnd 0 ins = Inr ms"
    and "\<forall>q \<in> set (paced F m ms). serializable c q"
  shows "\<exists>m'. read_input_file F c L rnd wr now m = Some (Inr m') \<and>
     (\<forall>q \<in> set (paced F m ms). assigned (mg_client_src2fd m') (set (mg_client_fd m)) q) \<and>
     (\<forall>fd \<in> set (mg_client_fd m). stream fd (mg_writes m') = stream fd (mg_writes m) @
        concat (map frame32 (routed c (mg_done_sync_time m) (mg_client_src2fd m') fd
          (paced F m ms))))"
proof -
  let ?st = "\<lparr>rs_mgr = m, rs_pace = pace_init F\<rparr>"
  let ?T = "(\<lambda>q. trace_ts F (seconds q) (microseconds q)) ` set (paced F m ms)"
  obtain st' where "input_loop F c L rnd wr now 0 ins ?st = Some (Inr st')"
    "\<forall>q \<in> set (paced F m ms). assigned (mg_client_src2fd (rs_mgr st')) (set (mg_client_fd m)) q"
    "\<forall>fd \<in> set (mg_client_fd m). stream fd (mg_writes (rs_mgr st')) = stream fd (mg_writes m) @
        concat (map frame32 (routed c (mg_done_sync_time m)
           (mg_client_src2fd (rs_mgr st')) fd (paced F m ms)))"
    using input_loop_ok [OF assms(7), of ?st wr F now ?T] assms(1-3,8) pace_init_ok [OF assms(3)]
    by auto
  then show ?thesis using assms(4-6) by (auto simp: read_input_file_def)
qed

text \<open>
  A latency report ends in a null byte.  Two reports that arrive in one read lose the
  second: the manager prints the data of a read as a C string.  Arriving in two reads, both are
  printed.
\<close>

lemma coalesced_reports_lost:
  assumes "0 \<notin> set a" and "0 \<notin> set b" and "mg_output_file m \<noteq> []" and "mg_out_open m"
  shows "mg_out_text (read_client_cb m (a @ [0] @ b @ [0])) = mg_out_text m @ a \<and>
         mg_out_text (read_client_cb (read_client_cb m (a @ [0])) (b @ [0])) = mg_out_text m @ a @ b"
proof -
  have "takeWhile (\<lambda>x. x \<noteq> 0) (xs @ 0 # ys) = xs" if "0 \<notin> set xs" for xs ys :: bytes
    using that by (induction xs) auto
  then show ?thesis using assms by (simp add: read_client_cb_def c_data_def)
qed

lemma coalesced_reports_lost_instance:
  "let m = (demo True [])\<lparr>mg_output_file := ''o'', mg_out_open := True\<rparr>
   in mg_out_text (read_client_cb m ([49, 10] @ [0] @ [50, 10] @ [0])) = mg_out_text m @ [49, 10] \<and>
      mg_out_text (read_client_cb (read_client_cb m ([49, 10] @ [0])) ([50, 10] @ [0])) =
      mg_out_text m @ [49, 10] @ [50, 10]"
  unfolding Let_def by (rule coalesced_reports_lost) simp_all

lemma com_msg_retry: "com_msg c wr m p = Inr m' \<Longrightarrow> mg_com_fail_retry m' = mg_com_fail_retry m"
proof -
  have w: "write_client wr d s fd = Inr s' \<Longrightarrow> mg_com_fail_retry s' = mg_com_fail_retry s" for d fd
    and s s' :: "'a manager"
    by (auto simp: write_client_def fault_simps split: if_splits)
  have r: "rand_client_fd s ip = Inr (fd, s') \<Longrightarrow> mg_com_fail_retry s' = mg_com_fail_retry s" for ip fd
    and s s' :: "'a manager"
    by (auto simp: rand_client_fd_def draw_fd_def fault_simps split: if_splits option.splits prod.splits)
  have "broadcast wr s d = Inr s' \<Longrightarrow> mg_com_fail_retry s' = mg_com_fail_retry s" for d
    and s s' :: "'a manager"
    unfolding broadcast_def
    by (rule foldE_invariant [where P = "\<lambda>t. mg_com_fail_retry t = mg_com_fail_retry s"])
       (auto dest: w)
  moreover have "forward wr s ip d = Inr s' \<Longrightarrow> mg_com_fail_retry s' = mg_com_fail_retry s" for d ip
    and s s' :: "'a manager"
    by (auto simp: forward_def fault_simps r dest!: w)
  moreover assume "com_msg c wr m p = Inr m'"
  ultimately show ?thesis by (fastforce simp: com_msg_def Let_def split: if_splits)
qed

lemma mgr_handle_retry:
  assumes "mgr_handle c wr m ev = Inr m'" and "mg_com_fail_retry m < FAIL_RETRY_LIMIT"
  shows "mg_com_fail_retry m \<le> mg_com_fail_retry m' \<and> mg_com_fail_retry m' < FAIL_RETRY_LIMIT"
proof (cases ev)
  case (Client_read b d)
  with assms show ?thesis by (auto simp: read_client_cb_def split: if_splits)
next
  case (Client_event b w)
  with assms show ?thesis by (auto simp: buf_ev_cb_def bev_free_def split: if_splits)
next
  case (Com_read b d)
  have "foldE (com_msg c wr) m ps = Inr a \<Longrightarrow> mg_com_fail_retry a = mg_com_fail_retry m" for ps a
    by (erule foldE_invariant [where P = "\<lambda>t. mg_com_fail_retry t = mg_com_fail_retry m"])
       (auto dest: com_msg_retry)
  then have "com_read_cb c wr m b d = Inr m' \<Longrightarrow> mg_com_fail_retry m' = mg_com_fail_retry m"
    unfolding com_read_cb_def mgr_loop.loop_foldE by (auto simp: fault_simps)
  with Com_read assms show ?thesis by (auto split: if_splits)
next
  case (Com_event b w err ok)
  then have "m' = m \<or> (\<exists>m1. mg_com_fail_retry m1 = mg_com_fail_retry m \<and> com_bevent_cb ok m1 = Inr m')"
    using assms(1)
    by (auto simp: com_bevent_cb_helper_def bev_free_def Let_def fault_simps split: if_splits)
  then show ?thesis
    using assms(2)
    by (auto simp: com_bevent_cb_def com_connect_def bev_new_def Let_def split: if_splits)
qed

text \<open>
  The manager never survives five losses of the controller's connection: the counter of
  failures is not reset by a connection that succeeds or by data that arrives, and whatever
  events happen it stays below the limit as long as the process runs.
\<close>

lemma five_losses_end_the_manager:
  assumes "mg_com_fail_retry m = 0" and "foldE (mgr_handle c wr) m evs = Inr m'"
  shows "0 \<le> mg_com_fail_retry m' \<and> mg_com_fail_retry m' < 5 \<and>
     (mg_com_fail_retry m' = 4 \<and> b \<in> set (mg_live m') \<longrightarrow>
      mgr_handle c wr m' (Com_event b BEV_EVENT_EOF err ok) =
      Inl (Exit 1 ''connection to commander fails too many times''))"
proof -
  have "0 \<le> mg_com_fail_retry m' \<and> mg_com_fail_retry m' < FAIL_RETRY_LIMIT"
    by (rule foldE_invariant [OF assms(2)])
       (use assms(1) mgr_handle_retry in \<open>force simp: FAIL_RETRY_LIMIT_def\<close>)+
  then show ?thesis
    by (simp add: FAIL_RETRY_LIMIT_def com_bevent_cb_helper_def com_bevent_cb_def bev_free_def
        BEV_EVENT_EOF_def BEV_EVENT_CONNECTED_def BEV_EVENT_ERROR_def BEV_EVENT_TIMEOUT_def)
qed

lemma five_losses_end_the_manager_instance:
  "let m = (demo True [])\<lparr>mg_com_fail_retry := 0, mg_live := [0], mg_next_bev := 1, mg_bev_fd := Map.empty\<rparr>;
       m' = m\<lparr>mg_com_fail_retry := 1, mg_live := [1], mg_next_bev := 2, mg_bev_fd := Map.empty,
         mg_closed := [], mg_com_bev := Some 1\<rparr>;
       wr = (\<lambda>n bs. Some (length bs)); c = table_pb [];
       evs = [Com_event 0 BEV_EVENT_TIMEOUT [] True]
   in 0 \<le> mg_com_fail_retry m' \<and> mg_com_fail_retry m' < 5 \<and>
     (mg_com_fail_retry m' = 4 \<and> 1 \<in> set (mg_live m') \<longrightarrow>
      mgr_handle c wr m' (Com_event 1 BEV_EVENT_EOF [] True) =
      Inl (Exit 1 ''connection to commander fails too many times''))"
  unfolding Let_def
  by (rule five_losses_end_the_manager [where m = "(demo True [])\<lparr>mg_com_fail_retry := 0,
        mg_live := [0], mg_next_bev := 1, mg_bev_fd := Map.empty\<rparr>" and evs = "[Com_event 0 BEV_EVENT_TIMEOUT [] True]"])
     (simp_all add: demo_ok com_bevent_cb_helper_def com_bevent_cb_def com_connect_def bev_free_def bev_new_def
        BEV_EVENT_EOF_def BEV_EVENT_CONNECTED_def BEV_EVENT_ERROR_def BEV_EVENT_TIMEOUT_def
        FAIL_RETRY_LIMIT_def)

lemma setup_bevs_spec:
  "setup_bevs cs m = (cs', m') \<Longrightarrow>
   map ct_bev cs' = map Some [mg_next_bev m..<mg_next_bev m + length cs] \<and>
   set (mg_live m') = set (mg_live m) \<union> {mg_next_bev m..<mg_next_bev m + length cs} \<and>
   mg_dist m' = mg_dist m \<and> mg_closed m' = mg_closed m"
proof (induction cs arbitrary: m cs' m')
  case Nil
  then show ?case by simp
next
  case (Cons clt cs)
  obtain cs2 m2 where r: "setup_bevs cs (snd (bev_new (Some (ct_fd clt)) m)) = (cs2, m2)" by fastforce
  with Cons.prems have "cs' = clt\<lparr>ct_bev := Some (mg_next_bev m)\<rparr> # cs2" "m' = m2"
    by (auto simp: bev_new_def)
  moreover have "[mg_next_bev m..<mg_next_bev m + length (clt # cs)] =
      mg_next_bev m # [Suc (mg_next_bev m)..<Suc (mg_next_bev m) + length cs]"
    by (simp add: upt_conv_Cons del: upt_Suc)
  moreover have "{n..<n + length (clt # cs)} = insert n {Suc n..<Suc n + length cs}" for n
    by auto
  ultimately show ?case using Cons.IH [OF r] by (simp add: bev_new_def del: upt_Suc)
qed

lemma free_all_twice:
  assumes "\<forall>clt \<in> set cs. ct_bev clt \<noteq> None"
    and "\<exists>clt \<in> set cs. the (ct_bev clt) \<notin> set (mg_live m)"
  shows "foldE (\<lambda>m clt. free_opt (ct_bev clt) m) m cs = Inl (Undefined ''bufferevent freed twice'')"
  using assms
proof (induction cs arbitrary: m)
  case Nil
  then show ?case by simp
next
  case (Cons clt cs)
  then obtain b where b: "ct_bev clt = Some b" by auto
  show ?case
  proof (cases "b \<in> set (mg_live m)")
    case True
    with Cons.prems b have "\<exists>clt \<in> set cs. the (ct_bev clt) \<notin> set (removeAll b (mg_live m))" by auto
    moreover obtain x where "bev_free b m = Inr (m\<lparr>mg_live := removeAll b (mg_live m), mg_closed := x\<rparr>)"
      using True by (simp add: bev_free_def)
    ultimately show ?thesis
      using Cons.IH [of "m\<lparr>mg_live := removeAll b (mg_live m), mg_closed := x\<rparr>"] Cons.prems(1) b by simp
  next
    case False
    with b show ?thesis by (simp add: bev_free_def)
  qed
qed

text \<open>
  C34.  When a worker closes its socket while the event loop runs, its bufferevent is freed by
  the event callback and freed again when the loop ends, because the record of the worker keeps
  the pointer.
\<close>

theorem closed_worker_freed_twice:
  assumes "\<not> mg_dist m" and "i < length (mg_client_vec m)"
  shows "main_event_loop c wr ok [Client_event (mg_next_bev m + i) BEV_EVENT_EOF] m =
     Inl (Undefined ''bufferevent freed twice'')"
proof -
  obtain cs m1 where s: "setup_bevs (mg_client_vec m) m = (cs, m1)" by fastforce
  note sp = setup_bevs_spec [OF s]
  have dist: "\<not> mg_dist m1" using sp assms(1) by simp
  let ?b = "mg_next_bev m + i"
  obtain x where h: "mgr_handle c wr (m1\<lparr>mg_client_vec := cs\<rparr>) (Client_event ?b BEV_EVENT_EOF) =
      Inr (m1\<lparr>mg_client_vec := cs, mg_live := removeAll ?b (mg_live m1), mg_closed := x\<rparr>)"
    (is "_ = Inr ?m2")
    using sp assms(2) by (simp add: buf_ev_cb_def bev_free_def BEV_EVENT_EOF_def
        BEV_EVENT_CONNECTED_def BEV_EVENT_ERROR_def BEV_EVENT_TIMEOUT_def)
  have bevs: "ct_bev ` set cs = Some ` {mg_next_bev m..<mg_next_bev m + length (mg_client_vec m)}"
    using arg_cong [OF conjunct1 [OF sp], of set] by simp
  then have "Some ?b \<in> ct_bev ` set cs" using assms(2) by simp
  then obtain clt where "clt \<in> set cs" "ct_bev clt = Some ?b" by auto
  then have "\<exists>clt \<in> set cs. the (ct_bev clt) \<notin> set (mg_live ?m2)" by (intro bexI) simp_all
  moreover have "\<forall>clt \<in> set cs. ct_bev clt \<noteq> None" using bevs by force
  ultimately have "foldE (\<lambda>m clt. free_opt (ct_bev clt) m) ?m2 cs =
      Inl (Undefined ''bufferevent freed twice'')" by (intro free_all_twice)
  with s dist h show ?thesis by (simp add: main_event_loop_def del: mgr_handle.simps)
qed

theorem closed_worker_freed_twice_witness:
  "let m = (demo False [])\<lparr>mg_dist := False, mg_next_bev := 0,
       mg_client_vec := [\<lparr>ct_idx = 0, ct_fd = 5, ct_pid = 105, ct_bev = None\<rparr>]\<rparr>
   in main_event_loop (table_pb []) (\<lambda>n bs. Some (length bs)) True
        [Client_event (mg_next_bev m + 0) BEV_EVENT_EOF] m =
      Inl (Undefined ''bufferevent freed twice'')"
  unfolding Let_def by (rule closed_worker_freed_twice) simp_all

text \<open>
  The buffer of the controller's messages survives a new connection: three bytes of a lost
  connection become the head of the next length.
\<close>

lemma stale_buffer_after_reconnect:
  "com_bevent_cb True m = Inr m' \<Longrightarrow> mg_com_msg_buffer m' = mg_com_msg_buffer m \<and>
   step32 ([0, 0, 0] @ frame32 [7]) = Some ([], [0, 0, 1, 7])"
  by (auto simp: com_bevent_cb_def com_connect_def bev_new_def Let_def step32_def frame32_def be32_def
      rd32_def split: if_splits)

end
