(* ===== verification/Client.thy ===== *)
theory Client
  imports Manager Timeval
begin

text \<open>
  A worker process (\<^verbatim>\<open>client.cc\<close>).  It receives queries from the manager, schedules each at
  the time the trace asks for, sends it to the server over UDP, TCP or TLS with a socket per
  source address, and reports latencies or times of messages to the manager.  Time, random
  identifiers, sockets and the success of library calls come from the record \<open>cenv\<close>; its
  functions are indexed by the number of calls made so far (\<open>cl_tick\<close>).  Logging is left out.
\<close>

section \<open>Environment and state\<close>

text \<open>
  \<open>ce_socket k os\<close> is the descriptor \<^verbatim>\<open>socket\<close> returns when the descriptors \<open>os\<close> are open,
  -1 on failure; \<open>ce_ok k\<close> says whether a fallible library call succeeds.
\<close>

record cenv =
  ce_now :: "nat \<Rightarrow> timeval"
  ce_rand :: "nat \<Rightarrow> u16"
  ce_socket :: "nat \<Rightarrow> int list \<Rightarrow> int"
  ce_ok :: "nat \<Rightarrow> bool"

definition SOCKET_UNIFY_UDP :: u32 where "SOCKET_UNIFY_UDP = 1"
definition OUTPUT_LATENCY :: u32 where "OUTPUT_LATENCY = 1"
definition OUTPUT_TIMING :: u32 where "OUTPUT_TIMING = 2"
definition MAX_BUF_SIZE :: nat where "MAX_BUF_SIZE = 4096"

definition conn_set :: "string set" where
  "conn_set = {''udp'', ''tcp'', ''tls'', ''adaptive''}"

text \<open>
  The class.  \<open>cl_manager_live\<close> says whether the manager's bufferevent is allocated, \<open>cl_live\<close>
  are the server bufferevents that are, \<open>cl_open\<close> the open UDP descriptors.  \<open>cl_timers\<close> are the
  pending timer events with their time-out, \<open>cl_udp_writes\<close> the pending write events.
  \<open>cl_sent_udp\<close>, \<open>cl_sent_tcp\<close> and \<open>cl_to_manager\<close> log what was sent; \<open>cl_ssl_ctx\<close> says whether
  the OpenSSL context was made.
\<close>

record client =
  cl_time_out :: int
  cl_manager_fd :: int
  cl_non_wait :: bool
  cl_num_query :: u64
  cl_num_pending_event :: u64
  cl_num_pending_event_max :: u64
  cl_num_timer :: u64
  cl_num_notimer :: u64
  cl_num_udp_fd_max :: u64
  cl_socket_unify :: u32
  cl_output_option :: u32
  cl_unified_udp_fd :: int
  cl_start_trace_ts :: timeval
  cl_start_real_ts :: timeval
  cl_shift_ts :: timeval
  cl_conn_type :: string
  cl_nagle_option :: string
  cl_msg_buffer :: bytes
  cl_src2udpfd :: "(string \<times> int) list"
  cl_udpfd2src :: "int \<rightharpoonup> string"
  cl_udp_read_event :: "int list"
  cl_src2bev :: "string \<rightharpoonup> nat"
  cl_bev2src :: "nat \<rightharpoonup> string"
  cl_query_table :: "string \<rightharpoonup> timeval"
  cl_server_msg_buffer :: "nat \<rightharpoonup> bytes"
  cl_manager_live :: bool
  cl_live :: "nat list"
  cl_next_bev :: nat
  cl_open :: "int list"
  cl_timers :: "(timeval \<times> dnsmsg \<times> u64) list"
  cl_udp_writes :: "(int \<times> dnsmsg) list"
  cl_sent_udp :: "int writes"
  cl_sent_tcp :: "nat writes"
  cl_to_manager :: bytes
  cl_ssl_ctx :: bool
  cl_tick :: nat

definition DNSClient_new ::
    "(string \<Rightarrow> bool) \<Rightarrow> string \<Rightarrow> string \<Rightarrow> int \<Rightarrow> string \<Rightarrow> int \<Rightarrow> int \<Rightarrow> u32 \<Rightarrow> u32 \<Rightarrow> bool \<Rightarrow>
     client result" where
  "DNSClient_new inet_aton c g t s_ip s_port fd skt_unify opt nw =
     (if \<not> inet_aton s_ip then Inl (Exit 1 ''ip is invalid'')
      else if s_port < 0 then Inl (Exit 1 ''server port must be > 0'')
      else if t < 0 then Inl (Exit 1 ''time out value must be >= 0'')
      else if length s_ip = 0 then Inl (Exit 1 ''server IP is invalid'')
      else if c \<notin> conn_set then Inl (Exit 1 ''connection type is invalid'')
      else if fd \<le> 0 then Inl (Exit 1 ''manager fd is invalid'')
      else Inr \<lparr>cl_time_out = t, cl_manager_fd = fd, cl_non_wait = nw, cl_num_query = 0, cl_num_pending_event = 0,
        cl_num_pending_event_max = 0, cl_num_timer = 0, cl_num_notimer = 0, cl_num_udp_fd_max = 0,
        cl_socket_unify = skt_unify, cl_output_option = opt, cl_unified_udp_fd = -1,
        cl_start_trace_ts = Timeval 0 0, cl_start_real_ts = Timeval 0 0, cl_shift_ts = Timeval 0 0,
        cl_conn_type = c, cl_nagle_option = g, cl_msg_buffer = [], cl_src2udpfd = [],
        cl_udpfd2src = Map.empty, cl_udp_read_event = [], cl_src2bev = Map.empty,
        cl_bev2src = Map.empty, cl_query_table = Map.empty, cl_server_msg_buffer = Map.empty,
        cl_manager_live = False, cl_live = [], cl_next_bev = 0, cl_open = [], cl_timers = [],
        cl_udp_writes = [], cl_sent_udp = [], cl_sent_tcp = [], cl_to_manager = [],
        cl_ssl_ctx = False, cl_tick = 0\<rparr>)"

section \<open>Calls to the environment\<close>

definition gettimeofday :: "cenv \<Rightarrow> client \<Rightarrow> timeval \<times> client" where
  "gettimeofday E s = (ce_now E (cl_tick s), s\<lparr>cl_tick := Suc (cl_tick s)\<rparr>)"

text \<open>A call that may fail, followed by \<^verbatim>\<open>log_err\<close>.\<close>

definition call :: "cenv \<Rightarrow> string \<Rightarrow> client \<Rightarrow> client result" where
  "call E msg s =
     (if ce_ok E (cl_tick s) then Inr (s\<lparr>cl_tick := Suc (cl_tick s)\<rparr>) else Inl (Exit 1 msg))"

text \<open>\<^verbatim>\<open>bufferevent_write(manager_bev, ...)\<close>.\<close>

definition manager_write :: "cenv \<Rightarrow> string \<Rightarrow> client \<Rightarrow> bytes \<Rightarrow> client result" where
  "manager_write E msg s bs =
     (if \<not> cl_manager_live s then Inl (Undefined ''write to a freed bufferevent'')
      else bindE (call E msg s) (\<lambda>s'. Inr (s'\<lparr>cl_to_manager := cl_to_manager s' @ bs\<rparr>)))"

section \<open>Reports to the manager\<close>

definition tail_str :: "string list \<Rightarrow> string" where
  "tail_str v = concat (map (\<lambda>e. '' '' @ e) (tl v))"

text \<open>
  \<open>buf\<close> is the memory behind the pointer, \<open>len\<close> the length passed.  A response that matches no
  recorded query is dropped.
\<close>

definition sendto_manager ::
    "cenv \<Rightarrow> 'p ldns \<Rightarrow> client \<Rightarrow> bytes \<Rightarrow> nat \<Rightarrow> client result" where
  "sendto_manager E L s0 buf len =
     (let (rt, s) = gettimeofday E s0
      in bindE (get_id L buf) (\<lambda>i.
           let key = fmt_str (to_string (uint i) @ '' '' @ get_query_rr_str L (take len buf)) '' ''
           in case cl_query_table s key of
                None \<Rightarrow> Inr s
              | Some qt \<Rightarrow>
                  let latency = timersub rt qt;
                      s1 = s\<lparr>cl_query_table := (cl_query_table s)(key := None)\<rparr>;
                      tmp = to_string (tv_sec latency) @ '' '' @ to_string (tv_usec latency) @
                            tail_str (str_split key) @ [CHR 0x0A]
                  in manager_write E ''sendto_manager: bufferevent_write fails'' s1
                       (str_bytes tmp @ [0])))"

definition record_message_time ::
    "cenv \<Rightarrow> 'p ldns \<Rightarrow> client \<Rightarrow> bytes \<Rightarrow> string \<Rightarrow> client result" where
  "record_message_time E L s0 buf addr =
     bindE (is_query buf False) (\<lambda>q.
     bindE (get_id L buf) (\<lambda>i.
       let msg_type = (if q then ''Q'' else ''R'');
           rr = get_query_rr_str L buf;
           qname = (if length rr = 0 then ''-'' else rr);
           key = fmt_str (msg_type @ '' '' @ to_string (uint i) @ '' '' @ qname) '' '';
           (t, s) = gettimeofday E s0;
           tms = to_string (tv_usec t)
       in if 6 < length tms then Inl (Uncaught Length_error)
          else let tms_full = replicate (6 - length tms) CHR ''0'' @ tms;
                   tmp = addr @ '' '' @ to_string (tv_sec t) @ '' '' @ tms_full @ '' '' @ key @
                         [CHR 0x0A]
               in manager_write E ''record_message_time: bufferevent_write fails'' s (str_bytes tmp)))"

section \<open>Sending a query\<close>

text \<open>
  The loop that draws an identifier until the key is not in the table of pending queries.  It
  has no bound; \<open>None\<close> is not returning.
\<close>

partial_function (option) pick_id ::
    "cenv \<Rightarrow> 'p ldns \<Rightarrow> (string \<rightharpoonup> timeval) \<Rightarrow> string \<Rightarrow> bytes \<Rightarrow> nat \<Rightarrow>
     ((bytes \<times> string \<times> nat) result) option" where
  "pick_id E L tbl qname buf k =
     (case set_random_id L (ce_rand E k) buf of
        Inl e \<Rightarrow> Some (Inl e)
      | Inr buf' \<Rightarrow>
          (case get_id L buf' of
             Inl e \<Rightarrow> Some (Inl e)
           | Inr i \<Rightarrow>
               let key = to_string (uint i) @ '' '' @ qname
               in if tbl key \<noteq> None then pick_id E L tbl qname buf' (Suc k)
                  else Some (Inr (buf', key, Suc k))))"

definition draw_key ::
    "cenv \<Rightarrow> 'p ldns \<Rightarrow> client \<Rightarrow> string \<Rightarrow> bytes \<Rightarrow> (bytes \<times> string \<times> client) result" where
  "draw_key E L s qname buf =
     bindE (returning ''no free query id'' (pick_id E L (cl_query_table s) qname buf (cl_tick s)))
       (\<lambda>(buf', key, k). Inr (buf', fmt_str key '' '', s\<lparr>cl_tick := k\<rparr>))"

text \<open>The 16 bit length of the DNS data and the bytes copied.\<close>

definition query_raw :: "dnsmsg \<Rightarrow> bytes" where
  "query_raw msg = take (unat (of_nat (length (raw msg)) :: u16)) (raw msg)"

definition log_query :: "cenv \<Rightarrow> client \<Rightarrow> string \<Rightarrow> string \<Rightarrow> client" where
  "log_query E s qname key =
     (if length qname \<noteq> 0 \<and> cl_output_option s AND OUTPUT_LATENCY \<noteq> 0
      then let (qt, s1) = gettimeofday E s
           in s1\<lparr>cl_query_table := (cl_query_table s1)(key \<mapsto> qt)\<rparr>
      else s)"

definition log_timing ::
    "cenv \<Rightarrow> 'p ldns \<Rightarrow> client \<Rightarrow> bytes \<Rightarrow> string \<Rightarrow> client result" where
  "log_timing E L s buf addr =
     (if cl_output_option s AND OUTPUT_TIMING \<noteq> 0 then record_message_time E L s buf addr else Inr s)"

definition bev_write :: "cenv \<Rightarrow> string \<Rightarrow> client \<Rightarrow> nat \<Rightarrow> bytes \<Rightarrow> client result" where
  "bev_write E msg s b bs =
     (if b \<notin> set (cl_live s) then Inl (Undefined ''write to a freed bufferevent'')
      else bindE (call E msg s) (\<lambda>s'. Inr (s'\<lparr>cl_sent_tcp := cl_sent_tcp s' @ [(b, bs)]\<rparr>)))"

text \<open>
  The OpenSSL context is made for the first TLS connection; the first component says whether there
  is one.  A bufferevent needs an \<^verbatim>\<open>SSL\<close> object, which without a context or memory is null.
\<close>

definition get_ssl_ctx :: "cenv \<Rightarrow> client \<Rightarrow> bool \<times> client" where
  "get_ssl_ctx E s =
     (if cl_ssl_ctx s then (True, s)
      else let ok = ce_ok E (cl_tick s)
           in (ok, s\<lparr>cl_tick := Suc (cl_tick s), cl_ssl_ctx := ok\<rparr>))"

definition new_bev :: "cenv \<Rightarrow> bool \<Rightarrow> client \<Rightarrow> client result" where
  "new_bev E use_tls s =
     bindE (if use_tls
            then let (ctx, s1) = get_ssl_ctx E s
                 in if ctx \<and> ce_ok E (cl_tick s1) then Inr (s1\<lparr>cl_tick := Suc (cl_tick s1)\<rparr>)
                    else Inl (Undefined ''bufferevent of a null SSL'')
            else Inr s) (\<lambda>s2.
       if ce_ok E (cl_tick s2) then Inr (s2\<lparr>cl_tick := Suc (cl_tick s2)\<rparr>)
       else Inl (Assertion ''bev''))"

text \<open>A new connection for a source address: the records, the connection and its options.\<close>

definition open_conn :: "cenv \<Rightarrow> client \<Rightarrow> string \<Rightarrow> (nat \<times> client) result" where
  "open_conn E s ip =
     (let b = cl_next_bev s;
          s1 = s\<lparr>cl_next_bev := Suc b, cl_live := b # cl_live s,
                 cl_src2bev := map_insert ip b (cl_src2bev s),
                 cl_bev2src := map_insert b ip (cl_bev2src s),
                 cl_server_msg_buffer := map_insert b [] (cl_server_msg_buffer s)\<rparr>
      in bindE (call E ''bufferevent_socket_connect fails'' s1) (\<lambda>s2.
         bindE (if cl_nagle_option s2 = ''disable'' \<or> cl_nagle_option s2 = ''enable''
                then bindE (call E ''fail to set nagle option for fd[-1]'' s2)
                       (call E ''fail to set nagle option'')
                else Inr s2) (\<lambda>s3.
         Inr (b, s3))))"

definition tcp_connect :: "cenv \<Rightarrow> bool \<Rightarrow> client \<Rightarrow> string \<Rightarrow> (nat \<times> client) result" where
  "tcp_connect E use_tls s ip = bindE (new_bev E use_tls s) (\<lambda>s'. open_conn E s' ip)"

definition send_query_tcp :: "cenv \<Rightarrow> 'p ldns \<Rightarrow> bool \<Rightarrow> client \<Rightarrow> dnsmsg \<Rightarrow> client result" where
  "send_query_tcp E L use_tls s msg =
     (let rawq = query_raw msg; raw_len = (of_nat (length (raw msg)) :: u16)
      in if raw_len = 0 then Inr s
         else let qname = get_query_rr_str L rawq
              in bindE (draw_key E L s qname rawq) (\<lambda>(rawq', key, s1).
                 let tcp_raw_len = raw_len + 2
                 in if unat tcp_raw_len < unat raw_len + 2
                    then Inl (Undefined ''send_query_tcp: write past the buffer'')
                    else let tcp_raw = be16 raw_len @ rawq'; ip = src_ip msg
                         in case cl_src2bev s1 ip of
                              Some b \<Rightarrow>
                                bindE (log_timing E L (log_query E s1 qname key) rawq' ip) (\<lambda>s2.
                                  bev_write E ''send_query_tcp: bufferevent_write fails'' s2 b tcp_raw)
                            | None \<Rightarrow>
                                bindE (log_timing E L (log_query E s1 qname key) rawq' ip) (\<lambda>s2.
                                bindE (tcp_connect E use_tls s2 ip) (\<lambda>(b, s3).
                                  bev_write E ''send_query_tcp_2: bufferevent_write fails'' s3 b tcp_raw))))"

text \<open>The UDP socket of a source address, created when there is none.\<close>

definition udp_socket :: "cenv \<Rightarrow> client \<Rightarrow> string \<Rightarrow> (int \<times> client) result" where
  "udp_socket E s ip =
     (if cl_socket_unify s AND SOCKET_UNIFY_UDP \<noteq> 0 then Inr (cl_unified_udp_fd s, s)
      else case map_of (cl_src2udpfd s) ip of
             Some fd \<Rightarrow> if fd = -1 then Inl (Assertion ''fd != -1'') else Inr (fd, s)
           | None \<Rightarrow>
               let fd = ce_socket E (cl_tick s) (cl_open s)
               in if fd = -1 then Inl (Exit 1 ''failed to create a new UDP socket'')
                  else bindE (call E ''evutil_make_socket_nonblocking fails'' s) (\<lambda>s1.
                       bindE (call E ''failed to connect for new UDP socket'' s1) (\<lambda>s2.
                       let src = (ip, fd) # cl_src2udpfd s2;
                           s3 = s2\<lparr>cl_open := fd # cl_open s2, cl_src2udpfd := src,
                                   cl_udpfd2src := map_insert fd ip (cl_udpfd2src s2),
                                   cl_num_udp_fd_max :=
                                     (if unat (cl_num_udp_fd_max s2) < length src
                                      then of_nat (length src) else cl_num_udp_fd_max s2)\<rparr>
                       in bindE (call E ''cannot add server udp read event'' s3) (\<lambda>s4.
                          Inr (fd, s4\<lparr>cl_udp_read_event := List.insert fd (cl_udp_read_event s4)\<rparr>)))))"

definition send_query_udp :: "cenv \<Rightarrow> 'p ldns \<Rightarrow> client \<Rightarrow> dnsmsg \<Rightarrow> client result" where
  "send_query_udp E L s msg =
     (let rawq = query_raw msg; raw_len = (of_nat (length (raw msg)) :: u16)
      in if raw_len = 0 then Inr s
         else let qname = get_query_rr_str L rawq
              in bindE (draw_key E L s qname rawq) (\<lambda>(rawq', key, s1).
                 let msg' = msg\<lparr>f_raw := Some rawq'\<rparr>
                 in bindE (udp_socket E s1 (src_ip msg)) (\<lambda>(fd, s2).
                    bindE (call E ''cannot add server udp write event'' (log_query E s2 qname key)) (\<lambda>s3.
                    Inr (s3\<lparr>cl_udp_writes := cl_udp_writes s3 @ [(fd, msg')]\<rparr>)))))"

definition send_query :: "cenv \<Rightarrow> 'p ldns \<Rightarrow> client \<Rightarrow> dnsmsg \<Rightarrow> client result" where
  "send_query E L s0 msg =
     (let q_ts = Timeval (seconds msg) (microseconds msg);
          (current_real_ts, s) = gettimeofday E s0;
          diff_real_ts = timersub current_real_ts (cl_start_real_ts s);
          diff_trace_ts = timersub q_ts (cl_start_trace_ts s);
          s1 = s\<lparr>cl_shift_ts := timersub diff_trace_ts diff_real_ts\<rparr>;
          use_tcp = (cl_conn_type s1 = ''tcp'' \<or> cl_conn_type s1 = ''adaptive'' \<and> tcp msg);
          use_udp = (cl_conn_type s1 = ''udp'' \<or> cl_conn_type s1 = ''adaptive'' \<and> \<not> tcp msg);
          use_tls = (cl_conn_type s1 = ''tls'')
      in if use_tls then send_query_tcp E L True s1 msg
         else if use_tcp then send_query_tcp E L False s1 msg
         else if use_udp then send_query_udp E L s1 msg
         else Inr s1)"

section \<open>Queries from the manager\<close>

text \<open>
  The wait for a query at trace time \<open>q_ts\<close>, from the clock reading \<open>now\<close>: how far the query is
  from the start of the trace, less how long the replay has been running.
\<close>

definition wait_time :: "client \<Rightarrow> timeval \<Rightarrow> timeval \<Rightarrow> timeval" where
  "wait_time s q_ts now =
     timersub (timersub q_ts (cl_start_trace_ts s)) (timersub now (cl_start_real_ts s))"

definition send_now :: "cenv \<Rightarrow> 'p ldns \<Rightarrow> client \<Rightarrow> dnsmsg \<Rightarrow> client result" where
  "send_now E L s msg =
     bindE (send_query E L s msg) (\<lambda>s'. Inr (s'\<lparr>cl_num_notimer := cl_num_notimer s' + 1\<rparr>))"

definition sync_clock :: "cenv \<Rightarrow> client \<Rightarrow> timeval \<Rightarrow> client result" where
  "sync_clock E s q_ts =
     (if timerisset (cl_start_trace_ts s)
      then Inl (Exit 1 ''recv sync_time msg but trace start time is set!'')
      else let (now, s1) = gettimeofday E s
           in Inr (s1\<lparr>cl_start_trace_ts := q_ts, cl_start_real_ts := now\<rparr>))"

definition add_timer :: "cenv \<Rightarrow> client \<Rightarrow> timeval \<Rightarrow> dnsmsg \<Rightarrow> client result" where
  "add_timer E s tv msg =
     bindE (call E ''fail to add timer event'' s) (\<lambda>s1.
       let n = cl_num_pending_event s1 + 1
       in Inr (s1\<lparr>cl_timers := cl_timers s1 @ [(tv, msg, cl_num_query s1)],
                  cl_num_timer := cl_num_timer s1 + 1, cl_num_pending_event := n,
                  cl_num_pending_event_max := max n (cl_num_pending_event_max s1)\<rparr>))"

text \<open>The clock is read twice: before and after the timer event is allocated.\<close>

definition schedule :: "cenv \<Rightarrow> 'p ldns \<Rightarrow> client \<Rightarrow> timeval \<Rightarrow> dnsmsg \<Rightarrow> client result" where
  "schedule E L s q_ts msg =
     (let (now, s1) = gettimeofday E s
      in if cl_non_wait s1 \<or> tv_sec (wait_time s1 q_ts now) < 0 then send_now E L s1 msg
         else let (now, s2) = gettimeofday E s1; tv = wait_time s2 q_ts now
              in if tv_sec tv < 0 then send_now E L s2 msg
                 else add_timer E s2 tv msg)"

definition count_query :: "client \<Rightarrow> client" where
  "count_query s = s\<lparr>cl_num_query := (if cl_num_query s = -1 then 0 else cl_num_query s) + 1\<rparr>"

definition manager_msg :: "cenv \<Rightarrow> pb \<Rightarrow> 'p ldns \<Rightarrow> client \<Rightarrow> bytes \<Rightarrow> client result" where
  "manager_msg E c L s d =
     (let msg = ParseFromArray c d; q_ts = Timeval (seconds msg) (microseconds msg)
      in if sync_time msg then sync_clock E s q_ts
         else if \<not> timerisset (cl_start_trace_ts s) then Inl (Exit 1 ''trace start time is NOT set!'')
         else schedule E L (count_query s) q_ts msg)"

function manager_loop ::
    "cenv \<Rightarrow> pb \<Rightarrow> 'p ldns \<Rightarrow> bytes \<Rightarrow> client \<Rightarrow> (client \<times> bytes) result" where
  "manager_loop E c L b s =
     (case step32 b of
        None \<Rightarrow> Inr (s, b)
      | Some (p, r) \<Rightarrow> bindE (manager_msg E c L s p) (\<lambda>s'. manager_loop E c L r s'))"
  by pat_completeness auto
termination
  by (relation "measure (\<lambda>(E, c, L, b, s). length b)") (auto dest: step32_shrink)

declare manager_loop.simps [simp del]

definition manager_read_cb ::
    "cenv \<Rightarrow> pb \<Rightarrow> 'p ldns \<Rightarrow> client \<Rightarrow> bytes \<Rightarrow> client result" where
  "manager_read_cb E c L s data =
     bindE (manager_loop E c L (cl_msg_buffer s @ data) s) (\<lambda>(s', b).
       Inr (s'\<lparr>cl_msg_buffer := b\<rparr>))"

text \<open>A pending timer event fires.\<close>

definition drop_nth :: "nat \<Rightarrow> 'a list \<Rightarrow> 'a list" where
  "drop_nth i xs = take i xs @ drop (Suc i) xs"

definition send_query_helper :: "cenv \<Rightarrow> 'p ldns \<Rightarrow> client \<Rightarrow> nat \<Rightarrow> client result" where
  "send_query_helper E L s i =
     (let (tv, msg, n) = cl_timers s ! i
      in send_query E L
           (s\<lparr>cl_timers := drop_nth i (cl_timers s),
              cl_num_pending_event := cl_num_pending_event s - 1\<rparr>) msg)"

section \<open>The manager's and the server's sockets\<close>

definition manager_event_cb :: "string \<Rightarrow> u16 \<Rightarrow> client \<Rightarrow> client result" where
  "manager_event_cb sock_err which s =
     (let err_msg =
        (if which AND BEV_EVENT_CONNECTED \<noteq> 0 then []
         else if which AND BEV_EVENT_ERROR \<noteq> 0 then sock_err
         else if which AND (BEV_EVENT_EOF OR BEV_EVENT_TIMEOUT) \<noteq> 0
         then (if which AND BEV_EVENT_TIMEOUT \<noteq> 0 then ''timeout'' else ''got a close'')
         else [])
      in if err_msg = [] then Inr s
         else if cl_manager_live s then Inr (s\<lparr>cl_manager_live := False\<rparr>)
         else Inl (Undefined ''bufferevent freed twice''))"

definition src_of_fd :: "client \<Rightarrow> int \<Rightarrow> string" where
  "src_of_fd s fd = (case cl_udpfd2src s fd of None \<Rightarrow> ''0'' | Some ip \<Rightarrow> ip)"

definition server_udp_write_cb :: "cenv \<Rightarrow> 'p ldns \<Rightarrow> client \<Rightarrow> int \<Rightarrow> dnsmsg \<Rightarrow> client result" where
  "server_udp_write_cb E L s fd msg =
     bindE (log_timing E L s (raw msg) (src_of_fd s fd)) (\<lambda>s1.
     bindE (call E ''send fails'' s1) (\<lambda>s2.
       Inr (s2\<lparr>cl_sent_udp := cl_sent_udp s2 @ [(fd, raw msg)]\<rparr>)))"

definition server_udp_write_cb_helper :: "cenv \<Rightarrow> 'p ldns \<Rightarrow> client \<Rightarrow> nat \<Rightarrow> client result" where
  "server_udp_write_cb_helper E L s i =
     (let (fd, msg) = cl_udp_writes s ! i
      in server_udp_write_cb E L (s\<lparr>cl_udp_writes := drop_nth i (cl_udp_writes s)\<rparr>) fd msg)"

definition server_udp_read_timeout_cb :: "client \<Rightarrow> int \<Rightarrow> client" where
  "server_udp_read_timeout_cb s fd =
     (if fd < 0 then s
      else if fd \<notin> set (cl_udp_read_event s) then s
      else let s1 = s\<lparr>cl_open := removeAll fd (cl_open s),
                      cl_udp_read_event := removeAll fd (cl_udp_read_event s)\<rparr>
           in case cl_udpfd2src s1 fd of
                None \<Rightarrow> s1
              | Some ip \<Rightarrow> s1\<lparr>cl_src2udpfd := filter (\<lambda>x. fst x \<noteq> ip) (cl_src2udpfd s1),
                              cl_udpfd2src := (cl_udpfd2src s1)(fd := None)\<rparr>)"

text \<open>\<open>data\<close> is what \<^verbatim>\<open>recv\<close> delivers, at most the size of the buffer; \<open>None\<close> is -1.\<close>

definition server_udp_read_cb ::
    "cenv \<Rightarrow> 'p ldns \<Rightarrow> client \<Rightarrow> int \<Rightarrow> bytes option \<Rightarrow> client result" where
  "server_udp_read_cb E L s fd data =
     (case data of
        None \<Rightarrow> Inl (Exit 1 ''recv'')
      | Some d \<Rightarrow>
          let b = take MAX_BUF_SIZE d
          in if cl_output_option s AND OUTPUT_LATENCY \<noteq> 0
             then sendto_manager E L s (b @ replicate (MAX_BUF_SIZE - length b) 0) (length b)
             else log_timing E L s b (src_of_fd s fd))"

text \<open>The loop over the responses in the buffer of a connection.\<close>

function timing_loop ::
    "cenv \<Rightarrow> 'p ldns \<Rightarrow> string \<Rightarrow> bytes \<Rightarrow> client \<Rightarrow> (client \<times> bytes) result" where
  "timing_loop E L src b s =
     (case step16 b of
        None \<Rightarrow> Inr (s, b)
      | Some (p, r) \<Rightarrow> bindE (record_message_time E L s p src) (\<lambda>s'. timing_loop E L src r s'))"
  by pat_completeness auto
termination
  by (relation "measure (\<lambda>(E, L, src, b, s). length b)") (auto dest: step16_shrink)

declare timing_loop.simps [simp del]

text \<open>
  With latencies asked for, the data of one read, less its first two bytes, is taken to be one
  response; fewer than two bytes make the size wrap around and the allocation fail.
\<close>

definition server_read_cb :: "cenv \<Rightarrow> 'p ldns \<Rightarrow> client \<Rightarrow> nat \<Rightarrow> bytes \<Rightarrow> client result" where
  "server_read_cb E L s bev data =
     bindE (if cl_output_option s AND OUTPUT_TIMING \<noteq> 0
            then let old = (case cl_server_msg_buffer s bev of None \<Rightarrow> [] | Some b \<Rightarrow> b);
                     src = (case cl_bev2src s bev of None \<Rightarrow> ''0'' | Some ip \<Rightarrow> ip)
                 in bindE (timing_loop E L src (old @ data) s) (\<lambda>(s', r).
                      Inr (s'\<lparr>cl_server_msg_buffer := (cl_server_msg_buffer s')(bev \<mapsto> r)\<rparr>))
            else Inr s) (\<lambda>s1.
       if cl_output_option s1 AND OUTPUT_LATENCY \<noteq> 0
       then if length data < 2 then Inl (Uncaught Bad_alloc)
            else sendto_manager E L s1 (drop 2 data) (length data - 2)
       else Inr s1)"

definition server_event_cb :: "client \<Rightarrow> nat \<Rightarrow> u16 \<Rightarrow> client result" where
  "server_event_cb s bev which =
     (if which AND BEV_EVENT_CONNECTED \<noteq> 0 then Inr s
      else if which AND BEV_EVENT_TIMEOUT \<noteq> 0 \<or> which AND (BEV_EVENT_EOF OR BEV_EVENT_ERROR) \<noteq> 0
      then let ip = (case cl_bev2src s bev of None \<Rightarrow> [] | Some i \<Rightarrow> i)
           in if bev \<notin> set (cl_live s) then Inl (Undefined ''bufferevent freed twice'')
              else Inr (s\<lparr>cl_src2bev := (cl_src2bev s)(ip := None),
                          cl_bev2src := (cl_bev2src s)(bev := None),
                          cl_server_msg_buffer := (cl_server_msg_buffer s)(bev := None),
                          cl_live := removeAll bev (cl_live s)\<rparr>)
      else Inr s)"

section \<open>The event loop\<close>

datatype cl_event =
    Manager_read bytes
  | Manager_event u16 string
  | Timer_fires nat
  | Udp_writable nat
  | Udp_read int "bytes option"
  | Udp_timeout int
  | Server_read nat bytes
  | Server_event nat u16

text \<open>Libevent runs a callback only for an event or bufferevent that exists.\<close>

fun cl_handle :: "cenv \<Rightarrow> pb \<Rightarrow> 'p ldns \<Rightarrow> client \<Rightarrow> cl_event \<Rightarrow> client result" where
  "cl_handle E c L s (Manager_read d) =
     (if cl_manager_live s then manager_read_cb E c L s d else Inr s)"
| "cl_handle E c L s (Manager_event w err) =
     (if cl_manager_live s then manager_event_cb err w s else Inr s)"
| "cl_handle E c L s (Timer_fires i) =
     (if i < length (cl_timers s) then send_query_helper E L s i else Inr s)"
| "cl_handle E c L s (Udp_writable i) =
     (if i < length (cl_udp_writes s) then server_udp_write_cb_helper E L s i else Inr s)"
| "cl_handle E c L s (Udp_read fd d) =
     (if fd \<in> set (cl_udp_read_event s) \<or> fd = cl_unified_udp_fd s \<and> fd \<noteq> -1
      then server_udp_read_cb E L s fd d else Inr s)"
| "cl_handle E c L s (Udp_timeout fd) =
     (if fd \<in> set (cl_udp_read_event s) then Inr (server_udp_read_timeout_cb s fd) else Inr s)"
| "cl_handle E c L s (Server_read b d) =
     (if b \<in> set (cl_live s) then server_read_cb E L s b d else Inr s)"
| "cl_handle E c L s (Server_event b w) =
     (if b \<in> set (cl_live s) then server_event_cb s b w else Inr s)"

text \<open>\<^verbatim>\<open>start\<close> up to the dispatch loop, with the unified UDP socket if it is asked for.\<close>

definition start_setup :: "cenv \<Rightarrow> client \<Rightarrow> client result" where
  "start_setup E s =
     (let s1 = s\<lparr>cl_manager_live := True\<rparr>
      in if cl_socket_unify s1 AND SOCKET_UNIFY_UDP \<noteq> 0
         then let fd = ce_socket E (cl_tick s1) (cl_open s1)
              in if fd = -1 then Inl (Exit 1 ''socket'')
                 else bindE (call E ''evutil_make_socket_nonblocking fails: unified_udp_fd''
                              (s1\<lparr>cl_unified_udp_fd := fd, cl_open := fd # cl_open s1\<rparr>)) (\<lambda>s2.
                      bindE (call E ''connect'' s2) (call E ''cannot add unified_udp_read_event''))
         else Inr s1)"

definition start :: "cenv \<Rightarrow> pb \<Rightarrow> 'p ldns \<Rightarrow> client \<Rightarrow> cl_event list \<Rightarrow> client result" where
  "start E c L s evs =
     bindE (start_setup E s) (\<lambda>s1.
     bindE (foldE (cl_handle E c L) s1 evs) (\<lambda>s2.
       if cl_manager_live s2 then Inr (s2\<lparr>cl_manager_live := False\<rparr>)
       else Inl (Undefined ''bufferevent freed twice'')))"

section \<open>The invariant of the tables\<close>

text \<open>
  The documented behaviour of \<^verbatim>\<open>socket\<close>: a descriptor is not negative and not open already.
\<close>

definition socket_ok :: "cenv \<Rightarrow> bool" where
  "socket_ok E \<longleftrightarrow> (\<forall>k os. ce_socket E k os = -1 \<or> 0 \<le> ce_socket E k os \<and> ce_socket E k os \<notin> set os)"

text \<open>The two maps between source addresses and UDP sockets, and the read events.\<close>

definition udp_inv :: "client \<Rightarrow> bool" where
  "udp_inv s \<longleftrightarrow>
     distinct (map fst (cl_src2udpfd s)) \<and>
     (\<forall>ip fd. map_of (cl_src2udpfd s) ip = Some fd \<longleftrightarrow> cl_udpfd2src s fd = Some ip) \<and>
     dom (cl_udpfd2src s) = set (cl_udp_read_event s) \<and>
     dom (cl_udpfd2src s) \<subseteq> set (cl_open s) \<and> (\<forall>fd \<in> set (cl_open s). 0 \<le> fd)"

text \<open>The two maps between source addresses and connections, and the receive buffers.\<close>

definition tcp_inv :: "client \<Rightarrow> bool" where
  "tcp_inv s \<longleftrightarrow>
     (\<forall>ip b. cl_src2bev s ip = Some b \<longleftrightarrow> cl_bev2src s b = Some ip) \<and>
     dom (cl_bev2src s) = set (cl_live s) \<and> dom (cl_server_msg_buffer s) = set (cl_live s) \<and>
     (\<forall>b \<in> set (cl_live s). b < cl_next_bev s)"

text \<open>The count of pending timers, and the form of the keys of pending queries.\<close>

definition query_inv :: "client \<Rightarrow> bool" where
  "query_inv s \<longleftrightarrow>
     cl_num_pending_event s = of_nat (length (cl_timers s)) \<and>
     (\<forall>k \<in> dom (cl_query_table s). fmt_str k '' '' = k)"

definition client_inv :: "client \<Rightarrow> bool" where
  "client_inv s \<longleftrightarrow> udp_inv s \<and> tcp_inv s \<and> query_inv s"

lemmas inv_defs = client_inv_def udp_inv_def tcp_inv_def query_inv_def

text \<open>The fields the invariant does not mention.\<close>

lemma client_inv_frame [simp]:
  "client_inv (s\<lparr>cl_tick := a\<rparr>) = client_inv s"
  "client_inv (s\<lparr>cl_ssl_ctx := z\<rparr>) = client_inv s"
  "client_inv (s\<lparr>cl_to_manager := b\<rparr>) = client_inv s"
  "client_inv (s\<lparr>cl_sent_udp := c\<rparr>) = client_inv s"
  "client_inv (s\<lparr>cl_sent_tcp := d\<rparr>) = client_inv s"
  "client_inv (s\<lparr>cl_udp_writes := e\<rparr>) = client_inv s"
  "client_inv (s\<lparr>cl_num_query := f\<rparr>) = client_inv s"
  "client_inv (s\<lparr>cl_num_notimer := g\<rparr>) = client_inv s"
  "client_inv (s\<lparr>cl_shift_ts := h\<rparr>) = client_inv s"
  "client_inv (s\<lparr>cl_msg_buffer := j\<rparr>) = client_inv s"
  "client_inv (s\<lparr>cl_manager_live := k\<rparr>) = client_inv s"
  "client_inv (s\<lparr>cl_start_trace_ts := x, cl_start_real_ts := y\<rparr>) = client_inv s"
  by (simp_all add: inv_defs)

lemma gettimeofday_eq: "gettimeofday E s = (t, s') \<longleftrightarrow> t = ce_now E (cl_tick s) \<and> s' = s\<lparr>cl_tick := Suc (cl_tick s)\<rparr>"
  by (auto simp: gettimeofday_def)

lemma call_eq:
  "call E m s = Inr s' \<longleftrightarrow> ce_ok E (cl_tick s) \<and> s' = s\<lparr>cl_tick := Suc (cl_tick s)\<rparr>"
  by (auto simp: call_def)

lemma manager_write_inv: "manager_write E m s bs = Inr s' \<Longrightarrow> client_inv s \<Longrightarrow> client_inv s'"
  by (auto simp: manager_write_def fault_simps call_eq split: if_splits)

lemma sendto_manager_inv:
  assumes "sendto_manager E L s buf len = Inr s'" and "client_inv s"
  shows "client_inv s'"
proof -
  have "client_inv (s\<lparr>cl_tick := n, cl_query_table := (cl_query_table s)(k := None)\<rparr>)" for k n
    using assms(2) by (auto simp: inv_defs)
  then show ?thesis
    using assms unfolding sendto_manager_def gettimeofday_def Let_def
    by (auto simp: fault_simps split: option.splits dest!: manager_write_inv)
qed

lemma record_message_time_inv:
  "record_message_time E L s buf a = Inr s' \<Longrightarrow> client_inv s \<Longrightarrow> client_inv s'"
  unfolding record_message_time_def gettimeofday_def Let_def
  by (auto simp: fault_simps split: if_splits dest!: manager_write_inv)

lemma log_timing_inv: "log_timing E L s buf a = Inr s' \<Longrightarrow> client_inv s \<Longrightarrow> client_inv s'"
  by (auto simp: log_timing_def split: if_splits dest: record_message_time_inv)

lemma fmt_str_idem: "fmt_str (fmt_str s '' '') '' '' = fmt_str s '' ''"
  by (metis fmt_str_words words_fmt_str)

lemma draw_key_inv:
  assumes "draw_key E L s q buf = Inr (buf', key, s')" and "client_inv s"
  shows "client_inv s' \<and> fmt_str key '' '' = key"
  using assms by (auto simp: draw_key_def fault_simps fmt_str_idem)

lemma log_query_inv:
  "client_inv s \<Longrightarrow> fmt_str key '' '' = key \<Longrightarrow> client_inv (log_query E s q key)"
  by (auto simp: log_query_def gettimeofday_def Let_def inv_defs)

lemma bev_write_inv: "bev_write E m s b bs = Inr s' \<Longrightarrow> client_inv s \<Longrightarrow> client_inv s'"
  by (auto simp: bev_write_def fault_simps call_eq split: if_splits)

lemma new_bev_frame:
  assumes "new_bev E tls s = Inr s'"
  obtains k x where "s' = s\<lparr>cl_ssl_ctx := x, cl_tick := k\<rparr>"
proof -
  have "\<exists>x k. s' = s\<lparr>cl_ssl_ctx := x, cl_tick := k\<rparr>"
    using assms
    by (cases s) (auto simp: new_bev_def get_ssl_ctx_def Let_def fault_simps split: if_splits)
  then show thesis using that by blast
qed

lemma tcp_connect_cases:
  assumes "tcp_connect E tls s ip = Inr (b, s')"
  obtains x k where "open_conn E (s\<lparr>cl_ssl_ctx := x, cl_tick := k\<rparr>) ip = Inr (b, s')"
proof -
  obtain s1 where s1: "new_bev E tls s = Inr s1" "open_conn E s1 ip = Inr (b, s')"
    using assms by (auto simp: tcp_connect_def fault_simps)
  with that show thesis by (elim new_bev_frame) simp
qed

lemma open_conn_inv:
  assumes "open_conn E s ip = Inr (b, s')" and "client_inv s" and "cl_src2bev s ip = None"
  shows "client_inv s'"
proof -
  let ?b = "cl_next_bev s"
  let ?s = "s\<lparr>cl_next_bev := Suc ?b, cl_live := ?b # cl_live s,
      cl_src2bev := map_insert ip ?b (cl_src2bev s), cl_bev2src := map_insert ?b ip (cl_bev2src s),
      cl_server_msg_buffer := map_insert ?b [] (cl_server_msg_buffer s)\<rparr>"
  have live: "?b \<notin> set (cl_live s)" using assms(2) by (auto simp: inv_defs)
  then have none: "cl_bev2src s ?b = None" "cl_server_msg_buffer s ?b = None"
    using assms(2) by (auto simp: inv_defs dom_def)
  moreover have "cl_bev2src s i \<noteq> Some ip" for i
    using assms(2,3) unfolding inv_defs by (metis option.distinct(1))
  ultimately have "client_inv ?s"
    using assms(2,3) by (auto simp: inv_defs map_insert_def less_Suc_eq)
  then show ?thesis
    using assms(1) unfolding open_conn_def Let_def
    by (auto simp: fault_simps call_eq split: if_splits)
qed

lemma tcp_connect_inv:
  assumes "tcp_connect E tls s ip = Inr (b, s')" and "client_inv s" and "cl_src2bev s ip = None"
  shows "client_inv s'"
  using assms by (elim tcp_connect_cases) (drule open_conn_inv, auto)

lemma draw_key_src2bev: "draw_key E L s q buf = Inr (x, k, s') \<Longrightarrow> cl_src2bev s' = cl_src2bev s"
  by (auto simp: draw_key_def fault_simps)

lemma log_src2bev:
  "log_timing E L (log_query E s q k) buf a = Inr s' \<Longrightarrow> cl_src2bev s' = cl_src2bev s"
  by (auto simp: log_timing_def log_query_def record_message_time_def manager_write_def
      gettimeofday_def call_eq Let_def fault_simps split: if_splits)

lemma send_query_tcp_inv:
  assumes "send_query_tcp E L tls s msg = Inr s'" and "client_inv s"
  shows "client_inv s'"
proof (cases "(of_nat (length (raw msg)) :: u16) = 0")
  case True
  with assms show ?thesis by (simp add: send_query_tcp_def)
next
  case False
  let ?q = "get_query_rr_str L (query_raw msg)"
  from assms(1) False obtain buf key s1 s2 where d: "draw_key E L s ?q (query_raw msg) = Inr (buf, key, s1)"
    and lt: "log_timing E L (log_query E s1 ?q key) buf (src_ip msg) = Inr s2"
    and r: "(\<exists>b m bs. bev_write E m s2 b bs = Inr s') \<or>
      (cl_src2bev s1 (src_ip msg) = None \<and>
       (\<exists>b s3 m bs. tcp_connect E tls s2 (src_ip msg) = Inr (b, s3) \<and> bev_write E m s3 b bs = Inr s'))"
    unfolding send_query_tcp_def Let_def
    by (auto simp: fault_simps split: if_splits option.splits) (blast, metis)
  have "client_inv s2"
    using draw_key_inv [OF d assms(2)] log_query_inv log_timing_inv [OF lt] by blast
  moreover have "cl_src2bev s2 = cl_src2bev s1" using log_src2bev [OF lt] .
  ultimately show ?thesis using r bev_write_inv tcp_connect_inv by metis
qed

lemma udp_socket_inv:
  assumes "udp_socket E s ip = Inr (fd, s')" and "client_inv s" and "socket_ok E"
  shows "client_inv s'"
proof (cases "fd = ce_socket E (cl_tick s) (cl_open s) \<and> fd \<noteq> -1 \<and> map_of (cl_src2udpfd s) ip = None \<and>
    cl_socket_unify s AND SOCKET_UNIFY_UDP = 0")
  case False
  then have "s' = s"
    using assms(1) unfolding udp_socket_def Let_def
    by (auto simp: fault_simps split: if_splits option.splits)
  with assms(2) show ?thesis by simp
next
  case True
  have fresh: "fd \<notin> set (cl_open s)" "0 \<le> fd"
    using True assms(3) unfolding socket_ok_def by metis+
  then have none: "cl_udpfd2src s fd = None" using assms(2) by (auto simp: inv_defs dom_def)
  then have src: "map_of (cl_src2udpfd s) i \<noteq> Some fd" for i
    using assms(2) by (auto simp: inv_defs)
  have s': "cl_open s' = fd # cl_open s" "cl_src2udpfd s' = (ip, fd) # cl_src2udpfd s"
    "cl_udpfd2src s' = (cl_udpfd2src s)(fd \<mapsto> ip)"
    "cl_udp_read_event s' = List.insert fd (cl_udp_read_event s)"
    "cl_src2bev s' = cl_src2bev s" "cl_bev2src s' = cl_bev2src s" "cl_live s' = cl_live s"
    "cl_next_bev s' = cl_next_bev s" "cl_server_msg_buffer s' = cl_server_msg_buffer s"
    "cl_num_pending_event s' = cl_num_pending_event s" "cl_timers s' = cl_timers s"
    "cl_query_table s' = cl_query_table s"
    using assms(1) True none unfolding udp_socket_def Let_def
    by (auto simp: fault_simps call_eq map_insert_def split: if_splits option.splits)
  have "ip \<notin> fst ` set (cl_src2udpfd s)" using True by (simp add: map_of_eq_None_iff)
  then have "udp_inv s'"
    using assms(2) none src fresh True by (auto simp: inv_defs s')
  moreover have "tcp_inv s'" "query_inv s'" using assms(2) by (auto simp: inv_defs s')
  ultimately show ?thesis by (simp add: client_inv_def)
qed

lemma send_query_udp_inv:
  assumes "send_query_udp E L s msg = Inr s'" and "client_inv s" and "socket_ok E"
  shows "client_inv s'"
proof (cases "(of_nat (length (raw msg)) :: u16) = 0")
  case True
  with assms show ?thesis by (simp add: send_query_udp_def)
next
  case False
  let ?q = "get_query_rr_str L (query_raw msg)"
  from assms(1) False obtain buf key s1 fd s2 s3 where
    d: "draw_key E L s ?q (query_raw msg) = Inr (buf, key, s1)"
    and u: "udp_socket E s1 (src_ip msg) = Inr (fd, s2)"
    and c: "call E ''cannot add server udp write event'' (log_query E s2 ?q key) = Inr s3"
    and s': "s' = s3\<lparr>cl_udp_writes := cl_udp_writes s3 @ [(fd, msg\<lparr>f_raw := Some buf\<rparr>)]\<rparr>"
    unfolding send_query_udp_def Let_def by (auto simp: fault_simps)
  have "client_inv (log_query E s2 ?q key)"
    using draw_key_inv [OF d assms(2)] udp_socket_inv [OF u _ assms(3)] log_query_inv by blast
  with c s' show ?thesis by (auto simp: call_eq)
qed

lemma send_query_inv:
  "send_query E L s msg = Inr s' \<Longrightarrow> client_inv s \<Longrightarrow> socket_ok E \<Longrightarrow> client_inv s'"
  unfolding send_query_def gettimeofday_def Let_def prod.case
  by (auto split: if_splits dest!: send_query_tcp_inv send_query_udp_inv)

lemma send_now_inv:
  "send_now E L s msg = Inr s' \<Longrightarrow> client_inv s \<Longrightarrow> socket_ok E \<Longrightarrow> client_inv s'"
  by (auto simp: send_now_def fault_simps dest: send_query_inv)

lemma sync_clock_inv: "sync_clock E s t = Inr s' \<Longrightarrow> client_inv s \<Longrightarrow> client_inv s'"
  by (auto simp: sync_clock_def gettimeofday_def split: if_splits)

lemma add_timer_inv: "add_timer E s tv msg = Inr s' \<Longrightarrow> client_inv s \<Longrightarrow> client_inv s'"
proof -
  have "client_inv (s\<lparr>cl_tick := k, cl_timers := cl_timers s @ [x], cl_num_timer := n,
     cl_num_pending_event := cl_num_pending_event s + 1, cl_num_pending_event_max := m\<rparr>)"
    if "client_inv s" for k x n m
    using that by (auto simp: inv_defs)
  then show "add_timer E s tv msg = Inr s' \<Longrightarrow> client_inv s \<Longrightarrow> client_inv s'"
    by (auto simp: add_timer_def fault_simps call_eq Let_def)
qed

lemma schedule_inv:
  "schedule E L s t msg = Inr s' \<Longrightarrow> client_inv s \<Longrightarrow> socket_ok E \<Longrightarrow> client_inv s'"
  unfolding schedule_def gettimeofday_def Let_def prod.case
  by (auto split: if_splits dest: send_now_inv add_timer_inv)

lemma manager_msg_inv:
  "manager_msg E c L s d = Inr s' \<Longrightarrow> client_inv s \<Longrightarrow> socket_ok E \<Longrightarrow> client_inv s'"
  by (auto simp: manager_msg_def count_query_def Let_def split: if_splits
      dest: sync_clock_inv schedule_inv)

interpretation cl_loop: frame_loop step32 lim32 "manager_msg E c L" "manager_loop E c L" for E c L
proof
  fix b p r s
  show "step32 b = None \<Longrightarrow> manager_loop E c L b s = Inr (s, b)"
    by (subst manager_loop.simps) simp
  show "step32 b = Some (p, r) \<Longrightarrow>
      manager_loop E c L b s = bindE (manager_msg E c L s p) (manager_loop E c L r)"
    by (subst manager_loop.simps) simp
qed

interpretation timing: frame_loop step16 lim16 "\<lambda>s p. record_message_time E L s p src"
  "timing_loop E L src" for E L src
proof
  fix b p r s
  show "step16 b = None \<Longrightarrow> timing_loop E L src b s = Inr (s, b)"
    by (subst timing_loop.simps) simp
  show "step16 b = Some (p, r) \<Longrightarrow>
      timing_loop E L src b s = bindE (record_message_time E L s p src) (timing_loop E L src r)"
    by (subst timing_loop.simps) simp
qed

lemma manager_read_cb_inv:
  assumes "manager_read_cb E c L s d = Inr s'" and "client_inv s" and "socket_ok E"
  shows "client_inv s'"
proof -
  from assms(1) obtain t b ps where "foldE (manager_msg E c L) s ps = Inr t"
    "s' = t\<lparr>cl_msg_buffer := b\<rparr>"
    unfolding manager_read_cb_def cl_loop.loop_foldE by (auto simp: fault_simps)
  moreover from this(1) have "client_inv t"
    using assms(2) by (rule foldE_invariant) (use assms(3) manager_msg_inv in blast)
  ultimately show ?thesis by simp
qed

lemma length_drop_nth: "i < length xs \<Longrightarrow> length (drop_nth i xs) = length xs - 1"
  by (simp add: drop_nth_def)

lemma send_query_helper_inv:
  assumes "send_query_helper E L s i = Inr s'" and "i < length (cl_timers s)" and "client_inv s"
    and "socket_ok E"
  shows "client_inv s'"
proof -
  let ?s = "s\<lparr>cl_timers := drop_nth i (cl_timers s), cl_num_pending_event := cl_num_pending_event s - 1\<rparr>"
  have "of_nat (length (cl_timers s)) - (1 :: u64) = of_nat (length (cl_timers s) - 1)"
    using assms(2) by (simp add: of_nat_diff)
  then have "client_inv ?s"
    using assms(2,3) by (auto simp: inv_defs length_drop_nth)
  then show ?thesis
    using assms(1,4) send_query_inv by (auto simp: send_query_helper_def split: prod.splits)
qed

lemma server_udp_write_cb_inv:
  "server_udp_write_cb E L s fd msg = Inr s' \<Longrightarrow> client_inv s \<Longrightarrow> client_inv s'"
  by (auto simp: server_udp_write_cb_def fault_simps call_eq dest: log_timing_inv)

lemma server_udp_read_cb_inv:
  "server_udp_read_cb E L s fd d = Inr s' \<Longrightarrow> client_inv s \<Longrightarrow> client_inv s'"
  by (auto simp: server_udp_read_cb_def Let_def split: if_splits option.splits
      dest: sendto_manager_inv log_timing_inv)

lemma map_of_filter_key:
  "map_of (filter (\<lambda>x. fst x \<noteq> k) xs) i = (if i = k then None else map_of xs i)"
  by (induction xs) auto

lemma server_udp_read_timeout_cb_inv:
  assumes "client_inv s"
  shows "client_inv (server_udp_read_timeout_cb s fd)"
proof (cases "fd < 0 \<or> cl_udpfd2src s fd = None")
  case True
  moreover have "fd \<in> set (cl_udp_read_event s) \<longleftrightarrow> cl_udpfd2src s fd \<noteq> None"
    using assms unfolding inv_defs dom_def by blast
  ultimately have "server_udp_read_timeout_cb s fd = s"
    by (auto simp: server_udp_read_timeout_cb_def)
  with assms show ?thesis by simp
next
  case False
  then obtain ip where ip: "cl_udpfd2src s fd = Some ip" by auto
  let ?s = "server_udp_read_timeout_cb s fd"
  have mem: "fd \<in> set (cl_udp_read_event s)" using ip assms by (auto simp: inv_defs)
  have s': "cl_open ?s = removeAll fd (cl_open s)"
    "cl_src2udpfd ?s = filter (\<lambda>x. fst x \<noteq> ip) (cl_src2udpfd s)"
    "cl_udpfd2src ?s = (cl_udpfd2src s)(fd := None)"
    "cl_udp_read_event ?s = removeAll fd (cl_udp_read_event s)"
    using ip mem False by (simp_all add: server_udp_read_timeout_cb_def Let_def)
  have inj: "cl_udpfd2src s fd' = Some ip \<longleftrightarrow> fd' = fd" for fd'
    using ip assms unfolding inv_defs by (metis option.inject)
  have "cl_udpfd2src s fd = Some i \<Longrightarrow> i = ip" for i using ip by simp
  then have "udp_inv ?s"
    unfolding udp_inv_def s' map_of_filter_key
    using assms inj by (auto simp: inv_defs distinct_map_filter)
  moreover have "tcp_inv ?s" "query_inv ?s"
    using assms ip mem False by (simp_all add: server_udp_read_timeout_cb_def Let_def inv_defs)
  ultimately show ?thesis by (simp add: client_inv_def)
qed

lemma record_message_time_frame:
  assumes "record_message_time E L s buf a = Inr s'"
  shows "cl_live s' = cl_live s" "cl_server_msg_buffer s' = cl_server_msg_buffer s"
    "cl_output_option s' = cl_output_option s"
  using assms unfolding record_message_time_def manager_write_def gettimeofday_def Let_def
  by (auto simp: fault_simps call_eq split: if_splits)

lemma timing_loop_inv:
  assumes "timing_loop E L src b s = Inr (s', r)" and "client_inv s"
  shows "client_inv s' \<and> cl_live s' = cl_live s"
proof -
  from assms(1) have "foldE (\<lambda>s p. record_message_time E L s p src) s (fst (deframe step16 b)) = Inr s'"
    unfolding timing.loop_foldE by (auto simp: fault_simps)
  then show ?thesis
    by (rule foldE_invariant)
       (use assms(2) in \<open>auto simp: record_message_time_frame(1) intro: record_message_time_inv\<close>)
qed

lemma server_read_cb_inv:
  assumes "server_read_cb E L s b d = Inr s'" and "client_inv s" and "b \<in> set (cl_live s)"
  shows "client_inv s'"
proof -
  have buf: "client_inv t \<Longrightarrow> b \<in> set (cl_live t) \<Longrightarrow>
      client_inv (t\<lparr>cl_server_msg_buffer := (cl_server_msg_buffer t)(b \<mapsto> r)\<rparr>)" for t r
    by (auto simp: inv_defs)
  from assms(1) obtain s1 where
    s1: "(if cl_output_option s AND OUTPUT_TIMING \<noteq> 0
          then let old = (case cl_server_msg_buffer s b of None \<Rightarrow> [] | Some x \<Rightarrow> x);
                   src = (case cl_bev2src s b of None \<Rightarrow> ''0'' | Some ip \<Rightarrow> ip)
               in bindE (timing_loop E L src (old @ d) s) (\<lambda>(s', r).
                    Inr (s'\<lparr>cl_server_msg_buffer := (cl_server_msg_buffer s')(b \<mapsto> r)\<rparr>))
          else Inr s) = Inr s1"
    and s': "(if cl_output_option s1 AND OUTPUT_LATENCY \<noteq> 0
       then if length d < 2 then Inl (Uncaught Bad_alloc)
            else sendto_manager E L s1 (drop 2 d) (length d - 2)
       else Inr s1) = Inr s'"
    unfolding server_read_cb_def bindE_eq_Inr by (elim exE conjE)
  have "client_inv s1"
    using s1 assms(2,3) unfolding Let_def
    by (auto simp: fault_simps split: if_split_asm intro!: buf dest!: timing_loop_inv)
  then show ?thesis using s' by (auto split: if_split_asm dest: sendto_manager_inv)
qed

lemma server_event_cb_inv:
  assumes "server_event_cb s b w = Inr s'" and "client_inv s" and "b \<in> set (cl_live s)"
  shows "client_inv s'"
proof -
  have "b \<in> dom (cl_bev2src s)" using assms(2,3) by (simp add: client_inv_def tcp_inv_def)
  then obtain ip where ip: "cl_bev2src s b = Some ip" by auto
  have uniq: "cl_bev2src s b' = Some ip \<longleftrightarrow> b' = b" for b'
    using ip assms(2) unfolding inv_defs by (metis option.inject)
  have one: "cl_bev2src s b = Some i \<Longrightarrow> i = ip" for i using ip by simp
  have "client_inv (s\<lparr>cl_src2bev := (cl_src2bev s)(ip := None), cl_bev2src := (cl_bev2src s)(b := None),
      cl_server_msg_buffer := (cl_server_msg_buffer s)(b := None), cl_live := removeAll b (cl_live s)\<rparr>)"
    using assms(2) uniq one by (auto simp: inv_defs)
  then show ?thesis
    using assms ip by (auto simp: server_event_cb_def Let_def split: if_splits)
qed

text \<open>Every event keeps the invariant.\<close>

lemma cl_handle_inv:
  assumes "cl_handle E c L s ev = Inr s'" and "client_inv s" and "socket_ok E"
  shows "client_inv s'"
proof (cases ev)
  case (Manager_read d)
  with assms show ?thesis by (auto split: if_splits dest: manager_read_cb_inv)
next
  case (Manager_event w err)
  with assms show ?thesis by (auto simp: manager_event_cb_def Let_def split: if_splits)
next
  case (Timer_fires i)
  with assms show ?thesis by (auto split: if_splits dest: send_query_helper_inv)
next
  case (Udp_writable i)
  with assms show ?thesis
    by (auto simp: server_udp_write_cb_helper_def split: if_splits prod.splits
        dest: server_udp_write_cb_inv)
next
  case (Udp_read fd d)
  with assms show ?thesis by (auto split: if_splits dest: server_udp_read_cb_inv)
next
  case (Udp_timeout fd)
  with assms show ?thesis by (auto split: if_splits intro: server_udp_read_timeout_cb_inv)
next
  case (Server_read b d)
  with assms show ?thesis by (auto split: if_splits dest: server_read_cb_inv)
next
  case (Server_event b w)
  with assms show ?thesis by (auto split: if_splits dest: server_event_cb_inv)
qed

lemma start_inv:
  assumes "DNSClient_new aton c g t ip port fd su opt nw = Inr s0" and "start_setup E s0 = Inr s1"
    and "socket_ok E"
  shows "client_inv s1"
proof -
  have "client_inv s0" using assms(1) by (auto simp: DNSClient_new_def inv_defs split: if_splits)
  moreover have "cl_open s0 = []" "cl_udpfd2src s0 = Map.empty"
    using assms(1) by (auto simp: DNSClient_new_def split: if_splits)
  moreover have "0 \<le> ce_socket E k os \<or> ce_socket E k os = -1" for k os
    using assms(3) unfolding socket_ok_def by metis
  ultimately show ?thesis
    using assms(2) unfolding start_setup_def Let_def
    by (auto simp: fault_simps call_eq split: if_splits) (auto simp: inv_defs)
qed

section \<open>The buffer of the manager's messages\<close>

text \<open>
  The operations do not look at \<open>cl_msg_buffer\<close>, so the buffer kept in the object can be
  threaded through the loop.
\<close>

definition with_buffer :: "bytes \<Rightarrow> client result \<Rightarrow> client result" where
  "with_buffer b r = bindE r (\<lambda>s. Inr (s\<lparr>cl_msg_buffer := b\<rparr>))"

named_theorems buffer_simps \<open>commuting an update of the buffer with the operations\<close>

lemma with_buffer_simps [simp]:
  "with_buffer b (Inr s) = Inr (s\<lparr>cl_msg_buffer := b\<rparr>)"
  "with_buffer b (Inl e) = Inl e"
  "bindE (with_buffer b r) f = bindE r (\<lambda>s. f (s\<lparr>cl_msg_buffer := b\<rparr>))"
  "with_buffer b (bindE x g) = bindE x (\<lambda>a. with_buffer b (g a))"
  by (simp_all add: with_buffer_def bindE_assoc)

lemma tick_buffer:
  "s\<lparr>cl_msg_buffer := b, cl_tick := k\<rparr> = s\<lparr>cl_tick := k\<rparr>\<lparr>cl_msg_buffer := b\<rparr>"
  by simp

lemma call_buffer [buffer_simps]:
  "call E m (s\<lparr>cl_msg_buffer := b\<rparr>) = with_buffer b (call E m s)"
  by (simp add: call_def with_buffer_def)

lemma manager_write_buffer [buffer_simps]:
  "manager_write E m (s\<lparr>cl_msg_buffer := b\<rparr>) bs = with_buffer b (manager_write E m s bs)"
  by (auto simp: manager_write_def call_def with_buffer_def)

lemma record_message_time_buffer [buffer_simps]:
  "record_message_time E L (s\<lparr>cl_msg_buffer := b\<rparr>) buf a = with_buffer b (record_message_time E L s buf a)"
  unfolding record_message_time_def gettimeofday_def Let_def prod.case with_buffer_simps
  by (intro bindE_cong refl) (simp add: tick_buffer manager_write_buffer)

lemma log_timing_buffer [buffer_simps]:
  "log_timing E L (s\<lparr>cl_msg_buffer := b\<rparr>) buf a = with_buffer b (log_timing E L s buf a)"
  by (simp add: log_timing_def record_message_time_buffer with_buffer_def)

lemma log_query_buffer [buffer_simps]:
  "log_query E (s\<lparr>cl_msg_buffer := b\<rparr>) q k = (log_query E s q k)\<lparr>cl_msg_buffer := b\<rparr>"
  by (simp add: log_query_def gettimeofday_def Let_def)

lemma draw_key_buffer [buffer_simps]:
  "draw_key E L (s\<lparr>cl_msg_buffer := b\<rparr>) q buf =
   bindE (draw_key E L s q buf) (\<lambda>(x, k, s'). Inr (x, k, s'\<lparr>cl_msg_buffer := b\<rparr>))"
  by (auto simp: draw_key_def bindE_assoc intro!: bindE_cong)

lemma bev_write_buffer [buffer_simps]:
  "bev_write E m (s\<lparr>cl_msg_buffer := b\<rparr>) d bs = with_buffer b (bev_write E m s d bs)"
  by (auto simp: bev_write_def call_def with_buffer_def)

lemma new_bev_buffer [buffer_simps]:
  "new_bev E tls (s\<lparr>cl_msg_buffer := b\<rparr>) = with_buffer b (new_bev E tls s)"
  by (cases s) (auto simp: new_bev_def get_ssl_ctx_def call_def with_buffer_def Let_def)

lemma open_conn_buffer [buffer_simps]:
  "open_conn E (s\<lparr>cl_msg_buffer := b\<rparr>) ip =
   bindE (open_conn E s ip) (\<lambda>(d, s'). Inr (d, s'\<lparr>cl_msg_buffer := b\<rparr>))"
  by (simp add: open_conn_def call_def Let_def)

lemma tcp_connect_buffer [buffer_simps]:
  "tcp_connect E tls (s\<lparr>cl_msg_buffer := b\<rparr>) ip =
   bindE (tcp_connect E tls s ip) (\<lambda>(d, s'). Inr (d, s'\<lparr>cl_msg_buffer := b\<rparr>))"
  by (auto simp: tcp_connect_def buffer_simps bindE_assoc intro!: bindE_cong)

lemma udp_socket_buffer [buffer_simps]:
  "udp_socket E (s\<lparr>cl_msg_buffer := b\<rparr>) ip =
   bindE (udp_socket E s ip) (\<lambda>(d, s'). Inr (d, s'\<lparr>cl_msg_buffer := b\<rparr>))"
  by (auto simp: udp_socket_def call_def Let_def split: option.splits)

lemma send_query_tcp_buffer [buffer_simps]:
  "send_query_tcp E L tls (s\<lparr>cl_msg_buffer := b\<rparr>) msg = with_buffer b (send_query_tcp E L tls s msg)"
  unfolding send_query_tcp_def Let_def
  by (auto simp: buffer_simps bindE_assoc case_prod_beta intro!: bindE_cong split: option.splits)

lemma send_query_udp_buffer [buffer_simps]:
  "send_query_udp E L (s\<lparr>cl_msg_buffer := b\<rparr>) msg = with_buffer b (send_query_udp E L s msg)"
  unfolding send_query_udp_def Let_def
  by (auto simp: buffer_simps bindE_assoc case_prod_beta intro!: bindE_cong)

lemma send_query_buffer [buffer_simps]:
  "send_query E L (s\<lparr>cl_msg_buffer := b\<rparr>) msg = with_buffer b (send_query E L s msg)"
proof -
  have upd: "s\<lparr>cl_msg_buffer := b, cl_tick := k, cl_shift_ts := t\<rparr> =
      s\<lparr>cl_tick := k, cl_shift_ts := t\<rparr>\<lparr>cl_msg_buffer := b\<rparr>" for k t by simp
  show ?thesis
    unfolding send_query_def gettimeofday_def Let_def prod.case
    by (simp add: upd buffer_simps del: client.update_convs)
qed

lemma send_now_buffer [buffer_simps]:
  "send_now E L (s\<lparr>cl_msg_buffer := b\<rparr>) msg = with_buffer b (send_now E L s msg)"
  by (auto simp: send_now_def buffer_simps intro!: bindE_cong)

lemma add_timer_buffer [buffer_simps]:
  "add_timer E (s\<lparr>cl_msg_buffer := b\<rparr>) t msg = with_buffer b (add_timer E s t msg)"
  by (auto simp: add_timer_def buffer_simps Let_def intro!: bindE_cong)

lemma wait_time_buffer: "wait_time (s\<lparr>cl_msg_buffer := b\<rparr>) = wait_time s"
  by (simp add: wait_time_def fun_eq_iff)

lemma schedule_buffer [buffer_simps]:
  "schedule E L (s\<lparr>cl_msg_buffer := b\<rparr>) t msg = with_buffer b (schedule E L s t msg)"
  unfolding schedule_def gettimeofday_def Let_def prod.case
  by (simp add: tick_buffer buffer_simps wait_time_buffer)

lemma manager_msg_buffer [buffer_simps]:
  "manager_msg E c L (s\<lparr>cl_msg_buffer := b\<rparr>) d = with_buffer b (manager_msg E c L s d)"
proof -
  have "count_query (s\<lparr>cl_msg_buffer := b\<rparr>) = (count_query s)\<lparr>cl_msg_buffer := b\<rparr>"
    by (simp add: count_query_def)
  moreover have "sync_clock E (s\<lparr>cl_msg_buffer := b\<rparr>) t = with_buffer b (sync_clock E s t)" for t
    by (simp add: sync_clock_def gettimeofday_def)
  ultimately show ?thesis by (simp add: manager_msg_def buffer_simps Let_def)
qed

lemma manager_msgs_buffer [buffer_simps]:
  "foldE (manager_msg E c L) (s\<lparr>cl_msg_buffer := b\<rparr>) ps = with_buffer b (foldE (manager_msg E c L) s ps)"
  by (induction ps arbitrary: s) (simp_all add: manager_msg_buffer)

end
