(* ===== verification/Client_Props.thy ===== *)
theory Client_Props
  imports Client
begin

text \<open>
  The properties of a worker: queries are sent at the time of the trace and with the data of
  the trace, its tables stay consistent, an answered query is reported with its latency; and
  the places where the code fails on inputs the network can deliver.
\<close>

section \<open>Keys of pending queries\<close>

lemma to_string_word: "0 \<le> i \<Longrightarrow> is_word (to_string i)"
  using nat_digits_isdigit isdigit_nonspace by (auto simp: to_string_def is_word_def)

lemma words_key: "0 \<le> i \<Longrightarrow> words (to_string i @ CHR '' '' # q) = to_string i # words q"
  using to_string_word [of i]
  by (auto simp: words_def is_word_def stream_tokens_word_sep)

lemma fmt_str_no_tab: "CHR 0x09 \<notin> set (fmt_str s '' '')"
proof -
  have "CHR 0x09 \<notin> set (join '' '' ws)" if "\<forall>w \<in> set ws. CHR 0x09 \<notin> set w" for ws
    using that by (induction ws rule: induct_list012) (auto simp: join_Cons)
  moreover have "\<forall>w \<in> set (words s). CHR 0x09 \<notin> set w"
    using words_are_words [of _ s] isspace_space(2) unfolding is_word_def by blast
  ultimately show ?thesis by (simp add: fmt_str_words)
qed

lemma tail_of_key:
  assumes "0 \<le> i"
  shows "tail_str (str_split (fmt_str (to_string i @ CHR '' '' # q) '' '')) =
    concat (map (\<lambda>w. CHR '' '' # w) (words q))"
proof -
  let ?ws = "to_string i # words q"
  have w: "\<forall>w \<in> set ?ws. is_word w" using to_string_word [OF assms] words_are_words by auto
  then have "stream_tokens (join '' '' ?ws) = ?ws" by (intro stream_tokens_join) simp_all
  moreover have "join '' '' ?ws \<noteq> []" using hd_join [of "to_string i"] to_string_word [OF assms]
    by (auto simp: is_word_def)
  ultimately show ?thesis
    using words_key [OF assms, of q] by (simp add: fmt_str_words str_split_def tail_str_def)
qed

text \<open>A key with a tab is never found, so the first identifier drawn is taken.\<close>

lemma draw_key_first:
  assumes inv: "client_inv s" and rw: "id_rw_ok L buf (ce_rand E (cl_tick s))"
    and len: "2 \<le> length buf" and tab: "CHR 0x09 \<in> set qname"
  shows "draw_key E L s qname buf =
    Inr (ldns_write_uint16 L buf (ce_rand E (cl_tick s)),
         fmt_str (to_string (uint (ce_rand E (cl_tick s))) @ CHR '' '' # qname) '' '',
         s\<lparr>cl_tick := Suc (cl_tick s)\<rparr>)"
proof -
  let ?v = "ce_rand E (cl_tick s)"
  let ?key = "to_string (uint ?v) @ CHR '' '' # qname"
  have "cl_query_table s ?key = None"
  proof (rule ccontr)
    assume "cl_query_table s ?key \<noteq> None"
    then have "fmt_str ?key '' '' = ?key" using inv by (auto simp: inv_defs)
    then show False using fmt_str_no_tab [of ?key] tab by simp
  qed
  then have "pick_id E L (cl_query_table s) qname buf (cl_tick s) =
      Some (Inr (ldns_write_uint16 L buf ?v, ?key, Suc (cl_tick s)))"
    using rw len by (subst pick_id.simps) (simp add: set_random_id_def get_id_def id_rw_ok_def)
  then show ?thesis by (simp add: draw_key_def)
qed

section \<open>What a sent query looks like\<close>

lemma query_raw_short: "length (raw msg) < 2 ^ 16 \<Longrightarrow> query_raw msg = raw msg"
  by (simp add: query_raw_def unat_of_nat)

lemma log_frame:
  assumes "log_timing E L (log_query E s q k) buf a = Inr s'"
  shows "cl_sent_tcp s' = cl_sent_tcp s" "cl_live s' = cl_live s" "cl_next_bev s' = cl_next_bev s"
    "cl_nagle_option s' = cl_nagle_option s"
  using assms
  by (auto simp: log_timing_def log_query_def record_message_time_def manager_write_def
      gettimeofday_def call_eq Let_def fault_simps split: if_splits)

lemma bev_write_Inr:
  "bev_write E m s b bs = Inr s' \<Longrightarrow>
   cl_sent_tcp s' = cl_sent_tcp s @ [(b, bs)] \<and> cl_src2bev s' = cl_src2bev s"
  by (auto simp: bev_write_def fault_simps call_eq split: if_splits)

lemma tcp_connect_Inr:
  assumes "tcp_connect E tls s ip = Inr (b, s')" and "cl_src2bev s ip = None"
  shows "cl_sent_tcp s' = cl_sent_tcp s \<and> cl_src2bev s' = (cl_src2bev s)(ip \<mapsto> b)"
proof -
  obtain x k where "open_conn E (s\<lparr>cl_ssl_ctx := x, cl_tick := k\<rparr>) ip = Inr (b, s')"
    using assms(1) by (elim tcp_connect_cases)
  with assms(2) show ?thesis
    by (auto simp: open_conn_def map_insert_def fault_simps call_eq Let_def split: if_splits)
qed

lemma draw_key_frame:
  assumes "draw_key E L s q buf = Inr (buf', k, s')"
  shows "cl_sent_tcp s' = cl_sent_tcp s" "cl_src2bev s' = cl_src2bev s"
    "cl_udp_writes s' = cl_udp_writes s" "cl_src2udpfd s' = cl_src2udpfd s"
    "cl_socket_unify s' = cl_socket_unify s"
  using assms by (auto simp: draw_key_def fault_simps)

lemma send_query_tcp_Inr:
  assumes "send_query_tcp E L tls s msg = Inr s'" and "length (raw msg) < 2 ^ 16" and "raw msg \<noteq> []"
  obtains buf key s1 b where
    "draw_key E L s (get_query_rr_str L (raw msg)) (raw msg) = Inr (buf, key, s1)"
    "cl_sent_tcp s' = cl_sent_tcp s @ [(b, be16 (of_nat (length (raw msg))) @ buf)]"
    "cl_src2bev s' (src_ip msg) = Some b"
    "cl_src2bev s (src_ip msg) = Some b \<or> cl_src2bev s (src_ip msg) = None"
proof -
  let ?q = "get_query_rr_str L (raw msg)" and ?n = "of_nat (length (raw msg)) :: u16"
  have "unat ?n = length (raw msg)" using assms(2) by (simp add: unat_of_nat)
  then have n: "?n \<noteq> 0" using assms(3) by (metis length_0_conv unat_0)
  from assms(1) n obtain buf key s1 where
    d: "draw_key E L s ?q (raw msg) = Inr (buf, key, s1)"
    and r: "(case cl_src2bev s1 (src_ip msg) of
        Some b \<Rightarrow> bindE (log_timing E L (log_query E s1 ?q key) buf (src_ip msg)) (\<lambda>s2.
            bev_write E ''send_query_tcp: bufferevent_write fails'' s2 b (be16 ?n @ buf))
      | None \<Rightarrow> bindE (log_timing E L (log_query E s1 ?q key) buf (src_ip msg)) (\<lambda>s2.
            bindE (tcp_connect E tls s2 (src_ip msg)) (\<lambda>(b, s3).
            bev_write E ''send_query_tcp_2: bufferevent_write fails'' s3 b (be16 ?n @ buf)))) = Inr s'"
    unfolding send_query_tcp_def Let_def query_raw_short [OF assms(2)]
    by (auto simp: bindE_eq_Inr split: if_split_asm)
  note fr = draw_key_frame [OF d]
  show thesis
  proof (cases "cl_src2bev s1 (src_ip msg)")
    case (Some b)
    with r obtain s2 where l: "log_timing E L (log_query E s1 ?q key) buf (src_ip msg) = Inr s2"
      "bev_write E ''send_query_tcp: bufferevent_write fails'' s2 b (be16 ?n @ buf) = Inr s'"
      by (auto simp: fault_simps)
    have "cl_sent_tcp s2 = cl_sent_tcp s" "cl_src2bev s2 = cl_src2bev s1"
      using log_frame(1) [OF l(1)] log_src2bev [OF l(1)] fr(1) by simp_all
    with bev_write_Inr [OF l(2)] Some fr(2) show thesis using that [OF d, of b] by simp
  next
    case None
    with r obtain s2 b s3 where
      l: "log_timing E L (log_query E s1 ?q key) buf (src_ip msg) = Inr s2"
      "tcp_connect E tls s2 (src_ip msg) = Inr (b, s3)"
      "bev_write E ''send_query_tcp_2: bufferevent_write fails'' s3 b (be16 ?n @ buf) = Inr s'"
      by (auto simp: fault_simps)
    have "cl_src2bev s2 (src_ip msg) = None" using None log_src2bev [OF l(1)] by simp
    then have "cl_sent_tcp s3 = cl_sent_tcp s \<and> cl_src2bev s3 (src_ip msg) = Some b"
      using tcp_connect_Inr [OF l(2)] log_frame(1) [OF l(1)] fr(1) by simp
    with bev_write_Inr [OF l(3)] None fr(2) show thesis using that [OF d, of b] by simp
  qed
qed

section \<open>A concrete worker\<close>

definition demo_env :: cenv where
  "demo_env = \<lparr>ce_now = (\<lambda>k. Timeval 100 (int k mod 1000000)), ce_rand = of_nat,
     ce_socket = (\<lambda>k os. foldr max os 2 + 1), ce_ok = (\<lambda>_. True)\<rparr>"

definition demo_client :: "string \<Rightarrow> u32 \<Rightarrow> client" where
  "demo_client conn opt =
     (projr (DNSClient_new (\<lambda>_. True) conn ''none'' 0 ''10.0.0.1'' 53 3 0 opt False))
       \<lparr>cl_manager_live := True\<rparr>"

lemma demo_new:
  assumes "conn \<in> conn_set"
  shows "DNSClient_new (\<lambda>_. True) conn ''none'' 0 ''10.0.0.1'' 53 3 0 opt False =
      Inr ((demo_client conn opt)\<lparr>cl_manager_live := False\<rparr>)"
    and "start_setup demo_env ((demo_client conn opt)\<lparr>cl_manager_live := False\<rparr>) =
      Inr (demo_client conn opt)"
  using assms by (simp_all add: demo_client_def DNSClient_new_def start_setup_def)

lemma demo_socket_ok: "socket_ok demo_env"
proof -
  have "\<forall>x \<in> set os. x < foldr max os 2 + 1" "0 \<le> foldr max os (2 :: int)" for os
    by (induction os) auto
  then show ?thesis by (fastforce simp: socket_ok_def demo_env_def)
qed

lemma demo_client_inv: "conn \<in> conn_set \<Longrightarrow> client_inv (demo_client conn opt)"
  using start_inv [OF demo_new demo_socket_ok] by blast

definition demo_query :: dnsmsg where
  "demo_query = new_DNSMsg\<lparr>f_raw := Some [9, 9, 0, 0, 0, 1, 0, 0, 0, 0, 0, 0],
     f_src_ip := Some ''a'', f_seconds := Some 7, f_microseconds := Some 0\<rparr>"

section \<open>Properties\<close>

text \<open>
  C19.  A query that is sent over TCP or TLS leaves as one DNS-over-TCP message, the two byte
  length and the query of the trace with only its identifier replaced, on the connection of its
  source address; a connection the source had before is used again.
\<close>

theorem tcp_query_on_the_wire:
  assumes "send_query_tcp E L tls s msg = Inr s'" and "client_inv s"
    and "length (raw msg) < 2 ^ 16" and "2 \<le> length (raw msg)"
    and "id_rw_ok L (raw msg) (ce_rand E (cl_tick s))"
    and "CHR 0x09 \<in> set (get_query_rr_str L (raw msg))"
  shows "\<exists>b q. cl_sent_tcp s' = cl_sent_tcp s @ [(b, frame16 q)] \<and>
     length q = length (raw msg) \<and> drop 2 q = drop 2 (raw msg) \<and>
     get_id L q = Inr (ce_rand E (cl_tick s)) \<and> cl_src2bev s' (src_ip msg) = Some b \<and>
     (cl_src2bev s (src_ip msg) = Some b \<or> cl_src2bev s (src_ip msg) = None)"
proof -
  have "raw msg \<noteq> []" using assms(4) by auto
  then obtain buf key s1 b where d: "draw_key E L s (get_query_rr_str L (raw msg)) (raw msg) = Inr (buf, key, s1)"
    and r: "cl_sent_tcp s' = cl_sent_tcp s @ [(b, be16 (of_nat (length (raw msg))) @ buf)]"
    "cl_src2bev s' (src_ip msg) = Some b"
    "cl_src2bev s (src_ip msg) = Some b \<or> cl_src2bev s (src_ip msg) = None"
    by (rule send_query_tcp_Inr [OF assms(1,3)])
  have "buf = ldns_write_uint16 L (raw msg) (ce_rand E (cl_tick s))"
    using d draw_key_first [OF assms(2,5,4,6)] by simp
  with assms(4,5) have "length buf = length (raw msg)" "drop 2 buf = drop 2 (raw msg)"
    "get_id L buf = Inr (ce_rand E (cl_tick s))"
    by (simp_all add: id_rw_ok_def get_id_def)
  with r show ?thesis by (auto simp: frame16_def)
qed

theorem tcp_query_on_the_wire_witness:
  "let s = demo_client ''tcp'' 0; s' = projr (send_query_tcp demo_env header_ldns True s demo_query)
   in \<exists>b q. cl_sent_tcp s' = cl_sent_tcp s @ [(b, frame16 q)] \<and>
     length q = length (raw demo_query) \<and> drop 2 q = drop 2 (raw demo_query) \<and>
     get_id header_ldns q = Inr (ce_rand demo_env (cl_tick s)) \<and>
     cl_src2bev s' (src_ip demo_query) = Some b \<and>
     (cl_src2bev s (src_ip demo_query) = Some b \<or> cl_src2bev s (src_ip demo_query) = None)"
proof -
  let ?s = "demo_client ''tcp'' 0"
  have len: "length (raw demo_query) = 12" by (simp add: demo_query_def raw_def)
  have inv: "client_inv ?s" by (rule demo_client_inv) (simp add: conn_set_def)
  have rr: "get_query_rr_str header_ldns (raw demo_query) = ''a.'' @ [CHR 0x09] @ ''IN'' @ [CHR 0x09] @ ''A'' @ [CHR 0x0A]"
    by (simp add: get_query_rr_str_def header_ldns_def demo_query_def raw_def rd16_def)
  then have tab: "CHR 0x09 \<in> set (get_query_rr_str header_ldns (raw demo_query))" by simp
  have rw: "id_rw_ok header_ldns (raw demo_query) (ce_rand demo_env (cl_tick ?s))"
    by (rule header_ldns_rw) (simp add: len)
  have s: "cl_src2bev ?s = Map.empty" "cl_output_option ?s = 0" "cl_nagle_option ?s = ''none''"
    by (simp_all add: demo_client_def DNSClient_new_def conn_set_def)
  have d: "draw_key demo_env header_ldns ?s (get_query_rr_str header_ldns (raw demo_query)) (raw demo_query) =
      Inr (x, k, t) \<Longrightarrow> cl_src2bev t = Map.empty \<and> cl_output_option t = 0 \<and> cl_nagle_option t = ''none''" for x k t
    using s by (auto simp: draw_key_def fault_simps)
  have "\<exists>s'. send_query_tcp demo_env header_ldns True ?s demo_query = Inr s'"
    using draw_key_first [OF inv rw _ tab] s len
    by (simp add: send_query_tcp_def query_raw_short Let_def log_timing_def log_query_def
        tcp_connect_def new_bev_def get_ssl_ctx_def open_conn_def call_def bev_write_def demo_env_def)
  then obtain s' where "send_query_tcp demo_env header_ldns True ?s demo_query = Inr s'" by blast
  with tcp_query_on_the_wire [OF this inv _ _ rw tab] len show ?thesis by simp
qed

text \<open>
  C18.  A query is sent at its place in the trace: if its time, measured from the start of the
  trace, has not passed when it is read, a timer is set such that the time of the reading plus
  the wait is the start of the replay plus the offset in the trace, to the microsecond; if it
  has passed, the query is sent at once.
\<close>

theorem query_scheduled_at_trace_time:
  assumes "\<not> sync_time (ParseFromArray c d)" and "timerisset (cl_start_trace_ts s)"
    and "\<not> cl_non_wait s" and "msg = ParseFromArray c d"
    and "q_ts = Timeval (seconds msg) (microseconds msg)"
    and "normal q_ts" and "normal (cl_start_trace_ts s)" and "normal (cl_start_real_ts s)"
    and "\<forall>k. normal (ce_now E k)" and "\<forall>k. ce_ok E k"
    and "deadline = usecs (cl_start_real_ts s) + (usecs q_ts - usecs (cl_start_trace_ts s))"
    and "now = ce_now E (Suc (cl_tick s))" and "usecs (ce_now E (cl_tick s)) \<le> usecs now"
  shows "(usecs now \<le> deadline \<longrightarrow>
      (\<exists>s' tv n. manager_msg E c L s d = Inr s' \<and> cl_timers s' = cl_timers s @ [(tv, msg, n)] \<and>
         normal tv \<and> 0 \<le> usecs tv \<and> usecs now + usecs tv = deadline)) \<and>
    (deadline < usecs now \<longrightarrow>
      (\<exists>t. manager_msg E c L s d = send_now E L t msg \<and> cl_timers t = cl_timers s))"
proof -
  let ?s = "(count_query s)\<lparr>cl_tick := Suc (Suc (cl_tick s))\<rparr>"
  have c: "cl_start_trace_ts (count_query s) = cl_start_trace_ts s"
    "cl_start_real_ts (count_query s) = cl_start_real_ts s" "cl_non_wait (count_query s) = cl_non_wait s"
    "cl_tick (count_query s) = cl_tick s" "cl_timers (count_query s) = cl_timers s"
    by (simp_all add: count_query_def)
  have w: "usecs (wait_time t q_ts x) = deadline - usecs x" "normal x \<Longrightarrow> normal (wait_time t q_ts x)"
    if "cl_start_trace_ts t = cl_start_trace_ts s" "cl_start_real_ts t = cl_start_real_ts s" for t x
    using that assms(6-8,11) by (simp_all add: wait_time_def)
  have neg: "tv_sec (wait_time t q_ts (ce_now E k)) < 0 \<longleftrightarrow> deadline < usecs (ce_now E k)"
    if "cl_start_trace_ts t = cl_start_trace_ts s" "cl_start_real_ts t = cl_start_real_ts s" for t k
    using w [OF that] assms(9) by (simp add: normal_negative)
  have m: "manager_msg E c L s d = schedule E L (count_query s) q_ts msg"
    using assms(1,2,4,5) by (simp add: manager_msg_def Let_def)
  show ?thesis
  proof (intro conjI impI)
    assume le: "usecs now \<le> deadline"
    then have "schedule E L (count_query s) q_ts msg = add_timer E ?s (wait_time ?s q_ts now) msg"
      using assms(3,12,13) neg
      by (auto simp: schedule_def gettimeofday_def Let_def c)
    then show "\<exists>s' tv n. manager_msg E c L s d = Inr s' \<and> cl_timers s' = cl_timers s @ [(tv, msg, n)] \<and>
         normal tv \<and> 0 \<le> usecs tv \<and> usecs now + usecs tv = deadline"
      using w [of ?s now] assms(9,10,12) le by (simp add: m add_timer_def call_def c Let_def)
  next
    assume "deadline < usecs now"
    then show "\<exists>t. manager_msg E c L s d = send_now E L t msg \<and> cl_timers t = cl_timers s"
      using assms(3,12) neg
      by (auto simp: m schedule_def gettimeofday_def Let_def c)
  qed
qed

theorem query_scheduled_at_trace_time_witness:
  "let s = (demo_client ''udp'' 0)\<lparr>cl_start_trace_ts := Timeval 5 0, cl_start_real_ts := Timeval 99 0,
         cl_tick := 0, cl_non_wait := False\<rparr>;
       c = table_pb [demo_query]; msg = demo_query; now = ce_now demo_env (Suc 0); deadline = 101000000
   in (usecs now \<le> deadline \<longrightarrow>
      (\<exists>s' tv n. manager_msg demo_env c header_ldns s [0] = Inr s' \<and>
         cl_timers s' = cl_timers s @ [(tv, msg, n)] \<and>
         normal tv \<and> 0 \<le> usecs tv \<and> usecs now + usecs tv = deadline)) \<and>
    (deadline < usecs now \<longrightarrow>
      (\<exists>t. manager_msg demo_env c header_ldns s [0] = send_now demo_env header_ldns t msg \<and>
         cl_timers t = cl_timers s))"
proof -
  show ?thesis
    unfolding Let_def
    by (rule query_scheduled_at_trace_time [where q_ts = "Timeval 7 0"])
       (simp_all add: table_pb_def demo_query_def new_DNSMsg_def dnsmsg_accessors timerisset_def
          normal_def usecs_def demo_env_def)
qed

text \<open>
  C15.  The tables of a worker stay consistent under every sequence of events: the two maps
  between source addresses and UDP sockets are inverse to each other and list exactly the
  sockets with a read event, the two maps between source addresses and connections are inverse
  to each other and cover exactly the live connections and their receive buffers, the count of
  pending events is the number of timers, and the keys of pending queries are normalised.
\<close>

theorem worker_tables_consistent:
  assumes "DNSClient_new aton conn nagle t ip port fd su opt nw = Inr s0"
    and "start_setup E s0 = Inr s1" and "socket_ok E" and "foldE (cl_handle E c L) s1 evs = Inr s"
  shows "client_inv s"
  by (rule foldE_invariant [where P = client_inv, OF assms(4) start_inv [OF assms(1-3)]])
     (use cl_handle_inv assms(3) in blast)

theorem worker_tables_consistent_witness:
  "client_inv (demo_client ''udp'' 1)"
proof -
  have c: "''udp'' \<in> conn_set" by (simp add: conn_set_def)
  show ?thesis
    by (rule worker_tables_consistent [OF demo_new [OF c] demo_socket_ok,
          where evs = "[Udp_timeout 3, Server_event 0 BEV_EVENT_EOF]" and c = "table_pb []" and L = header_ldns])
       (simp add: demo_client_def DNSClient_new_def conn_set_def)
qed

text \<open>
  A query and the response to it.  Whatever has happened since the query was logged, as long as its
  entry is still the one that was made then: when a response carries the identifier that was drawn
  and the same question, the worker reports the time between sending and receiving with the
  words of the question, and the query is no longer pending; the other pending queries stay.
\<close>

lemma answered_query_reported:
  assumes "client_inv s" and "CHR 0x09 \<in> set qname" and "2 \<le> length buf"
    and "id_rw_ok L buf (ce_rand E (cl_tick s))" and "cl_output_option s AND OUTPUT_LATENCY \<noteq> 0"
    and "draw_key E L s qname buf = Inr (buf', key, s1)"
    and "cl_query_table s2 key = cl_query_table (log_query E s1 qname key) key"
    and "cl_manager_live s2" and "\<forall>k. ce_ok E k"
    and "get_id L resp = get_id L buf'" and "get_query_rr_str L (take n resp) = qname"
    and "latency = timersub (ce_now E (cl_tick s2)) (ce_now E (cl_tick s + 1))"
  shows "\<exists>s'. sendto_manager E L s2 resp n = Inr s' \<and>
     cl_query_table s' = (cl_query_table s2)(key := None) \<and>
     cl_to_manager s' = cl_to_manager s2 @
       str_bytes (to_string (tv_sec latency) @ '' '' @ to_string (tv_usec latency) @
                  concat (map (\<lambda>w. CHR '' '' # w) (words qname)) @ [CHR 0x0A]) @ [0]"
proof -
  let ?v = "ce_rand E (cl_tick s)"
  note first = draw_key_first [OF assms(1,4,3,2)]
  have b: "buf' = ldns_write_uint16 L buf ?v" and s1: "s1 = s\<lparr>cl_tick := Suc (cl_tick s)\<rparr>"
    and key: "key = fmt_str (to_string (uint ?v) @ CHR '' '' # qname) '' ''"
    using first assms(6) by simp_all
  have id: "get_id L resp = Inr ?v"
    using assms(3,4,10) b by (simp add: get_id_def id_rw_ok_def)
  have ne: "qname \<noteq> []" using assms(2) by auto
  have lq: "cl_query_table s2 key = Some (ce_now E (cl_tick s + 1))"
    using assms(5,7) ne by (simp add: log_query_def gettimeofday_def s1 Let_def)
  have tl: "tail_str (str_split key) = concat (map (\<lambda>w. CHR '' '' # w) (words qname))"
    unfolding key by (rule tail_of_key) simp
  have k2: "fmt_str (to_string (uint ?v) @ '' '' @ qname) '' '' = key" by (simp add: key)
  show ?thesis
    unfolding sendto_manager_def gettimeofday_def prod.case Let_def id bindE_Inr assms(11) k2
    using assms(8,9,12) tl lq by (simp add: manager_write_def call_def)
qed

text \<open>
  C31.  A new query whose identifier and question equal those of a pending query takes its
  place: the search for a free identifier looks up the key before it is normalised, and the
  table holds normalised keys, so the collision is not seen and the time of the pending query
  is overwritten.
\<close>

theorem id_collision_overwrites:
  assumes "client_inv s" and "CHR 0x09 \<in> set qname" and "2 \<le> length buf"
    and "id_rw_ok L buf (ce_rand E (cl_tick s))"
    and "cl_output_option s AND OUTPUT_LATENCY \<noteq> 0"
    and "key = fmt_str (to_string (uint (ce_rand E (cl_tick s))) @ '' '' @ qname) '' ''"
    and "cl_query_table s key = Some sent"
  shows "\<exists>buf' s1. draw_key E L s qname buf = Inr (buf', key, s1) \<and>
     cl_query_table (log_query E s1 qname key) =
       (cl_query_table s)(key \<mapsto> ce_now E (cl_tick s + 1))"
proof -
  have "qname \<noteq> []" using assms(2) by auto
  then show ?thesis
    using draw_key_first [OF assms(1,4,3,2)] assms(5,6)
    by (simp add: log_query_def gettimeofday_def Let_def)
qed

definition pending_client :: client where
  "pending_client = (demo_client ''udp'' 1)\<lparr>cl_query_table := [''0 a. IN A'' \<mapsto> Timeval 1 2], cl_tick := 0\<rparr>"

definition demo_rr :: string where
  "demo_rr = ''a.'' @ [CHR 0x09] @ ''IN'' @ [CHR 0x09] @ ''A'' @ [CHR 0x0A]"

lemma pending_client_inv: "client_inv pending_client"
proof -
  have "client_inv (demo_client ''udp'' 1)" by (rule demo_client_inv) (simp add: conn_set_def)
  moreover have "fmt_str ''0 a. IN A'' '' '' = ''0 a. IN A''" by code_simp
  ultimately show ?thesis by (auto simp: pending_client_def inv_defs)
qed

lemma pending_client_fields:
  "cl_tick pending_client = 0" "cl_output_option pending_client = 1" "cl_manager_live pending_client"
  "CHR 0x09 \<in> set demo_rr" "cl_query_table pending_client = [''0 a. IN A'' \<mapsto> Timeval 1 2]"
  by (simp_all add: pending_client_def demo_client_def DNSClient_new_def conn_set_def demo_rr_def)

theorem id_collision_overwrites_witness:
  "\<exists>buf' s1. draw_key demo_env header_ldns pending_client demo_rr [0, 0] = Inr (buf', ''0 a. IN A'', s1) \<and>
     cl_query_table (log_query demo_env s1 demo_rr ''0 a. IN A'') =
       (cl_query_table pending_client)(''0 a. IN A'' \<mapsto> ce_now demo_env (cl_tick pending_client + 1))"
proof (rule id_collision_overwrites [OF pending_client_inv, where sent = "Timeval 1 2"])
  have "''0 a. IN A'' = fmt_str (to_string 0 @ '' '' @ demo_rr) '' ''" by code_simp
  then show "''0 a. IN A'' =
      fmt_str (to_string (uint (ce_rand demo_env (cl_tick pending_client))) @ '' '' @ demo_rr) '' ''"
    by (simp add: pending_client_fields demo_env_def)
qed (simp_all add: pending_client_fields header_ldns_rw OUTPUT_LATENCY_def)

lemma answered_query_reported_instance:
  "let L = header_ldns; E = demo_env; s = pending_client;
       q = [0, 0, 0, 0, 0, 1, 0, 0, 0, 0, 0, 0];
       key = fmt_str (to_string (uint (ce_rand E 0)) @ '' '' @ demo_rr) '' '';
       latency = timersub (ce_now E (cl_tick s + 2)) (ce_now E (cl_tick s + 1))
   in \<exists>s'. sendto_manager E L (log_query E (s\<lparr>cl_tick := Suc 0\<rparr>) demo_rr key) q 12 = Inr s' \<and>
     cl_query_table s' = (cl_query_table (log_query E (s\<lparr>cl_tick := Suc 0\<rparr>) demo_rr key))(key := None) \<and>
     cl_to_manager s' = cl_to_manager (log_query E (s\<lparr>cl_tick := Suc 0\<rparr>) demo_rr key) @
       str_bytes (to_string (tv_sec latency) @ '' '' @ to_string (tv_usec latency) @
                  concat (map (\<lambda>w. CHR '' '' # w) (words demo_rr)) @ [CHR 0x0A]) @ [0]"
proof -
  let ?q = "[0, 0, 0, 0, 0, 1, 0, 0, 0, 0, 0, 0] :: bytes"
  have rw: "id_rw_ok header_ldns ?q (ce_rand demo_env (cl_tick pending_client))"
    by (rule header_ldns_rw) simp
  have d: "draw_key demo_env header_ldns pending_client demo_rr ?q =
      Inr (ldns_write_uint16 header_ldns ?q 0,
        fmt_str (to_string (uint (ce_rand demo_env 0)) @ '' '' @ demo_rr) '' '',
        pending_client\<lparr>cl_tick := Suc 0\<rparr>)"
    using draw_key_first [OF pending_client_inv rw _ pending_client_fields(4)]
    by (simp add: pending_client_fields demo_env_def)
  show ?thesis
    unfolding Let_def
    by (rule answered_query_reported [OF pending_client_inv pending_client_fields(4) _ rw _ d refl])
       (simp_all add: log_query_def gettimeofday_def Let_def pending_client_fields OUTPUT_LATENCY_def demo_env_def header_ldns_def get_id_def
          be16_def get_query_rr_str_def rd16_def demo_rr_def)
qed

text \<open>
  C32.  A worker that collects the times of TCP responses stops cutting messages off when its
  buffer holds exactly two bytes more than a 16 bit length can say: the number of bytes left
  wraps to zero, and a complete message at the front is taken for an incomplete one.
\<close>

theorem tcp_buffer_length_wraps:
  assumes "p \<noteq> []" and "length p < 2 ^ 16" and "length (frame16 p @ rest) = 2 ^ 16 + 2"
  shows "timing_loop E L src (frame16 p @ rest) s = Inr (s, frame16 p @ rest)"
proof -
  let ?b = "frame16 p @ rest"
  have len: "len16 ?b = length p" using assms(2) by (rule len16_frame16)
  have z: "(of_nat (2 ^ 16 + 2 - 2) :: u16) = 0" by simp
  have "0 < rd16 (?b ! 0) (?b ! 1)"
    using len assms(1) by (simp add: len16_def word_gt_0) auto
  then have "step16 ?b = None" unfolding step16_def Let_def assms(3) z by simp
  then show ?thesis by (subst timing_loop.simps) simp
qed

theorem tcp_buffer_length_wraps_witness:
  "timing_loop demo_env header_ldns ''a'' (frame16 [1] @ replicate 65535 0) pending_client =
   Inr (pending_client, frame16 [1] @ replicate 65535 0)"
  by (rule tcp_buffer_length_wraps) simp_all

text \<open>
  C33.  A query of 65534 or 65535 bytes sent over TCP is copied past the end of the buffer,
  because the length of the buffer, computed with 16 bits, wraps around.
\<close>

theorem tcp_query_length_wraps:
  assumes "draw_key E L s (get_query_rr_str L (raw msg)) (raw msg) = Inr (buf, key, s1)"
    and "length (raw msg) < 2 ^ 16" and "65534 \<le> length (raw msg)"
  shows "send_query_tcp E L tls s msg = Inl (Undefined ''send_query_tcp: write past the buffer'')"
proof -
  let ?n = "of_nat (length (raw msg)) :: u16"
  have u: "unat ?n = length (raw msg)" using assms(2) by (simp add: unat_of_nat)
  then have "?n \<noteq> 0" using assms(3) by (metis not_numeral_le_zero unat_0)
  moreover have "unat (?n + 2) < unat ?n + 2"
    using u assms(3) by (simp add: unat_word_ariths)
  ultimately show ?thesis
    using assms(1) by (simp add: send_query_tcp_def Let_def query_raw_short [OF assms(2)])
qed

theorem tcp_query_length_wraps_witness:
  "let msg = new_DNSMsg\<lparr>f_raw := Some (replicate 65534 0)\<rparr>
   in send_query_tcp demo_env (header_ldns\<lparr>ldns_wire2pkt := \<lambda>b. None\<rparr>) False pending_client msg =
      Inl (Undefined ''send_query_tcp: write past the buffer'')"
proof -
  let ?msg = "new_DNSMsg\<lparr>f_raw := Some (replicate 65534 0)\<rparr>" and ?L = "header_ldns\<lparr>ldns_wire2pkt := \<lambda>b. None\<rparr>"
  have raw: "raw ?msg = replicate 65534 0" by (simp add: raw_def)
  have rr: "get_query_rr_str ?L (raw ?msg) = []" by (simp add: get_query_rr_str_def)
  have "\<exists>x. draw_key demo_env ?L pending_client [] (raw ?msg) = Inr x"
    unfolding draw_key_def
    by (subst pick_id.simps)
       (simp add: raw set_random_id_def get_id_def pending_client_fields header_ldns_def to_string_def
          rd16_def be16_def demo_env_def nat_digits.simps)
  then obtain x k s1 where "draw_key demo_env ?L pending_client (get_query_rr_str ?L (raw ?msg)) (raw ?msg) =
      Inr (x, k, s1)" unfolding rr by auto
  then show ?thesis unfolding Let_def by (rule tcp_query_length_wraps) (simp_all add: raw)
qed

text \<open>
  With latencies asked for, a read that delivers a single byte of a TCP response ends the
  worker: the length less two wraps around and the allocation fails.
\<close>

lemma one_byte_read_ends_worker:
  assumes "cl_output_option s AND OUTPUT_LATENCY \<noteq> 0"
    and "cl_output_option s AND OUTPUT_TIMING = 0" and "b \<in> set (cl_live s)"
  shows "cl_handle E c L s (Server_read b [x]) = Inl (Uncaught Bad_alloc)"
  using assms by (simp add: server_read_cb_def)

lemma one_byte_read_ends_worker_instance:
  "cl_handle demo_env (table_pb []) header_ldns (pending_client\<lparr>cl_live := [0], cl_output_option := 1\<rparr>)
     (Server_read 0 [0]) = Inl (Uncaught Bad_alloc)"
  by (rule one_byte_read_ends_worker) (simp_all add: OUTPUT_LATENCY_def OUTPUT_TIMING_def)

text \<open>
  When the manager closes its socket, the worker frees the manager's bufferevent and, at
  the end of the event loop, frees it again.
\<close>

lemma manager_close_frees_twice:
  assumes "start_setup E sa = Inr sb" and "foldE (cl_handle E c L) sb evs = Inr t"
    and "cl_manager_live t"
  shows "start E c L sa (evs @ [Manager_event BEV_EVENT_EOF err]) =
    Inl (Undefined ''bufferevent freed twice'')"
  using assms
  by (simp add: start_def foldE_append manager_event_cb_def BEV_EVENT_EOF_def BEV_EVENT_CONNECTED_def
      BEV_EVENT_ERROR_def BEV_EVENT_TIMEOUT_def)

lemma manager_close_frees_twice_instance:
  "start demo_env (table_pb []) header_ldns ((demo_client ''udp'' 1)\<lparr>cl_manager_live := False\<rparr>)
     ([] @ [Manager_event BEV_EVENT_EOF []]) = Inl (Undefined ''bufferevent freed twice'')"
proof -
  have c: "''udp'' \<in> conn_set" by (simp add: conn_set_def)
  show ?thesis
    by (rule manager_close_frees_twice [where t = "demo_client ''udp'' 1", OF demo_new(2) [OF c]])
       (simp_all add: demo_client_def DNSClient_new_def conn_set_def)
qed

end
