(* ===== verification/Client_Main.thy ===== *)
theory Client_Main
  imports Client_Props Manager "HOL-Library.Multiset"
begin

text \<open>
  The main function of the replay client (\<^verbatim>\<open>main.cc\<close>): it reads and checks the command line, makes
  a socket pair per worker, forks the workers and the manager and waits for them.  The options are
  given as \<^verbatim>\<open>getopt_long\<close> returns them; the operating system is the record \<open>cm_env\<close>.  The processes
  are represented by the objects they construct; what they do from there on is \<^const>\<open>start\<close> of the
  worker and \<^const>\<open>main_event_loop\<close> and \<^const>\<open>read_input_file\<close> of the manager.  The theorems say that a
  command line that passes the checks starts one worker per socket pair, wired to the manager's
  end of the same pair, and that the number of workers 0 passes the checks.
\<close>

unbundle bit_operations_syntax

section \<open>Options\<close>

definition SOCKET_UNIFY_NONE :: u32 where "SOCKET_UNIFY_NONE = 0"
definition SOCKET_UNIFY_TCP :: u32 where "SOCKET_UNIFY_TCP = 2"
definition OUTPUT_NONE :: u32 where "OUTPUT_NONE = 0"

record 'r client_args =
  ca_server_ip :: string
  ca_command_ip :: string
  ca_input_file :: string
  ca_input_format :: string
  ca_output_file :: string
  ca_output_format :: string
  ca_conn_type :: string
  ca_nagle :: string
  ca_dist :: bool
  ca_non_wait :: bool
  ca_server_port :: int
  ca_command_port :: int
  ca_trace_limit :: int
  ca_time_out :: int
  ca_num_clients :: u32
  ca_socket_unify :: u32
  ca_query_pace :: 'r
  ca_verbose :: bool

text \<open>\<open>cores\<close> is \<^verbatim>\<open>thread::hardware_concurrency()\<close>.\<close>

definition client_args0 :: "'r dbl \<Rightarrow> u32 \<Rightarrow> 'r client_args" where
  "client_args0 F cores = \<lparr>ca_server_ip = [], ca_command_ip = [], ca_input_file = [], ca_input_format = [],
     ca_output_file = [], ca_output_format = [], ca_conn_type = ''adaptive'', ca_nagle = [],
     ca_dist = False, ca_non_wait = False, ca_server_port = -1, ca_command_port = -1,
     ca_trace_limit = -1, ca_time_out = 30, ca_num_clients = cores,
     ca_socket_unify = SOCKET_UNIFY_NONE, ca_query_pace = dbl_of_int F (-1), ca_verbose = False\<rparr>"

text \<open>An address and a port, as \<^verbatim>\<open>-r\<close> and \<^verbatim>\<open>-s\<close> take them.\<close>

definition addr_port :: "string \<Rightarrow> (string \<times> int) result" where
  "addr_port arg =
     bindE (str_split_two arg CHR '':'') (\<lambda>(ip, tmp).
     bindE (check_gt0 tmp) (\<lambda>_.
     bindE (uncaught (stoi tmp)) (\<lambda>port. Inr (ip, port))))"

definition client_option ::
    "(string \<Rightarrow> cpp_exception + 'r) \<Rightarrow> 'r client_args \<Rightarrow> getopt_code \<times> string \<Rightarrow> 'r client_args result" where
  "client_option stod a x =
     (case x of (opt, arg) \<Rightarrow>
        if opt = Short CHR ''c'' then Inr (a\<lparr>ca_conn_type := str_tolower arg\<rparr>)
        else if opt = Short CHR ''g'' then Inr (a\<lparr>ca_nagle := str_tolower arg\<rparr>)
        else if opt = Short CHR ''i'' then
          (if CHR '':'' \<notin> set arg then Inl (Exit 1 ''incorrect input format'')
           else Inr (a\<lparr>ca_input_format := takeWhile (\<lambda>x. x \<noteq> CHR '':'') arg,
                       ca_input_file := tl (dropWhile (\<lambda>x. x \<noteq> CHR '':'') arg)\<rparr>))
        else if opt = Short CHR ''l'' then bindE (atoi arg) (\<lambda>n. Inr (a\<lparr>ca_trace_limit := n\<rparr>))
        else if opt = Short CHR ''n'' then
          bindE (check_gt0 arg) (\<lambda>_. bindE (atoi arg) (\<lambda>n. Inr (a\<lparr>ca_num_clients := word_of_int n\<rparr>)))
        else if opt = Short CHR ''o'' then
          (if CHR '':'' \<notin> set arg then Inl (Exit 1 ''incorrect output format'')
           else Inr (a\<lparr>ca_output_format := takeWhile (\<lambda>x. x \<noteq> CHR '':'') arg,
                       ca_output_file := tl (dropWhile (\<lambda>x. x \<noteq> CHR '':'') arg)\<rparr>))
        else if opt = Short CHR ''p'' then bindE (uncaught (stod arg)) (\<lambda>d. Inr (a\<lparr>ca_query_pace := d\<rparr>))
        else if opt = Short CHR ''r'' then
          bindE (addr_port arg) (\<lambda>(ip, port). Inr (a\<lparr>ca_command_ip := ip, ca_command_port := port\<rparr>))
        else if opt = Short CHR ''s'' then
          bindE (addr_port arg) (\<lambda>(ip, port). Inr (a\<lparr>ca_server_ip := ip, ca_server_port := port\<rparr>))
        else if opt = Short CHR ''t'' then
          bindE (check_gt0 arg) (\<lambda>_. bindE (atoi arg) (\<lambda>n. Inr (a\<lparr>ca_time_out := n\<rparr>)))
        else if opt = Short CHR ''d'' then Inr (a\<lparr>ca_dist := True\<rparr>)
        else if opt = Short CHR ''f'' then Inr (a\<lparr>ca_non_wait := True\<rparr>)
        else if opt = Short CHR ''u'' then Inr (a\<lparr>ca_socket_unify := ca_socket_unify a OR SOCKET_UNIFY_UDP\<rparr>)
        else if opt = Short CHR ''v'' then Inr (a\<lparr>ca_verbose := True\<rparr>)
        else if opt = Short CHR ''V'' then Inl (Exit 0 ''version'')
        else Inl (Exit 1 ''usage''))"

text \<open>The checks after the options; the result is the output option.\<close>

definition client_check :: "'r client_args \<Rightarrow> u32 result" where
  "client_check a =
     bindE (check_set (ca_conn_type a) conn_set) (\<lambda>_.
     bindE (check_str (ca_server_ip a)) (\<lambda>_.
     bindE (check_int (ca_server_port a)) (\<lambda>_.
     bindE (if ca_time_out a < 0 then Inl (Exit 1 ''time_out must be >=0'') else Inr ()) (\<lambda>_.
     bindE (if ca_dist a
            then bindE (check_str (ca_command_ip a)) (\<lambda>_. check_int (ca_command_port a))
            else bindE (check_str2 (ca_input_format a) (ca_input_file a)) (\<lambda>_.
                   check_map (ca_input_format a) input_src_map)) (\<lambda>_.
     bindE (check_set (ca_nagle a) {''disable'', ''enable'', []}) (\<lambda>_.
     bindE (if ca_output_file a \<noteq> [] then
              (if ca_output_format a = ''latency'' then Inr OUTPUT_LATENCY
               else if ca_output_format a = ''timing'' then Inr OUTPUT_TIMING
               else Inl (Exit 1 ''output format must be either latency or timing''))
            else Inr OUTPUT_NONE) (\<lambda>output_option.
       if ca_socket_unify a AND SOCKET_UNIFY_TCP \<noteq> 0
       then Inl (Exit 1 ''unified TCP socket reuse has NOT been implemented'')
       else Inr output_option)))))))"

section \<open>The processes\<close>

text \<open>
  \<open>cm_socketpair i\<close> is the outcome of the \<open>i\<close>-th \<^verbatim>\<open>socketpair\<close>, \<open>cm_fork i\<close> what the \<open>i\<close>-th
  \<^verbatim>\<open>fork\<close> returns to the parent; the last one forks the manager.
\<close>

record 'r cm_env =
  cm_dbl :: "'r dbl"
  cm_stod :: "string \<Rightarrow> cpp_exception + 'r"
  cm_input :: input_env
  cm_aton :: "string \<Rightarrow> bool"
  cm_rand :: "nat \<Rightarrow> nat"
  cm_cores :: u32
  cm_socketpair :: "nat \<Rightarrow> (int \<times> int) option"
  cm_fork :: "nat \<Rightarrow> int"

fun socket_pairs :: "'r cm_env \<Rightarrow> nat list \<Rightarrow> (int \<times> int) list result" where
  "socket_pairs E [] = Inr []"
| "socket_pairs E (i # is) =
     (case cm_socketpair E i of
        None \<Rightarrow> Inl (Exit 1 ''socketpair'')
      | Some skt \<Rightarrow> bindE (socket_pairs E is) (\<lambda>ps. Inr (skt # ps)))"

fun fork_workers :: "'r cm_env \<Rightarrow> nat list \<Rightarrow> int list result" where
  "fork_workers E [] = Inr []"
| "fork_workers E (i # is) =
     (if cm_fork E i < 0 then Inl (Exit 1 ''fork'')
      else bindE (fork_workers E is) (\<lambda>pids. Inr (cm_fork E i # pids)))"

text \<open>
  \<^verbatim>\<open>socketpair\<close> connects two descriptors: what is written to one is read from the other.  \<open>peer\<close> is the
  other end of a descriptor, \<open>received_on\<close> what a process reads on a descriptor when another process
  has made the writes \<open>w\<close>.
\<close>

definition peer :: "(int \<times> int) list \<Rightarrow> int \<rightharpoonup> int" where
  "peer pairs = map_of (pairs @ map prod.swap pairs)"

definition received_on :: "(int \<times> int) list \<Rightarrow> int writes \<Rightarrow> int \<Rightarrow> bytes" where
  "received_on pairs w fd = (case peer pairs fd of None \<Rightarrow> [] | Some e \<Rightarrow> stream e w)"

text \<open>All ends are different descriptors.\<close>

abbreviation ends_distinct :: "(int \<times> int) list \<Rightarrow> bool" where
  "ends_distinct pairs \<equiv> distinct (map fst pairs @ map snd pairs)"

lemma peer_worker_end:
  assumes "ends_distinct pairs" and "i < length pairs"
  shows "peer pairs (snd (pairs ! i)) = Some (fst (pairs ! i))"
proof -
  have "snd (pairs ! i) \<in> set (map snd pairs)" using assms(2) by simp
  then have "snd (pairs ! i) \<notin> dom (map_of pairs)"
    using assms(1) by (auto simp: dom_map_of_conv_image_fst)
  moreover have "map_of (map prod.swap pairs) (snd (pairs ! i)) = Some (fst (pairs ! i))"
    using assms by (intro map_of_is_SomeI) (auto simp: comp_def intro!: image_eqI [of _ _ "pairs ! i"])
  ultimately show ?thesis by (simp add: peer_def map_add_def domIff split: option.split)
qed

text \<open>The objects of the processes: what the constructors in the children return.\<close>

record 'r client_system =
  sys_pairs :: "(int \<times> int) list"
  sys_pids :: "int list"
  sys_workers :: "client result list"
  sys_manager :: "'r manager result"

definition worker_process :: "'r cm_env \<Rightarrow> 'r client_args \<Rightarrow> u32 \<Rightarrow> int \<Rightarrow> client result" where
  "worker_process E a output_option manager_fd =
     DNSClient_new (cm_aton E) (ca_conn_type a) (ca_nagle a) (ca_time_out a) (ca_server_ip a)
       (ca_server_port a) manager_fd (ca_socket_unify a) output_option (ca_non_wait a)"

definition manager_process :: "'r cm_env \<Rightarrow> 'r client_args \<Rightarrow> int list \<Rightarrow> int list \<Rightarrow> 'r manager result" where
  "manager_process E a client_fd client_pid =
     Manager_new (cm_dbl E) (cm_input E) (cm_aton E) (cm_rand E) (sint (ca_num_clients a)) (ca_dist a)
       (ca_input_file a) (ca_input_format a) (ca_output_file a) (ca_command_ip a) client_fd client_pid
       (ca_socket_unify a \<noteq> SOCKET_UNIFY_NONE) (ca_trace_limit a) (ca_query_pace a)"

definition client_main :: "'r cm_env \<Rightarrow> nat \<Rightarrow> cli \<Rightarrow> 'r client_system result" where
  "client_main E argc opts =
     (if argc = 1 then Inl (Exit 1 ''usage'')
      else bindE (foldE (client_option (cm_stod E)) (client_args0 (cm_dbl E) (cm_cores E)) opts) (\<lambda>a.
           bindE (client_check a) (\<lambda>output_option.
           let n = unat (ca_num_clients a)
           in bindE (socket_pairs E [0..<n]) (\<lambda>pairs.
              let client_fd = map fst pairs; manager_fd = map snd pairs
              in bindE (fork_workers E [0..<n]) (\<lambda>client_pid.
                 if cm_fork E n < 0 then Inl (Exit 1 ''fork'')
                 else Inr \<lparr>sys_pairs = pairs, sys_pids = client_pid,
                        sys_workers = map (worker_process E a output_option) manager_fd,
                        sys_manager = manager_process E a client_fd client_pid\<rparr>)))))"

text \<open>
  The end of main: \<^verbatim>\<open>wait\<close> until there is no child left.  \<open>live\<close> are the children, \<open>ends\<close> the order
  in which they end; \<open>None\<close> means that main waits for a child that does not end.
\<close>

fun main_wait :: "int list \<Rightarrow> int list \<Rightarrow> int list option" where
  "main_wait live ends =
     (if live = [] then Some []
      else case ends of
             [] \<Rightarrow> None
           | wpid # ends' \<Rightarrow>
               if wpid \<in> set live then map_option ((#) wpid) (main_wait (remove1 wpid live) ends') else None)"

declare main_wait.simps [simp del]

section \<open>Facts\<close>

lemma socket_pairs_Inr:
  assumes "socket_pairs E is = Inr ps"
  shows "length ps = length is" and "\<forall>p \<in> set ps. \<exists>i. cm_socketpair E i = Some p"
  using assms by (induction "is" arbitrary: ps) (auto simp: fault_simps split: option.splits)

lemma fork_workers_length: "fork_workers E is = Inr pids \<Longrightarrow> length pids = length is"
  by (induction "is" arbitrary: pids) (auto simp: fault_simps split: if_splits)

text \<open>What has passed the checks.\<close>

lemma client_check_Inr:
  assumes "client_check a = Inr opt"
  shows "ca_conn_type a \<in> conn_set" "ca_server_ip a \<noteq> []" "0 < ca_server_port a" "0 \<le> ca_time_out a"
  using assms by (auto simp: client_check_def check_set_def check_str_def check_int_def fault_simps split: if_splits)

text \<open>Sockets are shared only on demand.\<close>

lemma client_option_unify:
  assumes "client_option stod a x = Inr a'" and "fst x \<noteq> Short CHR ''u''"
  shows "ca_socket_unify a' = ca_socket_unify a"
  using assms by (cases x) (auto simp: client_option_def fault_simps split: if_splits)

lemma fold_options_unify:
  assumes "foldE (client_option stod) a opts = Inr a'" and "\<forall>x \<in> set opts. fst x \<noteq> Short CHR ''u''"
  shows "ca_socket_unify a' = ca_socket_unify a"
  by (rule foldE_invariant [OF assms(1), where P = "\<lambda>b. ca_socket_unify b = ca_socket_unify a"])
    (simp, metis assms(2) client_option_unify)

lemma worker_process_cases:
  assumes "client_check a = Inr opt" and "0 < fd"
  shows "worker_process E a opt fd = Inl (Exit 1 ''ip is invalid'') \<or>
    (\<exists>s. worker_process E a opt fd = Inr s \<and> cl_conn_type s \<in> conn_set)"
  using client_check_Inr [OF assms(1)] assms(2) by (auto simp: worker_process_def DNSClient_new_def)

lemma client_mainE:
  assumes "client_main E argc opts = Inr sys"
  obtains a opt where "foldE (client_option (cm_stod E)) (client_args0 (cm_dbl E) (cm_cores E)) opts = Inr a"
    "client_check a = Inr opt" "socket_pairs E [0..<unat (ca_num_clients a)] = Inr (sys_pairs sys)"
    "fork_workers E [0..<unat (ca_num_clients a)] = Inr (sys_pids sys)"
    "sys_workers sys = map (worker_process E a opt) (map snd (sys_pairs sys))"
    "sys_manager sys = manager_process E a (map fst (sys_pairs sys)) (sys_pids sys)"
  using assms by (auto simp: client_main_def Let_def fault_simps split: if_splits)

lemma sint_small: "unat (w :: u32) < 2 ^ 31 \<Longrightarrow> sint w = int (unat w)"
proof -
  assume "unat w < 2 ^ 31"
  then have "int (unat w) < int (2 ^ 31)" by (simp only: of_nat_less_iff)
  then have "uint w < 2 ^ 31" by simp
  moreover have "- (2 ^ 31) \<le> uint w" by (rule order_trans [OF _ unsigned_greater_eq]) simp
  ultimately show ?thesis by (simp add: sint_uint signed_take_bit_int_eq_self_iff)
qed

text \<open>What the processes of a system without \<^verbatim>\<open>-u\<close> are when they start.\<close>

lemma socket_pairs_ends:
  assumes "client_main E argc opts = Inr sys"
    and "\<forall>i p q. cm_socketpair E i = Some (p, q) \<longrightarrow> 0 < p \<and> 0 < q" and "p \<in> set (sys_pairs sys)"
  shows "0 < fst p \<and> 0 < snd p"
proof -
  from assms(1,3) obtain i where "cm_socketpair E i = Some p"
    by (elim client_mainE) (blast dest: socket_pairs_Inr(2))
  with assms(2) show ?thesis by (metis prod.collapse)
qed

lemma client_main_lengths:
  assumes "client_main E argc opts = Inr sys"
  shows "length (sys_workers sys) = length (sys_pairs sys)" "length (sys_pids sys) = length (sys_pairs sys)"
  using assms by (auto elim!: client_mainE dest!: socket_pairs_Inr(1) fork_workers_length)

lemma client_main_worker:
  assumes "client_main E argc opts = Inr sys" and "w \<in> set (sys_workers sys)" and "w = Inr s"
  obtains ct g t s_ip s_port fd unify opt nw where
    "DNSClient_new (cm_aton E) ct g t s_ip s_port fd unify opt nw = Inr s"
  using assms by (elim client_mainE) (auto simp: worker_process_def)

lemma client_main_manager:
  assumes "client_main E argc opts = Inr sys" and "sys_manager sys = Inr m"
    and "\<forall>i p q. cm_socketpair E i = Some (p, q) \<longrightarrow> 0 < p \<and> 0 < q"
    and "distinct (map fst (sys_pairs sys))" and "sys_pairs sys \<noteq> []" and "length (sys_pairs sys) < 2 ^ 31"
    and "\<forall>x \<in> set opts. fst x \<noteq> Short CHR ''u''"
  shows "mgr_ok m" "mg_client_fd m = map fst (sys_pairs sys)" "mg_writes m = []" "\<not> mg_done_sync_time m"
    "mg_com_msg_buffer m = []" "mg_closed m = []"
    "mg_ins m = Some ins \<Longrightarrow> mg_input_file m \<noteq> [] \<and> input_src_map (mg_input_format m) \<noteq> None"
proof -
  from assms(1) obtain a opt where a:
    "foldE (client_option (cm_stod E)) (client_args0 (cm_dbl E) (cm_cores E)) opts = Inr a"
    "client_check a = Inr opt" "socket_pairs E [0..<unat (ca_num_clients a)] = Inr (sys_pairs sys)"
    "fork_workers E [0..<unat (ca_num_clients a)] = Inr (sys_pids sys)"
    "sys_workers sys = map (worker_process E a opt) (map snd (sys_pairs sys))"
    "sys_manager sys = manager_process E a (map fst (sys_pairs sys)) (sys_pids sys)"
    by (rule client_mainE)
  have "ca_socket_unify a = SOCKET_UNIFY_NONE"
    using fold_options_unify [OF a(1) assms(7)] by (simp add: client_args0_def)
  then have m: "Manager_new (cm_dbl E) (cm_input E) (cm_aton E) (cm_rand E) (sint (ca_num_clients a)) (ca_dist a)
     (ca_input_file a) (ca_input_format a) (ca_output_file a) (ca_command_ip a) (map fst (sys_pairs sys))
     (sys_pids sys) False (ca_trace_limit a) (ca_query_pace a) = Inr m"
    using assms(2) a(6) by (simp add: manager_process_def)
  have "-1 \<notin> set (map fst (sys_pairs sys))" using socket_pairs_ends [OF assms(1,3)] by force
  from Manager_new_ok [OF m _ assms(4) this] assms(5,6) socket_pairs_Inr(1) [OF a(3)] sint_small
  have new: "mgr_ok m \<and> mg_client_fd m = map fst (sys_pairs sys) \<and> mg_writes m = [] \<and> \<not> mg_done_sync_time m \<and>
    mg_input_file m = ca_input_file a \<and> mg_input_format m = ca_input_format a \<and> mg_com_msg_buffer m = [] \<and> mg_closed m = []" by simp
  then show "mgr_ok m" "mg_client_fd m = map fst (sys_pairs sys)" "mg_writes m = []" "\<not> mg_done_sync_time m"
    "mg_com_msg_buffer m = []" "mg_closed m = []" by blast+
  assume "mg_ins m = Some ins"
  then have "\<not> ca_dist a" using Manager_new_ins [OF m] by auto
  then have "check_str2 (ca_input_format a) (ca_input_file a) = Inr () \<and>
      check_map (ca_input_format a) input_src_map = Inr ()"
    using a(2) by (auto simp: client_check_def fault_simps)
  with new show "mg_input_file m \<noteq> [] \<and> input_src_map (mg_input_format m) \<noteq> None"
    by (auto simp: check_str2_def check_map_def)
qed

text \<open>Every worker that could be constructed reads from the end of its pair opposite to the manager's.\<close>

lemma client_main_wired:
  assumes "client_main E argc opts = Inr sys" and "ends_distinct (sys_pairs sys)"
    and "i < length (sys_pairs sys)" and "sys_workers sys ! i = Inr s"
  shows "cl_manager_fd s = snd (sys_pairs sys ! i)"
    and "peer (sys_pairs sys) (cl_manager_fd s) = Some (fst (sys_pairs sys ! i))"
proof -
  show *: "cl_manager_fd s = snd (sys_pairs sys ! i)"
    using assms(1,3,4)
    by (auto elim!: client_mainE simp: worker_process_def DNSClient_new_def split: if_split_asm)
  show "peer (sys_pairs sys) (cl_manager_fd s) = Some (fst (sys_pairs sys ! i))"
    unfolding * by (rule peer_worker_end [OF assms(2,3)])
qed

section \<open>Properties\<close>

text \<open>
  C38.  A command line that passes the checks, asks for at least one worker and has no \<^verbatim>\<open>-u\<close> starts
  a manager and as many workers as there are socket pairs.  The manager, once constructed, is ready
  to assign sources to workers and has the first end of every pair as the socket of its worker.  The
  constructor of a worker fails only when the server's address cannot be parsed; otherwise the
  worker has the second end of its pair, so that what it reads is what the manager writes for it,
  and its tables are consistent when it starts.
\<close>

theorem client_main_starts_system:
  assumes "client_main E argc opts = Inr sys"
    and "\<forall>i p q. cm_socketpair E i = Some (p, q) \<longrightarrow> 0 < p \<and> 0 < q"
    and "ends_distinct (sys_pairs sys)" and "sys_pairs sys \<noteq> []" and "length (sys_pairs sys) < 2 ^ 31"
    and "\<forall>x \<in> set opts. fst x \<noteq> Short CHR ''u''"
  shows "length (sys_workers sys) = length (sys_pairs sys) \<and> length (sys_pids sys) = length (sys_pairs sys) \<and>
    (\<forall>i < length (sys_pairs sys). sys_workers sys ! i = Inl (Exit 1 ''ip is invalid'') \<or>
       (\<exists>s. sys_workers sys ! i = Inr s \<and> cl_manager_fd s = snd (sys_pairs sys ! i) \<and>
          (\<forall>w. received_on (sys_pairs sys) w (cl_manager_fd s) = stream (fst (sys_pairs sys ! i)) w) \<and>
          (\<forall>V s1. socket_ok V \<longrightarrow> start_setup V s = Inr s1 \<longrightarrow> client_inv s1))) \<and>
    (\<forall>m. sys_manager sys = Inr m \<longrightarrow> mgr_ok m \<and> mg_client_fd m = map fst (sys_pairs sys))"
proof -
  have d: "distinct (map fst (sys_pairs sys))" using assms(3) by simp
  have "sys_workers sys ! i = Inl (Exit 1 ''ip is invalid'') \<or>
      (\<exists>s. sys_workers sys ! i = Inr s \<and> cl_manager_fd s = snd (sys_pairs sys ! i) \<and>
          (\<forall>w. received_on (sys_pairs sys) w (cl_manager_fd s) = stream (fst (sys_pairs sys ! i)) w) \<and>
          (\<forall>V s1. socket_ok V \<longrightarrow> start_setup V s = Inr s1 \<longrightarrow> client_inv s1))"
    if i: "i < length (sys_pairs sys)" for i
  proof (cases "sys_workers sys ! i")
    case (Inl e)
    let ?w = "sys_workers sys ! i"
    have w: "?w \<in> set (sys_workers sys)" using i client_main_lengths [OF assms(1)] by simp
    from assms(1) w obtain a opt fd where "client_check a = Inr opt" "?w = worker_process E a opt fd" "0 < fd"
      using socket_pairs_ends [OF assms(1,2)] by (elim client_mainE) fastforce
    with worker_process_cases [of a opt fd E] Inl show ?thesis by auto
  next
    case (Inr s)
    have "sys_workers sys ! i \<in> set (sys_workers sys)" using i client_main_lengths [OF assms(1)] by simp
    from client_main_worker [OF assms(1) this Inr] have "\<forall>V s1. socket_ok V \<longrightarrow> start_setup V s = Inr s1 \<longrightarrow> client_inv s1"
      using start_inv by metis
    with client_main_wired [OF assms(1,3) i Inr] Inr show ?thesis by (simp add: received_on_def)
  qed
  then show ?thesis
    using client_main_lengths [OF assms(1)] client_main_manager(1,2) [OF assms(1) _ assms(2) d assms(4-6)] by auto
qed

definition demo_cm :: "int cm_env" where
  "demo_cm = \<lparr>cm_dbl = int_dbl, cm_stod = (\<lambda>_. Inl Invalid_argument),
     cm_input = \<lparr>env_packet_ok = True, env_trace_err = False, env_trace_start = 0, env_opens = (\<lambda>_. True),
       env_bytes = [], env_lines = [], env_packets = [], env_read_err = False\<rparr>,
     cm_aton = (\<lambda>_. True), cm_rand = id, cm_cores = 4,
     cm_socketpair = (\<lambda>i. Some (int (2 * i + 3), int (2 * i + 4))), cm_fork = (\<lambda>i. int (100 + i))\<rparr>"

definition demo_cli :: "string \<Rightarrow> cli" where
  "demo_cli n = [(Short CHR ''s'', ''10.0.0.1:53''), (Short CHR ''i'', ''raw:-''), (Short CHR ''n'', n)]"

definition demo_sys :: "int client_system" where
  "demo_sys = (case client_main demo_cm 7 (demo_cli ''2'') of Inr sys \<Rightarrow> sys | Inl e \<Rightarrow>
     \<lparr>sys_pairs = [], sys_pids = [], sys_workers = [], sys_manager = Inl e\<rparr>)"

lemma demo_args:
  "foldE (client_option (cm_stod demo_cm)) (client_args0 (cm_dbl demo_cm) (cm_cores demo_cm)) (demo_cli ''2'') =
   Inr ((client_args0 int_dbl 4)\<lparr>ca_server_ip := ''10.0.0.1'', ca_server_port := 53, ca_input_format := ''raw'',
     ca_input_file := ''-'', ca_num_clients := 2\<rparr>)"
  by code_simp

lemma demo_check:
  "client_check ((client_args0 int_dbl 4)\<lparr>ca_server_ip := ''10.0.0.1'', ca_server_port := 53, ca_input_format := ''raw'',
     ca_input_file := ''-'', ca_num_clients := 2\<rparr>) = Inr OUTPUT_NONE"
  by code_simp

theorem client_main_starts_system_witness:
  "client_main demo_cm 7 (demo_cli ''2'') = Inr demo_sys \<and> length (sys_workers demo_sys) = 2 \<and>
   (\<exists>s. sys_workers demo_sys ! 1 = Inr s \<and> cl_manager_fd s = 6 \<and>
      (\<forall>w. received_on [(3, 4), (5, 6)] w (cl_manager_fd s) = stream 5 w)) \<and>
   (\<exists>m. sys_manager demo_sys = Inr m \<and> mgr_ok m \<and> mg_client_fd m = [3, 5])"
proof -
  have pairs: "socket_pairs demo_cm [0..<2] = Inr [(3, 4), (5, 6)]" by code_simp
  have pids: "fork_workers demo_cm [0..<2] = Inr [100, 101]" "\<not> cm_fork demo_cm 2 < 0" by code_simp+
  have main: "client_main demo_cm 7 (demo_cli ''2'') = Inr demo_sys" "sys_pairs demo_sys = [(3, 4), (5, 6)]"
    unfolding demo_sys_def client_main_def demo_args bindE_Inr demo_check
    by (simp_all add: pairs pids)
  have env: "\<forall>i p q. cm_socketpair demo_cm i = Some (p, q) \<longrightarrow> 0 < p \<and> 0 < q" by (simp add: demo_cm_def)
  have "\<exists>m. sys_manager demo_sys = Inr m"
    unfolding demo_sys_def client_main_def demo_args bindE_Inr demo_check
    by (simp add: pairs pids) (simp add: manager_process_def Manager_new_def InputSource_def input_src_map_def
        demo_cm_def client_args0_def format_defs)
  moreover have "sys_workers demo_sys ! 1 \<noteq> Inl (Exit 1 ''ip is invalid'')"
    unfolding demo_sys_def client_main_def demo_args bindE_Inr demo_check
    by (simp add: pairs pids) (simp add: worker_process_def DNSClient_new_def demo_cm_def client_args0_def conn_set_def)
  moreover note sys = client_main_starts_system [OF main(1) env]
  have "ends_distinct (sys_pairs demo_sys)" "sys_pairs demo_sys \<noteq> []" "length (sys_pairs demo_sys) < 2 ^ 31"
    "\<forall>x \<in> set (demo_cli ''2''). fst x \<noteq> Short CHR ''u''"
    using main(2) by (simp_all add: demo_cli_def)
  note sys [OF this]
  ultimately show ?thesis using main by (auto simp: nth_Cons' split: if_splits)
qed

text \<open>
  The check of the number of workers, whose message says it must be greater than 0, lets 0
  pass.  The client then starts without workers, and the first query the manager wants to forward
  makes it compute a remainder by zero.
\<close>

lemma zero_workers_accepted:
  "(\<exists>sys m. client_main demo_cm 7 (demo_cli ''0'') = Inr sys \<and> sys_workers sys = [] \<and>
      sys_manager sys = Inr m \<and> rand_client_fd m ip = Inl (Undefined ''rand() % 0''))"
proof -
  let ?a = "(client_args0 int_dbl 4)\<lparr>ca_server_ip := ''10.0.0.1'', ca_server_port := 53, ca_input_format := ''raw'',
     ca_input_file := ''-'', ca_num_clients := 0\<rparr> :: int client_args"
  have args: "foldE (client_option (cm_stod demo_cm)) (client_args0 (cm_dbl demo_cm) (cm_cores demo_cm))
      (demo_cli ''0'') = Inr ?a" by code_simp
  have check: "client_check ?a = Inr OUTPUT_NONE" by code_simp
  have fork: "\<not> cm_fork demo_cm 0 < 0" by (simp add: demo_cm_def)
  have main: "client_main demo_cm 7 (demo_cli ''0'') = Inr \<lparr>sys_pairs = [], sys_pids = [], sys_workers = [],
      sys_manager = manager_process demo_cm ?a [] []\<rparr>"
    unfolding client_main_def args bindE_Inr check by (simp add: fork)
  moreover obtain m where "manager_process demo_cm ?a [] [] = Inr m" "mg_num_clients m = 0"
    "mg_client_src2fd m = Map.empty"
    by (simp add: manager_process_def Manager_new_def Manager_fields_def InputSource_def input_src_map_def
        demo_cm_def client_args0_def format_defs)
  ultimately show ?thesis
    by (simp add: rand_client_fd_def draw_fd_def)
qed

text \<open>Main ends exactly when all its children have ended, and it has waited for each of them once.\<close>

lemma main_waits_for_all: "main_wait live ends = Some w \<Longrightarrow> mset w = mset live"
proof (induction live ends arbitrary: w rule: main_wait.induct)
  case (1 live ends)
  from 1(2) show ?case
    unfolding main_wait.simps [of live ends] using 1(1) by (auto split: if_split_asm list.split_asm)
qed

lemma main_wait_ends: "mset live = mset ends \<Longrightarrow> main_wait live ends = Some ends"
proof (induction ends arbitrary: live)
  case (Cons p ends)
  then have "p \<in> set live" by (metis list.set_intros(1) mset_eq_setD)
  moreover have "mset (remove1 p live) = mset ends" using Cons.prems by simp
  ultimately show ?case using Cons.IH by (subst main_wait.simps) (auto simp del: mset_remove1)
qed (simp add: main_wait.simps)

end
