(* ===== verification/Client_Filter.thy ===== *)
theory Client_Filter
  imports Text_Util
begin

text \<open>
  The client filter of the controller (\<^verbatim>\<open>filter.cc\<close>): percentages per client, read from a file
  or from a comma separated string, and the table of one hundred slots that a random draw is
  looked up in.  The lines of a file are a parameter (\<open>None\<close>: it cannot be opened).  The main
  theorem is that a valid filter with non-negative weights gives every client exactly its share
  of the slots; a filter with a negative weight can be valid and does not.
\<close>

section \<open>The class\<close>

definition kFilterTotalWeight :: int where "kFilterTotalWeight = 100"

record client_filter =
  num_clients :: int
  total_weight :: int
  filter_input :: string
  ifs_is_open :: bool
  weight :: "int list"
  client_index :: "int list"

text \<open>Addition of two \<^verbatim>\<open>int\<close> values; overflow has no meaning in C++.\<close>

definition add_int :: "int \<Rightarrow> int \<Rightarrow> int result" where
  "add_int a b =
     (if a + b < int_min \<or> int_max < a + b then Inl (Undefined ''signed overflow'') else Inr (a + b))"

definition Filter_default :: client_filter where
  "Filter_default =
     \<lparr>num_clients = 0, total_weight = 0, filter_input = [], ifs_is_open = False,
      weight = [], client_index = []\<rparr>"

text \<open>
  The loop over the lines of a file, and over the pieces of the string: slot \<open>i\<close> of the weights is set while there is one; a
  text that is no number ends the loop with \<open>False\<close>, as the handler of the exception does.
\<close>

fun weight_loop :: "nat \<Rightarrow> string list \<Rightarrow> client_filter \<Rightarrow> (bool \<times> client_filter) result" where
  "weight_loop i [] f = Inr (True, f)"
| "weight_loop i (line # ls) f =
     (if length (weight f) \<le> i then Inr (True, f)
      else case stoi line of
             Inl e \<Rightarrow> Inr (False, f)
           | Inr v \<Rightarrow>
               bindE (add_int (total_weight f) v) (\<lambda>t.
                 weight_loop (Suc i) ls (f\<lparr>weight := (weight f)[i := v], total_weight := t\<rparr>)))"

text \<open>
  \<^verbatim>\<open>ifs.open\<close> on a stream that is open already fails and leaves nothing to read, and
  \<^verbatim>\<open>is_open\<close> still holds.
\<close>

definition GetWeightByFile :: "(string \<Rightarrow> string list option) \<Rightarrow> client_filter \<Rightarrow> (bool \<times> client_filter) result" where
  "GetWeightByFile files f =
     (if ifs_is_open f then Inr (True, f)
      else case files (filter_input f) of
             None \<Rightarrow> Inr (False, f)
           | Some ls \<Rightarrow> weight_loop 0 ls (f\<lparr>ifs_is_open := True\<rparr>))"

definition GetWeightByString :: "client_filter \<Rightarrow> (bool \<times> client_filter) result" where
  "GetWeightByString f =
     (if filter_input f = [] then Inr (False, f)
      else weight_loop 0 (str_split_char (filter_input f) CHR '','' True) f)"

text \<open>
  The loops that fill the slots.  \<open>start\<close> and \<open>end\<close> are 32 bit unsigned, so a negative weight
  wraps around.
\<close>

function fill_slots :: "nat \<Rightarrow> nat \<Rightarrow> int \<Rightarrow> int list \<Rightarrow> int list" where
  "fill_slots j e i ci =
     (if j < length ci \<and> j < e then fill_slots (Suc j) e i (ci[j := i]) else ci)"
  by pat_completeness auto
termination
  by (relation "measure (\<lambda>(j, e, i, ci). length ci - j)") auto

declare fill_slots.simps [simp del]

fun fill_clients :: "u32 \<Rightarrow> int \<Rightarrow> int list \<Rightarrow> int list \<Rightarrow> int list" where
  "fill_clients start i [] ci = ci"
| "fill_clients start i (w # ws) ci =
     (let end' = start + of_int w
      in fill_clients end' (i + 1) ws (fill_slots (unat start) (unat end') i ci))"

definition Init :: "(string \<Rightarrow> string list option) \<Rightarrow> client_filter \<Rightarrow> client_filter result" where
  "Init files f =
     (if num_clients f < 0 then Inl (Uncaught Length_error)
      else let f = f\<lparr>weight := replicate (nat (num_clients f)) (- 1),
                     client_index := replicate (nat kFilterTotalWeight) (- 1)\<rparr>
           in bindE
                (if filter_input f = [] then Inr f
                 else bindE (GetWeightByFile files f) (\<lambda>(ok, f).
                        if ok then Inr f
                        else bindE (GetWeightByString f) (\<lambda>(ok, f). Inr f)))
                (\<lambda>f. Inr (f\<lparr>client_index := fill_clients 0 0 (weight f) (client_index f)\<rparr>)))"

definition Filter_new :: "(string \<Rightarrow> string list option) \<Rightarrow> string \<Rightarrow> int \<Rightarrow> client_filter result" where
  "Filter_new files input num =
     Init files (Filter_default\<lparr>num_clients := num, filter_input := input\<rparr>)"

text \<open>
  The copy constructor builds a temporary and leaves the object itself with empty vectors and
  numbers of no particular value, here the first two arguments.
\<close>

definition Filter_copy_ctor :: "int \<Rightarrow> int \<Rightarrow> client_filter \<Rightarrow> client_filter" where
  "Filter_copy_ctor junk1 junk2 f = Filter_default\<lparr>num_clients := junk1, total_weight := junk2\<rparr>"

definition GetNumClients :: "client_filter \<Rightarrow> int" where
  "GetNumClients f = num_clients f"

definition GetFilterInput :: "client_filter \<Rightarrow> string" where
  "GetFilterInput f = filter_input f"

definition GetWeightStr :: "client_filter \<Rightarrow> string" where
  "GetWeightStr f = join '','' (map to_string (weight f))"

definition ValidateWeight :: "client_filter \<Rightarrow> bool" where
  "ValidateWeight f =
     (let n = length (List.filter (\<lambda>w. w = - 1) (weight f))
      in if n \<noteq> 0 then False
         else if total_weight f \<noteq> kFilterTotalWeight then False
         else True)"

definition Valid :: "client_filter \<Rightarrow> bool" where
  "Valid f = ValidateWeight f"

definition Copy :: "(string \<Rightarrow> string list option) \<Rightarrow> client_filter \<Rightarrow> client_filter \<Rightarrow> client_filter result" where
  "Copy files self f =
     Init files (self\<lparr>num_clients := GetNumClients f, filter_input := GetFilterInput f,
                      total_weight := 0\<rparr>)"

definition GetWeight :: "client_filter \<Rightarrow> int \<Rightarrow> int" where
  "GetWeight f i = (if i < 0 \<or> int (length (weight f)) \<le> i then - 1 else weight f ! nat i)"

definition GetClientIndex :: "client_filter \<Rightarrow> int \<Rightarrow> int result" where
  "GetClientIndex f i =
     (if i < 0 \<or> kFilterTotalWeight \<le> i then Inr (- 1)
      else if length (client_index f) \<le> nat i then Inl (Undefined ''client_index: out of range'')
      else Inr (client_index f ! nat i))"

definition Filter_Set ::
    "(string \<Rightarrow> string list option) \<Rightarrow> client_filter \<Rightarrow> string \<Rightarrow> int \<Rightarrow> client_filter result" where
  "Filter_Set files self input num =
     (let f = self\<lparr>num_clients := num, filter_input := input, total_weight := 0\<rparr>
      in if 0 < num_clients f \<and> filter_input f \<noteq> [] then Init files f else Inr f)"

section \<open>Filling the slots\<close>

text \<open>The table the comment in \<^verbatim>\<open>Init\<close> describes: each client's number, weight many times.\<close>

fun shares :: "int \<Rightarrow> int list \<Rightarrow> int list" where
  "shares i [] = []"
| "shares i (w # ws) = replicate (nat w) i @ shares (i + 1) ws"

lemma length_shares: "\<forall>w \<in> set ws. 0 \<le> w \<Longrightarrow> int (length (shares i ws)) = sum_list ws"
  by (induction ws arbitrary: i) auto

lemma count_shares:
  "\<forall>w \<in> set ws. 0 \<le> w \<Longrightarrow> c < length ws \<Longrightarrow>
   int (count_list (shares i ws) (i + int c)) = ws ! c"
proof (induction ws arbitrary: i c)
  case Nil
  then show ?case by simp
next
  case (Cons w ws)
  have later: "i < j \<Longrightarrow> count_list (shares j vs) i = 0" for i j vs
    by (induction vs arbitrary: j) auto
  have rep: "count_list (replicate n x) y = (if x = y then n else 0)" for n and x y :: int
    by (induction n) auto
  show ?case
  proof (cases c)
    case 0
    with Cons.prems later show ?thesis by (simp add: rep)
  next
    case (Suc d)
    with Cons.prems Cons.IH [of d "i + 1"] show ?thesis by (simp add: rep ac_simps)
  qed
qed

lemma set_shares: "x \<in> set (shares i ws) \<Longrightarrow> i \<le> x \<and> x < i + int (length ws)"
  by (induction ws arbitrary: i) fastforce+

lemma fill_slots_stop: "\<not> (j < length ci \<and> j < e) \<Longrightarrow> fill_slots j e i ci = ci"
  by (subst fill_slots.simps) auto

lemma fill_slots_eq:
  "j \<le> e \<Longrightarrow> e \<le> length ci \<Longrightarrow>
   fill_slots j e i ci = take j ci @ replicate (e - j) i @ drop e ci"
proof (induction j e i ci rule: fill_slots.induct)
  case (1 j e i ci)
  show ?case
  proof (cases "j < e")
    case True
    with 1 have "fill_slots (Suc j) e i (ci[j := i]) =
        take (Suc j) (ci[j := i]) @ replicate (e - Suc j) i @ drop e (ci[j := i])"
      by auto
    moreover have "take (Suc j) (ci[j := i]) = take j ci @ [i]"
      using True 1(3) by (simp add: take_Suc_conv_app_nth)
    moreover have "replicate (e - j) i = i # replicate (e - Suc j) i"
      using True by (metis Suc_diff_Suc replicate_Suc)
    ultimately show ?thesis using True 1(3) by (simp add: fill_slots.simps [of j e i ci])
  next
    case False
    with 1(2,3) show ?thesis by (simp add: fill_slots_stop)
  qed
qed

lemma fill_slots_min: "fill_slots j e i ci = fill_slots j (min e (length ci)) i ci"
proof (induction j e i ci rule: fill_slots.induct)
  case (1 j e i ci)
  then show ?case
    by (cases "j < length ci \<and> j < e")
       (auto simp: fill_slots.simps [of j e i ci] fill_slots.simps [of j "min e (length ci)" i ci])
qed

lemma fill_clients_shares:
  assumes "\<forall>w \<in> set ws. 0 \<le> w" and "int s + sum_list ws = int (length ci)"
    and "length ci < 2 ^ 32"
  shows "fill_clients (of_nat s) i ws ci = take s ci @ shares i ws"
  using assms
proof (induction ws arbitrary: s i ci)
  case Nil
  then show ?case by simp
next
  case (Cons w ws)
  have w0: "0 \<le> w" and pos: "0 \<le> sum_list ws" using Cons.prems(1) by (auto intro: sum_list_nonneg)
  define e where "e = s + nat w"
  have e: "e \<le> length ci" "s \<le> e" "e - s = nat w" using Cons.prems(2) w0 pos by (simp_all add: e_def)
  have word: "(of_nat s :: u32) + of_int w = of_nat e"
    using w0 by (simp add: e_def of_nat_nat [symmetric] del: of_nat_nat)
  have un: "unat (of_nat s :: u32) = s" "unat (of_nat e :: u32) = e"
    using e Cons.prems(3) by (simp_all add: unat_of_nat)
  let ?ci = "fill_slots s e i ci"
  have ci: "?ci = take s ci @ replicate (nat w) i @ drop e ci"
    using fill_slots_eq [of s e ci i] e by simp
  have len: "length ?ci = length ci" using ci e by simp
  have "fill_clients (of_nat e) (i + 1) ws ?ci = take e ?ci @ shares (i + 1) ws"
    using Cons.prems w0 len by (intro Cons.IH) (auto simp: e_def)
  moreover have "take e ?ci = take s ci @ replicate (nat w) i"
    using ci e by (simp add: e_def)
  ultimately show ?case
    using un word by (simp add: Let_def)
qed

section \<open>Reading the weights\<close>

lemma add_int_Inr: "add_int a b = Inr t \<Longrightarrow> t = a + b"
  by (auto simp: add_int_def split: if_splits)

lemma weight_loop_frame:
  "weight_loop i xs f = Inr (ok, f') \<Longrightarrow>
   length (weight f') = length (weight f) \<and> num_clients f' = num_clients f \<and>
   filter_input f' = filter_input f \<and> client_index f' = client_index f"
  by (induction i xs f rule: weight_loop.induct)
     (auto simp: fault_simps split: if_splits sum.splits)

text \<open>
  The loop keeps the total equal to the sum of the weights set so far; the slots it does not
  reach stay as they were.
\<close>

lemma weight_loop_total:
  assumes "weight_loop i xs f = Inr (ok, f')" and "i \<le> length (weight f)"
    and "total_weight f = sum_list (take i (weight f))"
  shows "\<exists>k. i \<le> k \<and> total_weight f' = sum_list (take k (weight f')) \<and>
     drop k (weight f') = drop k (weight f)"
  using assms
proof (induction i xs f rule: weight_loop.induct)
  case (1 i f)
  then show ?case by (auto intro: exI [of _ i])
next
  case (2 i line ls f)
  show ?case
  proof (cases "length (weight f) \<le> i")
    case True
    with 2 show ?thesis by (auto intro: exI [of _ i])
  next
    case i: False
    show ?thesis
    proof (cases "stoi line")
      case (Inl e)
      with i 2 show ?thesis by (auto intro: exI [of _ i])
    next
      case (Inr v)
      let ?f = "\<lambda>t. f\<lparr>weight := (weight f)[i := v], total_weight := t\<rparr>"
      from 2(2) i Inr obtain t where t: "add_int (total_weight f) v = Inr t"
        and loop: "weight_loop (Suc i) ls (?f t) = Inr (ok, f')"
        by (auto simp: fault_simps)
      have "total_weight (?f t) = sum_list (take (Suc i) (weight (?f t)))"
        using add_int_Inr [OF t] 2(4) i by (simp add: take_Suc_conv_app_nth)
      from 2(1) [OF i Inr t loop _ this] i obtain k where "Suc i \<le> k"
        "total_weight f' = sum_list (take k (weight f'))"
        "drop k (weight f') = drop k ((weight f)[i := v])"
        by auto
      then show ?thesis by (auto intro: exI [of _ k] simp: drop_update_cancel)
    qed
  qed
qed

text \<open>The same for a whole pass over fresh weights: a set of weights without holes is summed up.\<close>

lemma weight_pass_total:
  assumes "weight_loop 0 xs f = Inr (ok, f')" and "total_weight f = 0"
    and "\<forall>w \<in> set (weight f). w = - 1" and "\<forall>w \<in> set (weight f'). w \<noteq> - 1"
  shows "total_weight f' = sum_list (weight f')"
proof -
  from weight_loop_total [OF assms(1)] assms(2) obtain k where
    k: "total_weight f' = sum_list (take k (weight f'))" "drop k (weight f') = drop k (weight f)"
    by auto
  have "drop k (weight f') = []"
  proof (rule ccontr)
    assume "drop k (weight f') \<noteq> []"
    then obtain w where w: "w \<in> set (drop k (weight f'))" by (meson last_in_set)
    with k(2) have "w = - 1" using assms(3) by (metis in_set_dropD)
    with w assms(4) show False using in_set_dropD by fastforce
  qed
  with k(1) show ?thesis by (metis append_Nil2 append_take_drop_id)
qed

text \<open>
  The input is read in one pass: it is no readable file, or a file whose lines are all numbers.
\<close>

definition one_pass :: "(string \<Rightarrow> string list option) \<Rightarrow> string \<Rightarrow> bool" where
  "one_pass files input \<longleftrightarrow>
     (case files input of None \<Rightarrow> True | Some ls \<Rightarrow> \<forall>l \<in> set ls. \<exists>v. stoi l = Inr v)"

lemma weight_loop_numbers:
  "weight_loop i xs f = Inr (ok, f') \<Longrightarrow> \<forall>l \<in> set xs. \<exists>v. stoi l = Inr v \<Longrightarrow> ok"
  by (induction i xs f rule: weight_loop.induct) (auto simp: fault_simps split: if_splits)

lemma Init_one_pass:
  assumes "Init files f = Inr f'" and "\<not> ifs_is_open f" and "filter_input f \<noteq> []"
    and "one_pass files (filter_input f)"
  obtains xs g ok h where "weight_loop 0 xs g = Inr (ok, h)"
    "weight g = replicate (nat (num_clients f)) (- 1)" "total_weight g = total_weight f"
    "client_index g = replicate 100 (- 1)"
    "f' = h\<lparr>client_index := fill_clients 0 0 (weight h) (client_index h)\<rparr>"
proof (cases "files (filter_input f)")
  case None
  let ?g = "f\<lparr>weight := replicate (nat (num_clients f)) (- 1), client_index := replicate 100 (- 1)\<rparr>"
  from assms None obtain ok h
    where "weight_loop 0 (str_split_char (filter_input f) CHR '','' True) ?g = Inr (ok, h)"
      "f' = h\<lparr>client_index := fill_clients 0 0 (weight h) (client_index h)\<rparr>"
    by (auto simp: Init_def GetWeightByFile_def GetWeightByString_def kFilterTotalWeight_def
          fault_simps split: if_splits)
  then show thesis by (intro that [of _ ?g]) auto
next
  case (Some ls)
  let ?g = "f\<lparr>weight := replicate (nat (num_clients f)) (- 1), client_index := replicate 100 (- 1),
              ifs_is_open := True\<rparr>"
  have num: "\<forall>l \<in> set ls. \<exists>v. stoi l = Inr v" using assms(4) Some by (simp add: one_pass_def)
  note Init' = Init_def GetWeightByFile_def kFilterTotalWeight_def
  show thesis
  proof (cases "weight_loop 0 ls ?g")
    case (Inl e)
    with assms Some show thesis by (simp add: Init' split: if_splits)
  next
    case (Inr okh)
    then obtain h where w: "weight_loop 0 ls ?g = Inr (True, h)"
      using weight_loop_numbers [OF _ num, of 0 ?g] by (cases okh) auto
    with assms Some have "f' = h\<lparr>client_index := fill_clients 0 0 (weight h) (client_index h)\<rparr>"
      by (simp add: Init' split: if_splits)
    with w show thesis by (intro that [of ls ?g True h]) auto
  qed
qed

lemma valid_filter_slots:
  assumes "Filter_Set files Filter_default input n = Inr f"
    and "0 < n" and "input \<noteq> []" and "one_pass files input"
    and "Valid f" and "\<forall>w \<in> set (weight f). 0 \<le> w"
  shows "client_index f = shares 0 (weight f)" "length (weight f) = nat n" "length (client_index f) = 100"
proof -
  let ?f = "Filter_default\<lparr>num_clients := n, filter_input := input, total_weight := 0\<rparr>"
  have init: "Init files ?f = Inr f"
    using assms(1-3) by (simp add: Filter_Set_def)
  obtain xs g ok h where w: "weight_loop 0 xs g = Inr (ok, h)"
    and g': "weight g = replicate (nat (num_clients ?f)) (- 1)" "total_weight g = total_weight ?f"
      "client_index g = replicate 100 (- 1)"
    and f: "f = h\<lparr>client_index := fill_clients 0 0 (weight h) (client_index h)\<rparr>"
    by (rule Init_one_pass [OF init]) (simp_all add: assms(3,4) Filter_default_def)
  have g: "weight g = replicate (nat n) (- 1)" "total_weight g = 0"
    "client_index g = replicate 100 (- 1)"
    using g' by simp_all
  have len: "length (weight f) = nat n" and ci: "client_index h = replicate 100 (- 1)"
    using weight_loop_frame [OF w] f g by simp_all
  from assms(5) have tot: "total_weight f = 100" and set: "\<forall>w \<in> set (weight f). w \<noteq> - 1"
    by (auto simp: Valid_def ValidateWeight_def kFilterTotalWeight_def Let_def filter_empty_conv
          split: if_splits)
  have "total_weight f = sum_list (weight f)"
    using weight_pass_total [OF w] g set f by simp
  with tot have sum: "sum_list (weight f) = 100" by simp
  show sh: "client_index f = shares 0 (weight f)"
    using fill_clients_shares [of "weight f" 0 "replicate 100 (- 1)" 0] assms(6) sum f ci by simp
  show "length (client_index f) = 100"
    using length_shares [OF assms(6), of 0] sh sum by simp
  show "length (weight f) = nat n" by (rule len)
qed

lemma valid_filter_index:
  assumes "Filter_Set files Filter_default input n = Inr f"
    and "0 < n" and "input \<noteq> []" and "one_pass files input"
    and "Valid f" and "\<forall>w \<in> set (weight f). 0 \<le> w" and "i \<in> {0..<100}"
  shows "\<exists>c \<in> {0..<n}. GetClientIndex f i = Inr c"
proof -
  note sl = valid_filter_slots [OF assms(1-6)]
  have "client_index f ! nat i \<in> set (shares 0 (weight f))"
    using assms(7) sl(1,3) by (metis atLeastLessThan_iff nat_less_iff nth_mem of_nat_numeral)
  from set_shares [OF this] assms(2,7) sl(2,3) show ?thesis
    by (auto simp: GetClientIndex_def kFilterTotalWeight_def)
qed

section \<open>Properties\<close>

text \<open>
  C24.  When a filter set from an input passes the validity check and no weight is negative,
  the table of one hundred slots holds client 0 as often as its weight says, then client 1, and
  so on: every draw between 0 and 99 selects an existing client, and each client is selected by
  exactly its percentage of the draws.
\<close>

theorem filter_gives_each_client_its_share:
  assumes "Filter_Set files Filter_default input n = Inr f"
    and "0 < n" and "input \<noteq> []" and "one_pass files input"
    and "Valid f" and "\<forall>w \<in> set (weight f). 0 \<le> w"
  shows "client_index f = shares 0 (weight f) \<and>
    (\<forall>i \<in> {0..<100}. \<exists>c \<in> {0..<n}. GetClientIndex f i = Inr c) \<and>
    (\<forall>c \<in> {0..<n}. int (count_list (client_index f) c) = GetWeight f c)"
proof -
  note sl = valid_filter_slots [OF assms]
  have "int (count_list (client_index f) c) = GetWeight f c" if "c \<in> {0..<n}" for c
    using count_shares [OF assms(6), of "nat c" 0] that sl(1,2) by (simp add: GetWeight_def nat_less_iff)
  then show ?thesis using sl(1) valid_filter_index [OF assms] by blast
qed

theorem filter_gives_each_client_its_share_witness:
  "\<exists>f. Filter_Set (\<lambda>_. None) Filter_default ''20,30, 50'' 3 = Inr f \<and>
     client_index f = shares 0 [20, 30, 50] \<and>
     int (count_list (client_index f) 1) = GetWeight f 1"
proof -
  let ?f = "\<lparr>num_clients = 3, total_weight = 100, filter_input = ''20,30, 50'', ifs_is_open = False,
     weight = [20, 30, 50],
     client_index = replicate 20 0 @ replicate 30 1 @ replicate 50 2\<rparr>"
  have set: "Filter_Set (\<lambda>_. None) Filter_default ''20,30, 50'' 3 = Inr ?f" by code_simp
  have valid: "Valid ?f" by code_simp
  have pass: "one_pass (\<lambda>_. None) ''20,30, 50''" by (simp add: one_pass_def)
  have "client_index ?f = shares 0 (weight ?f) \<and>
    (\<forall>i \<in> {0..<100}. \<exists>c \<in> {0..<3}. GetClientIndex ?f i = Inr c) \<and>
    (\<forall>c \<in> {0..<3}. int (count_list (client_index ?f) c) = GetWeight ?f c)"
    by (rule filter_gives_each_client_its_share [OF set _ _ pass valid]) simp_all
  then have "client_index ?f = shares 0 [20, 30, 50]"
    "int (count_list (client_index ?f) 1) = GetWeight ?f 1"
    by (simp only: client_filter.simps, metis atLeastLessThan_iff one_less_numeral_iff semiring_norm(77) zero_le_one)
  with set show ?thesis by blast
qed

text \<open>
  A negative weight other than \<open>- 1\<close> passes the check; the unsigned bounds wrap around and the
  first client gets every slot.
\<close>

lemma filter_negative_weight_accepted:
  "\<exists>f. Filter_Set (\<lambda>_. None) Filter_default ''-5,105'' 2 = Inr f \<and> Valid f \<and>
     client_index f = replicate 100 0"
proof -
  let ?f = "\<lparr>num_clients = 2, total_weight = 100, filter_input = ''-5,105'', ifs_is_open = False,
     weight = [- 5, 105], client_index = replicate 100 0\<rparr>"
  let ?g = "\<lparr>num_clients = 2, total_weight = 0, filter_input = ''-5,105'', ifs_is_open = False,
     weight = [- 1, - 1], client_index = replicate 100 (- 1)\<rparr>"
  have "weight_loop 0 (str_split_char ''-5,105'' CHR '','' True) ?g =
      Inr (True, ?g\<lparr>weight := [- 5, 105], total_weight := 100\<rparr>)"
    by code_simp
  moreover have "fill_slots 0 4294967291 0 (replicate 100 (- 1)) = replicate 100 0"
    using fill_slots_min [of 0 4294967291 0 "replicate 100 (- 1)"]
      fill_slots_eq [of 0 100 "replicate 100 (- 1)" 0] by simp
  then have "fill_clients 0 0 [- 5, 105] (replicate 100 (- 1)) = replicate 100 0"
    by (simp add: fill_slots_stop)
  ultimately have "Filter_Set (\<lambda>_. None) Filter_default ''-5,105'' 2 = Inr ?f"
    by (simp add: Filter_Set_def Init_def GetWeightByFile_def GetWeightByString_def
          Filter_default_def kFilterTotalWeight_def numeral_2_eq_2)
  moreover have "Valid ?f" by code_simp
  moreover have "client_index ?f = replicate 100 0" by (simp only: client_filter.simps)
  ultimately show ?thesis by blast
qed

text \<open>The copy constructor copies nothing.\<close>

lemma filter_copy_ctor_empty:
  "weight (Filter_copy_ctor a b f) = [] \<and> client_index (Filter_copy_ctor a b f) = [] \<and>
   filter_input (Filter_copy_ctor a b f) = []"
  by (simp add: Filter_copy_ctor_def Filter_default_def)

end
