(* ===== verification/Reader.thy ===== *)
theory Reader
  imports Pacing Routing Input_Source
begin

text \<open>
  The reader process of the controller (\<^verbatim>\<open>reader.cc\<close>): it waits until the postman says that all
  clients are connected, then reads the input and writes every query to the postman's socket.
\<close>

section \<open>Operations\<close>

record reader =
  rd_skt :: int
  rd_ins :: input_source
  rd_writes :: "int writes"

definition POSTMAN_FLAG :: string where "POSTMAN_FLAG = ''POSTMAN-READY''"
definition UNBLOCK_FLAG :: string where "UNBLOCK_FLAG = ''UNBLOCK''"
definition MIN_BUF_SIZE :: nat where "MIN_BUF_SIZE = 64"

definition Reader_new :: "input_env \<Rightarrow> string \<Rightarrow> string \<Rightarrow> int \<Rightarrow> reader result" where
  "Reader_new env fn ft s =
     bindE (InputSource env fn ft) (\<lambda>ins. Inr \<lparr>rd_skt = s, rd_ins = ins, rd_writes = []\<rparr>)"

text \<open>
  The read callback while blocked.  \<open>flag\<close> is the string the context points to; the received
  bytes, at most the size of the buffer, are compared with it as C strings.
\<close>

definition unblock_read_cb :: "string \<Rightarrow> bytes \<Rightarrow> string" where
  "unblock_read_cb flag data =
     (if 0 < length data \<and> c_data (take MIN_BUF_SIZE data) = str_bytes (c_str flag)
      then UNBLOCK_FLAG else flag)"

text \<open>\<open>datas\<close> are the reads until the loop is left, by the flag or by a signal.\<close>

definition unblock :: "reader \<Rightarrow> string \<Rightarrow> bytes list \<Rightarrow> bool result" where
  "unblock rd flag datas =
     (if rd_skt rd \<le> 0 then Inl (Exit 1 ''socket is not set'')
      else Inr (foldl unblock_read_cb flag datas = UNBLOCK_FLAG))"

text \<open>The body of the reading loop; \<open>None\<close>: the wait does not end.\<close>

definition read_msg ::
    "'r dbl \<Rightarrow> pb \<Rightarrow> write_ret \<Rightarrow> (nat \<Rightarrow> 'r) \<Rightarrow> int \<Rightarrow> reader \<times> 'r pace_state \<Rightarrow> dnsmsg \<Rightarrow>
     ((reader \<times> 'r pace_state) result) option" where
  "read_msg F c wr now l st msg =
     (let (rd, ps) = st
      in if raw msg = [] then Some (Inr (rd, ps))
         else case limit_wait F now (0 < l) (dbl_of_int F l)
                     (trace_ts F (seconds msg) (microseconds msg)) ps of
                None \<Rightarrow> None
              | Some ps' \<Rightarrow>
                  Some (bindE (serialize c msg) (\<lambda>s.
                    bindE (write_frame wr (rd_skt rd) s (rd_writes rd)) (\<lambda>w.
                      Inr (rd\<lparr>rd_writes := w\<rparr>, ps')))))"

function read_loop ::
    "'r dbl \<Rightarrow> pb \<Rightarrow> 'p ldns \<Rightarrow> (nat \<Rightarrow> u16) \<Rightarrow> write_ret \<Rightarrow> (nat \<Rightarrow> 'r) \<Rightarrow> int \<Rightarrow> nat \<Rightarrow> input_source \<Rightarrow>
     reader \<times> 'r pace_state \<Rightarrow> ((reader \<times> 'r pace_state) result) option" where
  "read_loop F c L rnd wr now l k ins st =
     (case get c L (rnd k) ins of
        Inl e \<Rightarrow> Some (Inl e)
      | Inr (None, ins') \<Rightarrow> Some (Inr ((fst st)\<lparr>rd_ins := ins'\<rparr>, snd st))
      | Inr (Some msg, ins') \<Rightarrow>
          (case read_msg F c wr now l st msg of
             None \<Rightarrow> None
           | Some (Inl e) \<Rightarrow> Some (Inl e)
           | Some (Inr st') \<Rightarrow> read_loop F c L rnd wr now l (Suc k) ins' st'))"
  by pat_completeness auto
termination
  by (relation "measure (\<lambda>(F, c, L, rnd, wr, now, l, k, ins, st). input_left ins)")
     (auto intro: get_progress)

declare read_loop.simps [simp del]

definition read_input ::
    "'r dbl \<Rightarrow> pb \<Rightarrow> 'p ldns \<Rightarrow> (nat \<Rightarrow> u16) \<Rightarrow> write_ret \<Rightarrow> (nat \<Rightarrow> 'r) \<Rightarrow> int \<Rightarrow> reader \<Rightarrow>
     (reader result) option" where
  "read_input F c L rnd wr now l rd =
     map_option (\<lambda>r. bindE r (\<lambda>(rd', ps). Inr rd'))
       (read_loop F c L rnd wr now l 0 (rd_ins rd) (rd, pace_init F))"

section \<open>Facts\<close>

text \<open>A message as the reader serialises it.\<close>

definition plain_ok :: "pb \<Rightarrow> dnsmsg \<Rightarrow> bool" where
  "plain_ok c q \<longleftrightarrow> (\<exists>s. SerializeToString c q = Some s \<and> s \<noteq> [])"

lemma read_loop_ok:
  assumes "get_all c L rnd k ins = Inr ms" and "full_writes wr"
    and "clock_advances F now (dbl_of_int F l) T" and "pace_ok F now T ps"
    and "\<forall>q \<in> set ms. raw q \<noteq> [] \<longrightarrow> plain_ok c q \<and> trace_ts F (seconds q) (microseconds q) \<in> T"
  shows "\<exists>rd' ps'. read_loop F c L rnd wr now l k ins (rd, ps) = Some (Inr (rd', ps')) \<and>
     rd_skt rd' = rd_skt rd \<and>
     rd_writes rd' = rd_writes rd @
       concat (map (\<lambda>q. frame_writes (rd_skt rd) (the (SerializeToString c q)))
                 (filter (\<lambda>q. raw q \<noteq> []) ms))"
  using assms
proof (induction ms arbitrary: k ins rd ps)
  case Nil
  then obtain ins' where "get c L (rnd k) ins = Inr (None, ins')"
    by (subst (asm) get_all.simps) (auto simp: fault_simps split: sum.splits option.splits)
  then show ?case by (subst read_loop.simps) simp
next
  case (Cons q ms)
  then obtain ins' where g: "get c L (rnd k) ins = Inr (Some q, ins')"
    "get_all c L rnd (Suc k) ins' = Inr ms"
    by (subst (asm) get_all.simps) (auto simp: fault_simps split: sum.splits option.splits)
  show ?case
  proof (cases "raw q = []")
    case True
    then have "read_msg F c wr now l (rd, ps) q = Some (Inr (rd, ps))" by (simp add: read_msg_def)
    with Cons.IH [OF g(2) Cons.prems(2-4)] Cons.prems(5) True g(1) show ?thesis
      by (subst read_loop.simps) simp
  next
    case False
    let ?s = "the (SerializeToString c q)"
    let ?rd = "rd\<lparr>rd_writes := rd_writes rd @ frame_writes (rd_skt rd) ?s\<rparr>"
    have q: "serialize c q = Inr ?s" "trace_ts F (seconds q) (microseconds q) \<in> T"
      using Cons.prems(5) False by (auto simp: plain_ok_def serialize_def)
    obtain ps1 where ps1: "limit_wait F now (0 < l) (dbl_of_int F l)
        (trace_ts F (seconds q) (microseconds q)) ps = Some ps1" "pace_ok F now T ps1"
      by (rule limit_wait_returns [OF Cons.prems(3,4) q(2)])
    have "read_msg F c wr now l (rd, ps) q = Some (Inr (?rd, ps1))"
      using False q(1) ps1(1) Cons.prems(2) by (simp add: read_msg_def write_frame_full)
    with g(1) have "read_loop F c L rnd wr now l k ins (rd, ps) =
        read_loop F c L rnd wr now l (Suc k) ins' (?rd, ps1)"
      by (subst read_loop.simps) simp
    with Cons.IH [OF g(2) Cons.prems(2,3) ps1(2), of ?rd] Cons.prems(5) False show ?thesis by auto
  qed
qed

section \<open>The start signal\<close>

text \<open>
  The reader compares every read with the whole signal and keeps nothing: when the signal arrives
  in two pieces, it waits on.
\<close>

lemma split_signal_blocks:
  assumes "0 < rd_skt rd" and "0 < k" and "k < length POSTMAN_FLAG"
  shows "unblock rd POSTMAN_FLAG [take k (str_bytes POSTMAN_FLAG), drop k (str_bytes POSTMAN_FLAG)] = Inr False"
proof -
  have "list_all (\<lambda>k. foldl unblock_read_cb POSTMAN_FLAG
      [take k (str_bytes POSTMAN_FLAG), drop k (str_bytes POSTMAN_FLAG)] \<noteq> UNBLOCK_FLAG) [1..<13]"
    by code_simp
  moreover have "k \<in> set [1..<13]" using assms(2,3) by (simp add: POSTMAN_FLAG_def)
  ultimately show ?thesis using assms(1) unfolding list_all_iff unblock_def by fastforce
qed

section \<open>The whole input\<close>

text \<open>
  The reader ends, provided the clock advances, and has then written to the postman every
  query of the input that carries DNS data, in order, each as a four byte length and its
  serialisation.
\<close>

lemma reader_writes_every_query:
  assumes "get_all c L rnd 0 (rd_ins rd) = Inr ms" and "full_writes wr" and "rd_writes rd = []"
    and "qs = filter (\<lambda>q. raw q \<noteq> []) ms" and "\<forall>q \<in> set qs. plain_ok c q"
    and "clock_advances F now (dbl_of_int F l)
           ((\<lambda>q. trace_ts F (seconds q) (microseconds q)) ` set qs)"
  shows "\<exists>rd'. read_input F c L rnd wr now l rd = Some (Inr rd') \<and>
     stream (rd_skt rd) (rd_writes rd') =
       concat (map (\<lambda>q. frame32 (the (SerializeToString c q))) qs)"
proof -
  let ?T = "(\<lambda>q. trace_ts F (seconds q) (microseconds q)) ` set qs"
  have "\<forall>q \<in> set ms. raw q \<noteq> [] \<longrightarrow> plain_ok c q \<and> trace_ts F (seconds q) (microseconds q) \<in> ?T"
    using assms(4,5) by auto
  from read_loop_ok [OF assms(1,2,6) pace_init_ok [OF assms(6)] this, of rd]
  obtain rd' ps' where "read_loop F c L rnd wr now l 0 (rd_ins rd) (rd, pace_init F) = Some (Inr (rd', ps'))"
    "rd_writes rd' = concat (map (\<lambda>q. frame_writes (rd_skt rd) (the (SerializeToString c q))) qs)"
    using assms(3,4) by auto
  then show ?thesis by (auto simp: read_input_def stream_concat comp_def)
qed

end
