(* ===== verification/Postman.thy ===== *)
theory Postman
  imports Client_Filter Reader
begin

text \<open>
  The postman process of the controller (\<^verbatim>\<open>postman.cc\<close>): it accepts the connections of the
  clients, tells the reader to start when all are there, and distributes the reader's queries,
  each source address to one client, chosen by the filter or uniformly.  The draws of the random
  distributions are parameters; bufferevents are numbered handles and their writes a log.
\<close>

section \<open>State\<close>

record postman =
  pm_num_clients :: u32
  pm_start_read_input :: bool
  pm_done_sync_time :: bool
  pm_filter :: client_filter
  pm_output_file :: string
  pm_out_open :: bool
  pm_out_text :: bytes
  pm_stdout :: bytes
  pm_skt_buffer :: bytes
  pm_skt_live :: bool
  pm_skt_written :: bytes
  pm_src2fd :: "string \<rightharpoonup> int"
  pm_fd2bev :: "(int \<times> nat) list"
  pm_fd2src :: "int \<rightharpoonup> string list"
  pm_client_fds :: "int list"
  pm_live :: "nat list"
  pm_next_bev :: nat
  pm_writes :: "nat writes"
  pm_uniform_filter :: "nat \<Rightarrow> int"
  pm_uniform_client :: "nat \<Rightarrow> int"
  pm_draws :: nat

definition Postman_new ::
    "(string \<Rightarrow> string list option) \<Rightarrow> (string \<Rightarrow> bool) \<Rightarrow> (nat \<Rightarrow> int) \<Rightarrow> (nat \<Rightarrow> int) \<Rightarrow>
     string \<Rightarrow> string \<Rightarrow> int \<Rightarrow> int \<Rightarrow> client_filter \<Rightarrow> postman result" where
  "Postman_new files opens uf uc ofn ip port n f =
     bindE (Filter_Set files Filter_default (GetFilterInput f) (GetNumClients f)) (\<lambda>cf.
       if GetNumClients cf \<noteq> 0 \<and> GetFilterInput cf \<noteq> [] \<and>
          (\<not> Valid cf \<or> n \<noteq> GetNumClients cf)
       then Inl (Exit 1 ''client filter is invalid'')
       else if port \<le> 0 then Inl (Exit 1 ''listen port is invalid'')
       else if length ip = 0 then Inl (Exit 1 ''listen ip is invalid'')
       else if (of_int n :: u32) = 0 then Inl (Exit 1 ''client number is invalid'')
       else if ofn \<noteq> [] \<and> ofn \<noteq> ''-'' \<and> \<not> opens ofn then Inl (Assertion ''out_fs.is_open()'')
       else Inr \<lparr>pm_num_clients = of_int n, pm_start_read_input = False, pm_done_sync_time = False,
         pm_filter = cf, pm_output_file = ofn, pm_out_open = (ofn \<noteq> [] \<and> ofn \<noteq> ''-''),
         pm_out_text = [], pm_stdout = [], pm_skt_buffer = [], pm_skt_live = False,
         pm_skt_written = [], pm_src2fd = Map.empty, pm_fd2bev = [], pm_fd2src = Map.empty,
         pm_client_fds = [], pm_live = [], pm_next_bev = 0, pm_writes = [],
         pm_uniform_filter = uf, pm_uniform_client = uc, pm_draws = 0\<rparr>)"

section \<open>Operations\<close>

text \<open>Dropping a client: its descriptor stays in \<open>pm_client_fds\<close>.\<close>

definition client_bevent_cb :: "int \<Rightarrow> postman \<Rightarrow> postman result" where
  "client_bevent_cb fd s =
     (case map_of (pm_fd2bev s) fd of
        None \<Rightarrow> Inl (Exit 1 ''cannot find fd in record'')
      | Some _ \<Rightarrow>
          let s1 = s\<lparr>pm_fd2bev := filter (\<lambda>x. fst x \<noteq> fd) (pm_fd2bev s)\<rparr>
          in case pm_fd2src s1 fd of
               None \<Rightarrow> Inr s1
             | Some srcs \<Rightarrow>
                 Inr (s1\<lparr>pm_src2fd := (pm_src2fd s1) |` (- set srcs),
                         pm_fd2src := (pm_fd2src s1)(fd := None)\<rparr>))"

definition pm_err_msg :: "string \<Rightarrow> u16 \<Rightarrow> string" where
  "pm_err_msg sock_err which =
     (if which AND BEV_EVENT_CONNECTED \<noteq> 0 then []
      else if which AND BEV_EVENT_ERROR \<noteq> 0 then sock_err
      else if which AND (BEV_EVENT_EOF OR BEV_EVENT_TIMEOUT) \<noteq> 0
      then (if which AND BEV_EVENT_TIMEOUT \<noteq> 0 then ''timeout'' else ''got a close'')
      else [])"

text \<open>\<^verbatim>\<open>bufferevent_free\<close>; releasing a handle twice has no meaning.\<close>

definition pm_bev_free :: "postman \<Rightarrow> nat \<Rightarrow> postman result" where
  "pm_bev_free s b =
     (if b \<in> set (pm_live s) then Inr (s\<lparr>pm_live := removeAll b (pm_live s)\<rparr>)
      else Inl (Undefined ''bufferevent freed twice''))"

definition client_bevent_cb_helper ::
    "string \<Rightarrow> nat \<Rightarrow> int \<Rightarrow> u16 \<Rightarrow> postman \<Rightarrow> postman result" where
  "client_bevent_cb_helper sock_err bev fd which s =
     (if pm_err_msg sock_err which = [] then Inr s
      else bindE (pm_bev_free s bev) (client_bevent_cb fd))"

text \<open>
  The client of a source address.  The result is \<open>None\<close> where \<^verbatim>\<open>client_fd2bev[fd]\<close> inserts and
  returns a null pointer; the caller's assertion fails then.
\<close>

definition draw_index :: "postman \<Rightarrow> (int \<times> postman) result" where
  "draw_index s =
     (let s' = s\<lparr>pm_draws := Suc (pm_draws s)\<rparr>
      in if GetNumClients (pm_filter s) \<noteq> 0
         then bindE (GetClientIndex (pm_filter s) (pm_uniform_filter s (pm_draws s)))
                (\<lambda>idx. Inr (idx, s'))
         else Inr (pm_uniform_client s (pm_draws s), s'))"

definition add_source :: "postman \<Rightarrow> string \<Rightarrow> int \<Rightarrow> postman" where
  "add_source s ip fd =
     s\<lparr>pm_src2fd := (pm_src2fd s)(ip \<mapsto> fd),
       pm_fd2src := (pm_fd2src s)(fd \<mapsto> (case pm_fd2src s fd of None \<Rightarrow> [] | Some v \<Rightarrow> v) @ [ip])\<rparr>"

definition rand_client :: "postman \<Rightarrow> string \<Rightarrow> (nat option \<times> postman) result" where
  "rand_client s ip =
     (case pm_src2fd s ip of
        Some fd \<Rightarrow> Inr (map_of (pm_fd2bev s) fd, s)
      | None \<Rightarrow>
          if length (pm_fd2bev s) = 0 then Inl (Exit 1 ''no more clients left'')
          else bindE (draw_index s) (\<lambda>(idx, s1).
                 if idx < 0 \<or> int (length (pm_client_fds s1)) \<le> idx
                 then Inl (Exit 1 ''client idx out of range'')
                 else let fd = pm_client_fds s1 ! nat idx
                      in Inr (map_of (pm_fd2bev s1) fd, add_source s1 ip fd)))"

definition pick_client :: "postman \<Rightarrow> string \<Rightarrow> (nat \<times> postman) result" where
  "pick_client s ip =
     bindE (rand_client s ip) (\<lambda>(b, s'). case b of None \<Rightarrow> Inl (Assertion ''bev'') | Some b \<Rightarrow> Inr (b, s'))"

text \<open>One message from the reader.\<close>

definition pm_sync :: "pb \<Rightarrow> postman \<Rightarrow> dnsmsg \<Rightarrow> postman result" where
  "pm_sync c s msg =
     (if pm_done_sync_time s then Inr s
      else bindE (serialize c (set_sync_time True msg)) (\<lambda>str.
             Inr (s\<lparr>pm_done_sync_time := True,
                    pm_writes := pm_writes s @
                      concat (map (\<lambda>x. frame_writes (snd x) str) (pm_fd2bev s))\<rparr>)))"

definition skt_msg :: "pb \<Rightarrow> postman \<Rightarrow> bytes \<Rightarrow> postman result" where
  "skt_msg c s d =
     (let msg = ParseFromArray c d
      in if raw msg = [] then Inr s
         else bindE (pm_sync c s msg) (\<lambda>s1.
              bindE (serialize c (set_sync_time False msg)) (\<lambda>str.
              bindE (pick_client s1 (c_str (src_ip msg))) (\<lambda>(b, s2).
                Inr (s2\<lparr>pm_writes := pm_writes s2 @ frame_writes b str\<rparr>)))))"

text \<open>
  The loop tests the size of the buffer after a message, not before the first one.  With three
  bytes the terminating null of the string is read as the fourth; the bytes left wrap around, so
  the message is taken to be complete.
\<close>

function skt_loop :: "pb \<Rightarrow> bytes \<Rightarrow> postman \<Rightarrow> (postman \<times> bytes) result" where
  "skt_loop c b s =
     (if length b < 3 then Inl (Undefined ''skt_read_cb: read past the buffer'')
      else if length b = 3
      then (if rd32 (b ! 0) (b ! 1) (b ! 2) 0 = 0 then Inl (Uncaught Out_of_range)
            else Inl (Undefined ''skt_read_cb: read past the buffer''))
      else let sz = rd32 (b ! 0) (b ! 1) (b ! 2) (b ! 3);
               left = (of_nat (length b - 4) :: u32)
           in if left < sz then Inr (s, b)
              else bindE (skt_msg c s (take (unat sz) (drop 4 b))) (\<lambda>s'.
                     let r = drop (unat sz + 4) b
                     in if 4 < length r then skt_loop c r s' else Inr (s', r)))"
  by pat_completeness auto
termination
  by (relation "measure (\<lambda>(c, b, s). length b)") auto

declare skt_loop.simps [simp del]

definition skt_read_cb :: "pb \<Rightarrow> postman \<Rightarrow> bytes \<Rightarrow> postman result" where
  "skt_read_cb c s data =
     bindE (skt_loop c (pm_skt_buffer s @ data) s) (\<lambda>(s', b). Inr (s'\<lparr>pm_skt_buffer := b\<rparr>))"

definition skt_event_cb :: "string \<Rightarrow> u16 \<Rightarrow> postman \<Rightarrow> postman result" where
  "skt_event_cb sock_err which s =
     (if pm_err_msg sock_err which = [] then Inr s
      else if pm_skt_live s then Inr (s\<lparr>pm_skt_live := False\<rparr>)
      else Inl (Undefined ''bufferevent freed twice''))"

text \<open>Data of a client, printed as a C string from a buffer without a terminator.\<close>

definition client_read_cb :: "postman \<Rightarrow> bytes \<Rightarrow> postman result" where
  "client_read_cb s data =
     (if pm_output_file s = [] then Inr s
      else if 0 \<notin> set data then Inl (Undefined ''client_read_cb: read past the buffer'')
      else if pm_out_open s then Inr (s\<lparr>pm_out_text := pm_out_text s @ c_data data\<rparr>)
      else Inr (s\<lparr>pm_stdout := pm_stdout s @ c_data data\<rparr>))"

text \<open>
  A new connection; \<open>addr\<close> is the text of the peer's address, \<open>None\<close> when it cannot be made.
\<close>

definition accept_conn_cb :: "string option \<Rightarrow> int \<Rightarrow> postman \<Rightarrow> postman result" where
  "accept_conn_cb addr fd s =
     (case addr of
        None \<Rightarrow> Inl (Undefined ''string from a deleted buffer'')
      | Some ip \<Rightarrow>
          let b = pm_next_bev s;
              s1 = s\<lparr>pm_next_bev := Suc b, pm_live := b # pm_live s,
                     pm_fd2bev := (fd, b) # filter (\<lambda>x. fst x \<noteq> fd) (pm_fd2bev s),
                     pm_fd2src := (pm_fd2src s)(fd \<mapsto> []),
                     pm_client_fds := pm_client_fds s @ [fd]\<rparr>
          in if \<not> pm_start_read_input s1 \<and> length (pm_fd2bev s1) = unat (pm_num_clients s1)
             then Inr (s1\<lparr>pm_skt_written := pm_skt_written s1 @ str_bytes POSTMAN_FLAG,
                          pm_start_read_input := True\<rparr>)
             else Inr s1)"

section \<open>The event loop\<close>

datatype pm_event =
    Accept "string option" int
  | Peer_read nat bytes
  | Peer_event nat int u16 string
  | Skt_read bytes
  | Skt_event u16 string

fun pm_handle :: "pb \<Rightarrow> postman \<Rightarrow> pm_event \<Rightarrow> postman result" where
  "pm_handle c s (Accept addr fd) = accept_conn_cb addr fd s"
| "pm_handle c s (Peer_read b d) = (if b \<in> set (pm_live s) then client_read_cb s d else Inr s)"
| "pm_handle c s (Peer_event b fd w err) =
     (if b \<in> set (pm_live s) then client_bevent_cb_helper err b fd w s else Inr s)"
| "pm_handle c s (Skt_read d) = (if pm_skt_live s then skt_read_cb c s d else Inr s)"
| "pm_handle c s (Skt_event w err) = (if pm_skt_live s then skt_event_cb err w s else Inr s)"

text \<open>
  \<^verbatim>\<open>start\<close>: \<open>inet_ok\<close> and \<open>listen_ok\<close> are the results of \<^verbatim>\<open>inet_aton\<close> and of the listener.  At the end
  the reader's bufferevent and every one in \<^verbatim>\<open>client_fd2bev\<close> are freed.
\<close>

definition Postman_start :: "pb \<Rightarrow> bool \<Rightarrow> bool \<Rightarrow> pm_event list \<Rightarrow> postman \<Rightarrow> postman result" where
  "Postman_start c inet_ok listen_ok evs s =
     (if \<not> inet_ok then Inl (Exit 1 ''listening ip is invalid'')
      else if \<not> listen_ok then Inl (Exit 1 ''cannot create listener'')
      else bindE (foldE (pm_handle c) (s\<lparr>pm_skt_live := True\<rparr>) evs) (\<lambda>s1.
           if \<not> pm_skt_live s1 then Inl (Undefined ''bufferevent freed twice'')
           else foldE pm_bev_free (s1\<lparr>pm_skt_live := False\<rparr>) (map snd (pm_fd2bev s1))))"

section \<open>The assignment of sources to clients\<close>

text \<open>
  Every draw picks a client by its position: a law of the random distributions, and of the
  filter where one is set.
\<close>

definition draws_ok :: "postman \<Rightarrow> bool" where
  "draws_ok s \<longleftrightarrow>
     (\<forall>k. \<exists>idx. (if GetNumClients (pm_filter s) \<noteq> 0
                 then GetClientIndex (pm_filter s) (pm_uniform_filter s k)
                 else Inr (pm_uniform_client s k)) = Inr idx \<and>
               0 \<le> idx \<and> idx < int (length (pm_client_fds s)))"

text \<open>All clients that were accepted are connected.\<close>

definition pm_good :: "postman \<Rightarrow> bool" where
  "pm_good s \<longleftrightarrow>
     pm_client_fds s \<noteq> [] \<and> set (pm_client_fds s) \<subseteq> dom (map_of (pm_fd2bev s)) \<and>
     distinct (map snd (pm_fd2bev s)) \<and> ran (pm_src2fd s) \<subseteq> set (pm_client_fds s) \<and> draws_ok s"

definition pm_table :: "postman \<Rightarrow> string \<rightharpoonup> nat" where
  "pm_table s ip = (case pm_src2fd s ip of None \<Rightarrow> None | Some fd \<Rightarrow> map_of (pm_fd2bev s) fd)"

definition pm_peers :: "postman \<Rightarrow> nat set" where
  "pm_peers s = snd ` set (pm_fd2bev s)"

text \<open>Fields the assignment does not depend on.\<close>

lemma pm_frame [simp]:
  "pm_good (s\<lparr>pm_writes := w\<rparr>) = pm_good s" "pm_table (s\<lparr>pm_writes := w\<rparr>) = pm_table s"
  "pm_good (s\<lparr>pm_draws := k\<rparr>) = pm_good s" "pm_table (s\<lparr>pm_draws := k\<rparr>) = pm_table s"
  "pm_good (s\<lparr>pm_done_sync_time := t\<rparr>) = pm_good s"
  "pm_table (s\<lparr>pm_done_sync_time := t\<rparr>) = pm_table s"
  by (auto simp: pm_good_def draws_ok_def pm_table_def fun_eq_iff split: option.splits)

lemma pm_table_add_source: "pm_table (add_source s ip fd) = (pm_table s)(ip := map_of (pm_fd2bev s) fd)"
  by (auto simp: pm_table_def add_source_def fun_eq_iff split: option.splits)

lemma draw_index_ok:
  assumes "pm_good s"
  obtains idx where "draw_index s = Inr (idx, s\<lparr>pm_draws := Suc (pm_draws s)\<rparr>)"
    "0 \<le> idx" "idx < int (length (pm_client_fds s))"
proof -
  from assms obtain idx where "(if GetNumClients (pm_filter s) \<noteq> 0
      then GetClientIndex (pm_filter s) (pm_uniform_filter s (pm_draws s))
      else Inr (pm_uniform_client s (pm_draws s))) = Inr idx"
    "0 \<le> idx" "idx < int (length (pm_client_fds s))"
    unfolding pm_good_def draws_ok_def by blast
  then show thesis by (intro that [of idx]) (auto simp: draw_index_def split: if_split_asm)
qed

lemma pick_client_fresh:
  assumes "pm_good s" and "pm_src2fd s ip = None"
  obtains fd b where
    "pick_client s ip = Inr (b, add_source (s\<lparr>pm_draws := Suc (pm_draws s)\<rparr>) ip fd)"
    "fd \<in> set (pm_client_fds s)" "map_of (pm_fd2bev s) fd = Some b"
proof -
  obtain idx where i: "draw_index s = Inr (idx, s\<lparr>pm_draws := Suc (pm_draws s)\<rparr>)"
    "0 \<le> idx" "idx < int (length (pm_client_fds s))"
    using draw_index_ok [OF assms(1)] .
  let ?fd = "pm_client_fds s ! nat idx"
  have fd: "?fd \<in> set (pm_client_fds s)" using i by simp
  then have "?fd \<in> dom (map_of (pm_fd2bev s))" using assms(1) unfolding pm_good_def by blast
  then obtain b where b: "map_of (pm_fd2bev s) ?fd = Some b" by blast
  then have "pm_fd2bev s \<noteq> []" by auto
  with i b assms(2) have "pick_client s ip = Inr (b, add_source (s\<lparr>pm_draws := Suc (pm_draws s)\<rparr>) ip ?fd)"
    by (simp add: pick_client_def rand_client_def)
  then show thesis by (rule that [OF _ fd b])
qed

lemma add_source_good:
  assumes "pm_good s" and "fd \<in> set (pm_client_fds s)"
  shows "pm_good (add_source (s\<lparr>pm_draws := k\<rparr>) ip fd)"
  using assms by (auto simp: pm_good_def draws_ok_def add_source_def ran_def)

interpretation pm_router: sticky_router pick_client pm_table pm_good pm_peers
proof
  fix s ip d
  assume "pm_good s" "pm_table s ip = Some d"
  then show "pick_client s ip = Inr (d, s)"
    by (auto simp: pm_table_def pick_client_def rand_client_def split: option.splits)
next
  fix s ip
  assume good: "pm_good s" and none: "pm_table s ip = None"
  have src: "pm_src2fd s ip = None"
  proof (rule ccontr)
    assume "pm_src2fd s ip \<noteq> None"
    then obtain fd where fd: "pm_src2fd s ip = Some fd" by blast
    then have "fd \<in> set (pm_client_fds s)" using good by (auto simp: pm_good_def intro: ranI)
    then have "fd \<in> dom (map_of (pm_fd2bev s))" using good unfolding pm_good_def by blast
    with fd none show False by (auto simp: pm_table_def)
  qed
  obtain fd b where p: "pick_client s ip = Inr (b, add_source (s\<lparr>pm_draws := Suc (pm_draws s)\<rparr>) ip fd)"
    "fd \<in> set (pm_client_fds s)" "map_of (pm_fd2bev s) fd = Some b"
    using pick_client_fresh [OF good src] .
  have "b \<in> pm_peers s" using p(3) unfolding pm_peers_def by (force dest: map_of_SomeD)
  with p add_source_good [OF good p(2)] show "\<exists>d s'. pick_client s ip = Inr (d, s') \<and>
      pm_table s' = (pm_table s)(ip \<mapsto> d) \<and> d \<in> pm_peers s \<and> pm_good s' \<and> pm_peers s' = pm_peers s"
    by (simp add: pm_table_add_source) (simp add: add_source_def pm_peers_def)
next
  fix s
  assume "pm_good s"
  show "ran (pm_table s) \<subseteq> pm_peers s"
    by (auto simp: pm_table_def ran_def pm_peers_def split: option.splits) (force dest: map_of_SomeD)
qed

section \<open>Messages from the reader\<close>

lemma pick_client_frame:
  assumes "pick_client s ip = Inr (b, s')"
  shows "pm_writes s' = pm_writes s" "pm_done_sync_time s' = pm_done_sync_time s"
    "pm_fd2bev s' = pm_fd2bev s"
proof -
  have d: "draw_index s = Inr (i, t) \<Longrightarrow> t = s\<lparr>pm_draws := Suc (pm_draws s)\<rparr>" for i t
    by (auto simp: draw_index_def fault_simps Let_def split: if_splits)
  obtain x where "rand_client s ip = Inr (x, s')"
    using assms by (auto simp: pick_client_def fault_simps split: option.splits)
  then have "s' = s \<or> (\<exists>fd. s' = add_source (s\<lparr>pm_draws := Suc (pm_draws s)\<rparr>) ip fd)"
    by (auto simp: rand_client_def fault_simps Let_def dest!: d split: option.splits if_splits)
  then show "pm_writes s' = pm_writes s" "pm_done_sync_time s' = pm_done_sync_time s"
    "pm_fd2bev s' = pm_fd2bev s"
    by (auto simp: add_source_def)
qed

lemma stream_broadcast_snd:
  "distinct (map snd xs) \<Longrightarrow>
   stream b (concat (map (\<lambda>x. frame_writes (snd x) str) xs)) =
   (if b \<in> snd ` set xs then frame32 str else [])"
  using stream_broadcast [of "map snd xs" b str] by (simp add: comp_def)

lemma pm_sync_ok:
  assumes "pm_good s" and "serializable c q"
  obtains s' where "pm_sync c s q = Inr s'" "pm_good s'" "pm_done_sync_time s'"
    "pm_table s' = pm_table s" "pm_peers s' = pm_peers s"
    "\<forall>b \<in> pm_peers s. stream b (pm_writes s') = stream b (pm_writes s) @
       (if pm_done_sync_time s then [] else frame32 (ser c True q))"
proof (cases "pm_done_sync_time s")
  case True
  then show thesis using assms that [of s] by (simp add: pm_sync_def)
next
  case False
  let ?s = "s\<lparr>pm_done_sync_time := True, pm_writes := pm_writes s @
     concat (map (\<lambda>x. frame_writes (snd x) (ser c True q)) (pm_fd2bev s))\<rparr>"
  have "pm_sync c s q = Inr ?s" using False assms(2) by (simp add: pm_sync_def serialize_ok)
  moreover have "distinct (map snd (pm_fd2bev s))" using assms(1) by (simp add: pm_good_def)
  ultimately show thesis
    using that [of ?s] False assms(1) by (simp add: pm_peers_def stream_broadcast_snd)
qed

lemma skt_msgs_delivered:
  assumes "pm_good s" and "qs = filter (\<lambda>q. raw q \<noteq> []) (map (ParseFromArray c) ps)"
    and "\<forall>q \<in> set qs. serializable c q"
  shows "\<exists>s'. foldE (skt_msg c) s ps = Inr s' \<and> pm_good s' \<and> pm_peers s' = pm_peers s \<and>
     pm_table s \<subseteq>\<^sub>m pm_table s' \<and> (\<forall>q \<in> set qs. assigned (pm_table s') (pm_peers s) q) \<and>
     (\<forall>b \<in> pm_peers s. stream b (pm_writes s') = stream b (pm_writes s) @
        concat (map frame32 (routed c (pm_done_sync_time s) (pm_table s') b qs)))"
  using assms
proof (induction ps arbitrary: s qs)
  case Nil
  then show ?case by (simp add: routed_def)
next
  case (Cons p ps)
  let ?q = "ParseFromArray c p" and ?qs = "filter (\<lambda>q. raw q \<noteq> []) (map (ParseFromArray c) ps)"
  show ?case
  proof (cases "raw ?q = []")
    case True
    then have "skt_msg c s p = Inr s" by (simp add: skt_msg_def)
    with Cons.IH [OF Cons.prems(1) refl] Cons.prems(2,3) True show ?thesis by simp
  next
    case False
    have ser: "serializable c ?q" "\<forall>q \<in> set ?qs. serializable c q"
      using Cons.prems(2,3) False by auto
    obtain s1 where s1: "pm_sync c s ?q = Inr s1" "pm_good s1" "pm_done_sync_time s1"
      "pm_table s1 = pm_table s" "pm_peers s1 = pm_peers s"
      "\<forall>b \<in> pm_peers s. stream b (pm_writes s1) = stream b (pm_writes s) @
         (if pm_done_sync_time s then [] else frame32 (ser c True ?q))"
      using pm_sync_ok [OF Cons.prems(1) ser(1)] .
    obtain b s2 where s2: "pick_client s1 (c_str (src_ip ?q)) = Inr (b, s2)"
      "pm_table s2 (c_str (src_ip ?q)) = Some b" "pm_table s1 \<subseteq>\<^sub>m pm_table s2"
      "pm_good s2" "pm_peers s2 = pm_peers s1" "b \<in> pm_peers s1"
      using pm_router.assign_step [OF s1(2)] by metis
    note fr = pick_client_frame [OF s2(1)]
    let ?s3 = "s2\<lparr>pm_writes := pm_writes s2 @ frame_writes b (ser c False ?q)\<rparr>"
    have step: "skt_msg c s p = Inr ?s3"
      using False s1(1) s2(1) ser(1) by (simp add: skt_msg_def serialize_ok)
    have s3: "pm_good ?s3" "pm_table ?s3 = pm_table s2" "pm_peers ?s3 = pm_peers s"
      using s2(4,5) s1(5) by (simp_all add: pm_peers_def)
    obtain s' where s': "foldE (skt_msg c) ?s3 ps = Inr s'" "pm_good s'" "pm_peers s' = pm_peers s"
      "pm_table s2 \<subseteq>\<^sub>m pm_table s'" "\<forall>q \<in> set ?qs. assigned (pm_table s') (pm_peers s) q"
      and st: "\<forall>b \<in> pm_peers s. stream b (pm_writes s') = stream b (pm_writes ?s3) @
        concat (map frame32 (routed c True (pm_table s') b ?qs))"
      using Cons.IH [OF s3(1) refl ser(2)] s3(2,3) fr(2) s1(3) by auto
    have tb: "pm_table s' (c_str (src_ip ?q)) = Some b" using s2(2) s'(4) by (metis domI map_le_def)
    have "stream d (pm_writes s') = stream d (pm_writes s) @
        concat (map frame32 (routed c (pm_done_sync_time s) (pm_table s') d (?q # ?qs)))"
      if "d \<in> pm_peers s" for d
      using that st s1(6) fr(1) tb by (auto simp: routed_def)
    moreover have "qs = ?q # ?qs" using Cons.prems(2) False by simp
    moreover have "pm_table s \<subseteq>\<^sub>m pm_table s'" using s1(4) s2(3) s'(4) map_le_trans by metis
    moreover have "assigned (pm_table s') (pm_peers s) ?q" using tb s2(6) s1(5) by (auto intro: assignedI)
    ultimately show ?thesis using step s' by simp
  qed
qed

text \<open>
  The loop with the test before the first message; it is the contract's receive loop, and it
  agrees with the code on buffers of more than four bytes.
\<close>

definition guarded_loop :: "pb \<Rightarrow> bytes \<Rightarrow> postman \<Rightarrow> (postman \<times> bytes) result" where
  "guarded_loop c b s = (if length b \<le> 4 then Inr (s, b) else skt_loop c b s)"

interpretation pm_loop: frame_loop step32 lim32 "skt_msg c" "guarded_loop c" for c
proof
  fix b p r s
  assume "step32 b = None"
  then show "guarded_loop c b s = Inr (s, b)"
    by (subst guarded_loop_def, subst skt_loop.simps)
       (auto simp: step32_def Let_def split: if_split_asm simp del: of_nat_diff)
next
  fix b p r s
  assume st: "step32 b = Some (p, r)"
  let ?sz = "rd32 (b ! 0) (b ! 1) (b ! 2) (b ! 3)"
  have sz: "4 < length b" "\<not> (of_nat (length b - 4) :: u32) < ?sz"
    "p = take (unat ?sz) (drop 4 b)" "r = drop (unat ?sz + 4) b"
    using st unfolding step32_def Let_def by (simp_all split: if_split_asm del: of_nat_diff)
  have "guarded_loop c b s = bindE (skt_msg c s p) (\<lambda>s'. if 4 < length r then skt_loop c r s' else Inr (s', r))"
    using sz(1,2) unfolding sz(3,4) guarded_loop_def
    by (subst skt_loop.simps) (simp add: Let_def del: of_nat_diff cong: if_cong)
  also have "(\<lambda>s'. if 4 < length r then skt_loop c r s' else Inr (s', r)) = guarded_loop c r"
    by (auto simp: guarded_loop_def fun_eq_iff)
  finally show "guarded_loop c b s = bindE (skt_msg c s p) (guarded_loop c r)" .
qed

text \<open>
  The handling of the reader's messages does not look at the receive buffer, nor at what was printed
  for the clients.  A bystander is an update of the object that leaves alone the fields that the
  routing of a message uses; it can be made before or after a message is handled.
\<close>

locale pm_bystander =
  fixes u :: "postman \<Rightarrow> postman"
  assumes reads [simp]:
    "pm_done_sync_time (u s) = pm_done_sync_time s" "pm_filter (u s) = pm_filter s"
    "pm_src2fd (u s) = pm_src2fd s" "pm_fd2bev (u s) = pm_fd2bev s" "pm_fd2src (u s) = pm_fd2src s"
    "pm_client_fds (u s) = pm_client_fds s" "pm_writes (u s) = pm_writes s" "pm_draws (u s) = pm_draws s"
    "pm_uniform_filter (u s) = pm_uniform_filter s" "pm_uniform_client (u s) = pm_uniform_client s"
    and updates [simp]:
    "(u s)\<lparr>pm_draws := k\<rparr> = u (s\<lparr>pm_draws := k\<rparr>)" "(u s)\<lparr>pm_writes := w\<rparr> = u (s\<lparr>pm_writes := w\<rparr>)"
    "(u s)\<lparr>pm_src2fd := x, pm_fd2src := y\<rparr> = u (s\<lparr>pm_src2fd := x, pm_fd2src := y\<rparr>)"
    "(u s)\<lparr>pm_done_sync_time := t, pm_writes := w\<rparr> = u (s\<lparr>pm_done_sync_time := t, pm_writes := w\<rparr>)"
begin

lemma pick_client_by: "pick_client (u s) ip = bindE (pick_client s ip) (\<lambda>(b, s'). Inr (b, u s'))"
proof -
  have dr: "draw_index (u s) = bindE (draw_index s) (\<lambda>(i, s'). Inr (i, u s'))" for s
    by (auto simp: draw_index_def Let_def bindE_assoc intro!: bindE_cong)
  have ad: "add_source (u s) ip fd = u (add_source s ip fd)" for s fd
    by (simp add: add_source_def)
  have "rand_client (u s) ip = bindE (rand_client s ip) (\<lambda>(x, s'). Inr (x, u s'))"
    by (auto simp: rand_client_def dr ad bindE_assoc Let_def intro!: bindE_cong split: option.split)
  then show ?thesis
    by (auto simp: pick_client_def bindE_assoc intro!: bindE_cong split: option.split)
qed

lemma skt_msg_by: "skt_msg c (u s) d = bindE (skt_msg c s d) (\<lambda>s'. Inr (u s'))"
proof -
  have "pm_sync c (u s) m = bindE (pm_sync c s m) (\<lambda>s'. Inr (u s'))" for m
    by (auto simp: pm_sync_def bindE_assoc intro!: bindE_cong)
  then show ?thesis
    by (auto simp: skt_msg_def Let_def bindE_assoc pick_client_by intro!: bindE_cong)
qed

lemma skt_loop_by: "skt_loop c b (u s) = bindE (skt_loop c b s) (\<lambda>(s', r). Inr (u s', r))"
proof (induction c b s rule: skt_loop.induct)
  case (1 c b s)
  let ?sz = "rd32 (b ! 0) (b ! 1) (b ! 2) (b ! 3)"
  show ?case
  proof (cases "length b \<le> 3 \<or> (of_nat (length b - 4) :: u32) < ?sz")
    case True
    then show ?thesis
      by (subst skt_loop.simps, subst skt_loop.simps [of c b s]) (auto simp: Let_def)
  next
    case False
    let ?r = "drop (unat ?sz + 4) b"
    have big: "\<not> length b < 3" "length b \<noteq> 3" using False by auto
    have l: "skt_loop c b t = bindE (skt_msg c t (take (unat ?sz) (drop 4 b))) (\<lambda>s'.
        if 4 < length ?r then skt_loop c ?r s' else Inr (s', ?r))" for t
      using False big by (subst skt_loop.simps) (simp add: Let_def del: of_nat_diff cong: if_cong)
    have "skt_msg c s (take (unat ?sz) (drop 4 b)) = Inr s' \<Longrightarrow> 4 < length ?r \<Longrightarrow> skt_loop c ?r (u s') = bindE (skt_loop c ?r s') (\<lambda>(s', r). Inr (u s', r))" for s'
      using "1.IH" [OF big refl refl _ _ refl] False by blast
    then show ?thesis
      unfolding l by (auto simp: skt_msg_by bindE_assoc intro!: bindE_cong)
  qed
qed

end

interpretation pm_buffer: pm_bystander "\<lambda>s. s\<lparr>pm_skt_buffer := b\<rparr>" for b
  by unfold_locales simp_all

text \<open>
  At every read of the reader's socket the buffer must hold the four bytes of a length: the loop
  reads them before it looks at the size of the buffer.  The second argument are the reads, the
  first what is in the buffer.
\<close>

fun lengths_whole :: "bytes \<Rightarrow> bytes list \<Rightarrow> bool" where
  "lengths_whole b [] \<longleftrightarrow> True"
| "lengths_whole b (d # ds) \<longleftrightarrow> 4 \<le> length (b @ d) \<and> lengths_whole (snd (deframe step32 (b @ d))) ds"

text \<open>Then the loop is the one that tests before the first message.\<close>

lemma skt_loop_guarded:
  assumes "4 \<le> length y" and "length (y @ rest) \<le> lim32"
    and "deframe step32 (y @ rest) = (ps, [])" and "[] \<notin> set ps"
  shows "skt_loop c y s = guarded_loop c y s"
proof (cases "4 < length y")
  case True
  then show ?thesis by (simp add: guarded_loop_def)
next
  case False
  with assms(1) have len: "length y = 4" by simp
  let ?sz = "rd32 (y ! 0) (y ! 1) (y ! 2) (y ! 3)"
  have "?sz \<noteq> 0"
  proof
    assume z: "?sz = 0"
    show False
    proof (cases rest)
      case Nil
      with assms(3) len show False by (simp add: step32_def)
    next
      case (Cons r rs)
      have "len32 (y @ rest) = 0" using len z by (simp add: len32_append) (simp add: len32_def)
      then have "step32 (y @ rest) = Some ([], rest)"
        using assms(2) len Cons by (simp add: step32_exact)
      from pb32.deframe_Some [OF this] assms(3,4) show False by auto
    qed
  qed
  then have "(of_nat (length y - 4) :: u32) < ?sz" by (simp add: len word_neq_0_conv)
  then show ?thesis using len by (subst skt_loop.simps) (simp add: guarded_loop_def)
qed

lemma skt_read_guarded:
  assumes "4 \<le> length (pm_skt_buffer s @ d)" and "length (pm_skt_buffer s @ d @ rest) \<le> lim32"
    and "deframe step32 (pm_skt_buffer s @ d @ rest) = (ps, [])" and "[] \<notin> set ps"
  shows "skt_read_cb c s d = bindE (foldE (skt_msg c) s (fst (deframe step32 (pm_skt_buffer s @ d))))
     (\<lambda>s'. Inr (s'\<lparr>pm_skt_buffer := snd (deframe step32 (pm_skt_buffer s @ d))\<rparr>))"
  using skt_loop_guarded [OF assms(1), of rest] assms(2-4)
  by (simp add: skt_read_cb_def pm_loop.loop_foldE bindE_assoc)

text \<open>The reads of a stream of whole, non-empty messages are its messages one after the other.\<close>

lemma skt_reads_msgs:
  assumes "lengths_whole (pm_skt_buffer s) chunks" and "step32 (pm_skt_buffer s) = None"
    and "length (pm_skt_buffer s @ concat chunks) \<le> lim32"
    and "deframe step32 (pm_skt_buffer s @ concat chunks) = (ps, [])" and "[] \<notin> set ps"
  shows "foldE (skt_read_cb c) s chunks = bindE (foldE (skt_msg c) s ps) (\<lambda>s'. Inr (s'\<lparr>pm_skt_buffer := []\<rparr>))"
  using assms
proof (induction chunks arbitrary: s ps)
  case Nil
  then have b: "pm_skt_buffer s = []" "ps = []" by simp_all
  then have "s\<lparr>pm_skt_buffer := []\<rparr> = s" by simp
  then show ?case using b by simp
next
  case (Cons d chunks)
  let ?y = "pm_skt_buffer s @ d" and ?rest = "concat chunks"
  let ?r = "snd (deframe step32 ?y)"
  have split: "deframe step32 (?y @ ?rest) = (fst (deframe step32 ?y) @ fst (deframe step32 (?r @ ?rest)),
      snd (deframe step32 (?r @ ?rest)))"
    using pb32.deframe_append [of ?y ?rest] Cons.prems(3) by simp
  then have ps: "ps = fst (deframe step32 ?y) @ fst (deframe step32 (?r @ ?rest))"
    "deframe step32 (?r @ ?rest) = (fst (deframe step32 (?r @ ?rest)), [])"
    using Cons.prems(4) by (simp_all add: prod_eq_iff)
  have one: "skt_read_cb c s d = bindE (foldE (skt_msg c) s (fst (deframe step32 ?y)))
      (\<lambda>s'. Inr (s'\<lparr>pm_skt_buffer := ?r\<rparr>))"
    using Cons.prems by (intro skt_read_guarded [where rest = ?rest and ps = ps]) simp_all
  have "foldE (skt_read_cb c) (s1\<lparr>pm_skt_buffer := ?r\<rparr>) chunks =
      bindE (foldE (skt_msg c) s1 (fst (deframe step32 (?r @ ?rest)))) (\<lambda>s'. Inr (s'\<lparr>pm_skt_buffer := []\<rparr>))" for s1
  proof -
    have fold: "foldE (skt_msg c) (s1\<lparr>pm_skt_buffer := ?r\<rparr>) qs =
        bindE (foldE (skt_msg c) s1 qs) (\<lambda>s'. Inr (s'\<lparr>pm_skt_buffer := ?r\<rparr>))" for qs
      by (induction qs arbitrary: s1) (simp_all add: pm_buffer.skt_msg_by bindE_assoc)
    have "length (?r @ ?rest) \<le> lim32" using pb32.residue_length [of ?y] Cons.prems(3) by simp
    from Cons.IH [of "s1\<lparr>pm_skt_buffer := ?r\<rparr>", OF _ _ _ _ _] this ps Cons.prems(1,5) show ?thesis
      by (simp add: pb32.residue_stuck fold bindE_assoc)
  qed
  then show ?case by (simp add: one ps(1) bindE_assoc foldE_append)
qed

text \<open>A read that leaves fewer than four bytes in the buffer ends the process.\<close>

lemma skt_reads_fail:
  assumes "\<not> lengths_whole (pm_skt_buffer s) chunks"
    and "length (pm_skt_buffer s @ concat chunks) \<le> lim32"
    and "deframe step32 (pm_skt_buffer s @ concat chunks) = (ps, [])" and "[] \<notin> set ps"
  shows "\<exists>e. foldE (skt_read_cb c) s chunks = Inl e"
  using assms
proof (induction chunks arbitrary: s ps)
  case Nil
  then show ?case by simp
next
  case (Cons d chunks)
  let ?y = "pm_skt_buffer s @ d" and ?rest = "concat chunks"
  let ?r = "snd (deframe step32 ?y)"
  show ?case
  proof (cases "length ?y < 4")
    case True
    then have "length ?y < 3 \<or> length ?y = 3" by auto
    then have "\<exists>e. skt_loop c ?y s = Inl e" by (subst skt_loop.simps) (auto simp del: length_append)
    then show ?thesis by (auto simp: skt_read_cb_def)
  next
    case False
    have one: "skt_read_cb c s d = bindE (foldE (skt_msg c) s (fst (deframe step32 ?y)))
        (\<lambda>s'. Inr (s'\<lparr>pm_skt_buffer := ?r\<rparr>))"
      using Cons.prems False by (intro skt_read_guarded [where rest = ?rest and ps = ps]) simp_all
    show ?thesis
    proof (cases "foldE (skt_msg c) s (fst (deframe step32 ?y))")
      case (Inl e)
      then show ?thesis by (simp add: one)
    next
      case (Inr s1)
      have split: "deframe step32 (?y @ ?rest) = (fst (deframe step32 ?y) @ fst (deframe step32 (?r @ ?rest)),
          snd (deframe step32 (?r @ ?rest)))"
        using pb32.deframe_append [of ?y ?rest] Cons.prems(2) by simp
      then have ps: "ps = fst (deframe step32 ?y) @ fst (deframe step32 (?r @ ?rest))"
        "deframe step32 (?r @ ?rest) = (fst (deframe step32 (?r @ ?rest)), [])"
        using Cons.prems(3) by (simp_all add: prod_eq_iff)
      have "length (?r @ ?rest) \<le> lim32" using pb32.residue_length [of ?y] Cons.prems(2) by simp
      with Cons.IH [of "s1\<lparr>pm_skt_buffer := ?r\<rparr>", OF _ _ _ _] ps Cons.prems(1,4) False show ?thesis
        by (auto simp: one Inr)
    qed
  qed
qed

text \<open>
  Events that leave the clients connected: data from the reader; data from a client, which the
  postman prints if it has an output file and which it reads as a C string; and events of a socket
  that are no error and no close.
\<close>

fun keeps_clients :: "postman \<Rightarrow> pm_event \<Rightarrow> bool" where
  "keeps_clients s (Accept addr fd) \<longleftrightarrow> False"
| "keeps_clients s (Peer_read b d) \<longleftrightarrow> pm_output_file s = [] \<or> 0 \<in> set d"
| "keeps_clients s (Peer_event b fd w err) \<longleftrightarrow> pm_err_msg err w = []"
| "keeps_clients s (Skt_read d) \<longleftrightarrow> True"
| "keeps_clients s (Skt_event w err) \<longleftrightarrow> pm_err_msg err w = []"

fun skt_reads :: "pm_event list \<Rightarrow> bytes list" where
  "skt_reads [] = []"
| "skt_reads (Skt_read d # evs) = d # skt_reads evs"
| "skt_reads (_ # evs) = skt_reads evs"

interpretation pm_print: pm_bystander "\<lambda>s. s\<lparr>pm_out_text := x, pm_stdout := y\<rparr>" for x y
  by unfold_locales simp_all

lemma skt_reads_print:
  "foldE (skt_read_cb c) (s\<lparr>pm_out_text := x, pm_stdout := y\<rparr>) ds =
   bindE (foldE (skt_read_cb c) s ds) (\<lambda>s'. Inr (s'\<lparr>pm_out_text := x, pm_stdout := y\<rparr>))"
proof -
  have "skt_read_cb c (s\<lparr>pm_out_text := x, pm_stdout := y\<rparr>) d =
      bindE (skt_read_cb c s d) (\<lambda>s'. Inr (s'\<lparr>pm_out_text := x, pm_stdout := y\<rparr>))" for s d
    by (auto simp: skt_read_cb_def pm_print.skt_loop_by bindE_assoc intro!: bindE_cong)
  then show ?thesis by (induction ds arbitrary: s) (simp_all add: bindE_assoc)
qed

lemma skt_loop_preserves:
  assumes "\<And>s d s'. P s \<Longrightarrow> skt_msg c s d = Inr s' \<Longrightarrow> P s'"
  shows "skt_loop c b s = Inr (s', r) \<Longrightarrow> P s \<Longrightarrow> P s'"
  using assms
proof (induction c b s arbitrary: s' rule: skt_loop.induct)
  case (1 c b s)
  let ?sz = "rd32 (b ! 0) (b ! 1) (b ! 2) (b ! 3)"
  from "1.prems"(1) have big: "\<not> length b < 3" "length b \<noteq> 3"
    by (subst (asm) skt_loop.simps, auto split: if_splits)+
  show ?case
  proof (cases "(of_nat (length b - 4) :: u32) < ?sz")
    case True
    with "1.prems" big show ?thesis by (subst (asm) skt_loop.simps) simp
  next
    case False
    with "1.prems"(1) big obtain s1 where s1: "skt_msg c s (take (unat ?sz) (drop 4 b)) = Inr s1"
      "s' = s1 \<or> 4 < length (drop (unat ?sz + 4) b) \<and> skt_loop c (drop (unat ?sz + 4) b) s1 = Inr (s', r)"
      by (subst (asm) skt_loop.simps) (auto simp: Let_def fault_simps split: if_splits)
    then show ?thesis
      using "1.IH" [OF big refl refl False _ refl, of s1 s'] "1.prems"(2,3) by blast
  qed
qed

lemma skt_msg_frame:
  "skt_msg c s d = Inr s' \<Longrightarrow> pm_skt_live s' = pm_skt_live s \<and> pm_output_file s' = pm_output_file s"
  unfolding skt_msg_def pm_sync_def pick_client_def rand_client_def draw_index_def Let_def
  by (auto simp: fault_simps add_source_def split: if_split_asm option.split_asm)

lemma skt_read_cb_frame:
  "skt_read_cb c s d = Inr s' \<Longrightarrow> pm_skt_live s' = pm_skt_live s \<and> pm_output_file s' = pm_output_file s"
  unfolding skt_read_cb_def fault_simps
  by (auto dest!: skt_loop_preserves [where P = "\<lambda>t. pm_skt_live t = pm_skt_live s \<and>
        pm_output_file t = pm_output_file s", rotated] dest: skt_msg_frame)

text \<open>A run over such events is the run over the reads of the reader's socket, and what was printed.\<close>

lemma reads_among_others:
  assumes "\<forall>ev \<in> set evs. keeps_clients s ev" and "pm_skt_live s"
  shows "\<exists>x y. foldE (pm_handle c) s evs =
     bindE (foldE (skt_read_cb c) s (skt_reads evs)) (\<lambda>s'. Inr (s'\<lparr>pm_out_text := x, pm_stdout := y\<rparr>))"
  using assms
proof (induction evs arbitrary: s)
  case Nil
  show ?case by (intro exI [of _ "pm_out_text s"] exI [of _ "pm_stdout s"]) simp
next
  case (Cons ev evs)
  have keep: "keeps_clients t ev \<longleftrightarrow> keeps_clients s ev" if "pm_output_file t = pm_output_file s" for t ev
    using that by (cases ev) simp_all
  have same: ?case if "skt_reads (ev # evs) = skt_reads evs"
    "pm_handle c s ev = Inr (s\<lparr>pm_out_text := x, pm_stdout := y\<rparr>)" for x y
  proof -
    let ?s = "s\<lparr>pm_out_text := x, pm_stdout := y\<rparr>"
    have "\<forall>ev \<in> set evs. keeps_clients ?s ev" using Cons.prems(1) keep [of ?s] by simp
    from Cons.IH [OF this] Cons.prems(2) obtain x' y' where "foldE (pm_handle c) ?s evs =
        bindE (foldE (skt_read_cb c) ?s (skt_reads evs)) (\<lambda>s'. Inr (s'\<lparr>pm_out_text := x', pm_stdout := y'\<rparr>))"
      by auto
    then have "foldE (pm_handle c) ?s evs =
        bindE (foldE (skt_read_cb c) s (skt_reads evs)) (\<lambda>s'. Inr (s'\<lparr>pm_out_text := x', pm_stdout := y'\<rparr>))"
      unfolding skt_reads_print by (simp add: bindE_assoc)
    then show ?thesis using that by (intro exI [of _ x'] exI [of _ y']) simp
  qed
  show ?case
  proof (cases ev)
    case (Skt_read d)
    show ?thesis
    proof (cases "skt_read_cb c s d")
      case (Inl e)
      then show ?thesis using Skt_read Cons.prems(2) by simp
    next
      case (Inr s1)
      note fr = skt_read_cb_frame [OF Inr]
      have "\<forall>ev \<in> set evs. keeps_clients s1 ev" using Cons.prems(1) keep [of s1] fr by simp
      from Cons.IH [OF this] fr Cons.prems(2) Skt_read Inr show ?thesis by simp
    qed
  next
    case (Peer_read b d)
    show ?thesis
    proof (cases "b \<in> set (pm_live s) \<and> pm_output_file s \<noteq> []")
      case True
      then have "\<exists>x y. pm_handle c s ev = Inr (s\<lparr>pm_out_text := x, pm_stdout := y\<rparr>)"
      proof (cases "pm_out_open s")
        case o: True
        with True Peer_read Cons.prems(1) show ?thesis
          by (intro exI [of _ "pm_out_text s @ c_data d"] exI [of _ "pm_stdout s"]) (simp add: client_read_cb_def)
      next
        case o: False
        with True Peer_read Cons.prems(1) show ?thesis
          by (intro exI [of _ "pm_out_text s"] exI [of _ "pm_stdout s @ c_data d"]) (simp add: client_read_cb_def)
      qed
      with same Peer_read show ?thesis by auto
    next
      case False
      then have "pm_handle c s ev = Inr s" using Peer_read by (auto simp: client_read_cb_def)
      with same [of "pm_stdout s" "pm_out_text s"] Peer_read show ?thesis by simp
    qed
  next
    case (Peer_event b fd w err)
    with Cons.prems(1) have "pm_handle c s ev = Inr s" by (simp add: client_bevent_cb_helper_def)
    with same [of "pm_stdout s" "pm_out_text s"] Peer_event show ?thesis by simp
  next
    case (Skt_event w err)
    with Cons.prems(1) have "pm_handle c s ev = Inr s" by (simp add: skt_event_cb_def)
    with same [of "pm_stdout s" "pm_out_text s"] Skt_event show ?thesis by simp
  qed (use Cons.prems(1) in simp)
qed

section \<open>A concrete postman\<close>

definition new_postman :: "postman result" where
  "new_postman = Postman_new (\<lambda>_. None) (\<lambda>_. True) (\<lambda>k. 0) (\<lambda>k. int k mod 2) [] ''10.0.0.1'' 80 2
     Filter_default"

definition demo_postman :: postman where
  "demo_postman = \<lparr>pm_num_clients = 2, pm_start_read_input = False, pm_done_sync_time = False,
     pm_filter = Filter_default, pm_output_file = [], pm_out_open = False, pm_out_text = [],
     pm_stdout = [], pm_skt_buffer = [], pm_skt_live = False, pm_skt_written = [],
     pm_src2fd = Map.empty, pm_fd2bev = [], pm_fd2src = Map.empty, pm_client_fds = [], pm_live = [],
     pm_next_bev = 0, pm_writes = [], pm_uniform_filter = (\<lambda>k. 0),
     pm_uniform_client = (\<lambda>k. int k mod 2), pm_draws = 0\<rparr>"

definition two_clients :: postman where
  "two_clients = demo_postman\<lparr>pm_fd2bev := [(8, 1), (7, 0)], pm_client_fds := [7, 8],
     pm_live := [1, 0], pm_next_bev := 2\<rparr>"

lemma new_postman_demo: "new_postman = Inr demo_postman"
  by (simp add: new_postman_def demo_postman_def Postman_new_def Filter_Set_def Filter_default_def
      GetFilterInput_def GetNumClients_def)

lemma two_clients_good: "pm_good two_clients"
proof -
  have "0 \<le> int k mod 2 \<and> int k mod 2 < 2" for k by simp
  then show ?thesis
    by (simp add: pm_good_def draws_ok_def two_clients_def demo_postman_def Filter_default_def
        GetNumClients_def)
qed

section \<open>Properties\<close>

text \<open>Reads of the reader's socket.\<close>

lemma skt_reads_ok:
  assumes "pm_good s" and "pm_skt_buffer s = []"
    and "\<forall>p \<in> set ps. valid32 p" and "concat chunks = concat (map frame32 ps)"
    and "length (concat chunks) \<le> lim32"
    and "qs = filter (\<lambda>q. raw q \<noteq> []) (map (ParseFromArray c) ps)"
    and "\<forall>q \<in> set qs. serializable c q"
  shows "if lengths_whole [] chunks
     then \<exists>s'. foldE (skt_read_cb c) s chunks = Inr s' \<and> pm_skt_buffer s' = [] \<and>
       (\<forall>q \<in> set qs. assigned (pm_table s') (pm_peers s) q) \<and>
       (\<forall>b \<in> pm_peers s. stream b (pm_writes s') = stream b (pm_writes s) @
          concat (map frame32 (routed c (pm_done_sync_time s) (pm_table s') b qs)))
     else \<exists>e. foldE (skt_read_cb c) s chunks = Inl e"
proof -
  have df: "deframe step32 (concat chunks) = (ps, [])"
    using pb32.deframe_frames [OF assms(3)] assms(4,5) by simp
  have ne: "[] \<notin> set ps" using assms(3) by (auto simp: valid32_def)
  obtain s1 where s1: "foldE (skt_msg c) s ps = Inr s1"
    "\<forall>q \<in> set qs. assigned (pm_table s1) (pm_peers s) q"
    "\<forall>b \<in> pm_peers s. stream b (pm_writes s1) = stream b (pm_writes s) @
        concat (map frame32 (routed c (pm_done_sync_time s) (pm_table s1) b qs))"
    using skt_msgs_delivered [OF assms(1,6,7)] by blast
  have "pm_table (s1\<lparr>pm_skt_buffer := []\<rparr>) = pm_table s1"
    by (auto simp: pm_table_def fun_eq_iff split: option.splits)
  then show ?thesis
    using skt_reads_msgs [of s chunks ps c] skt_reads_fail [of s chunks ps c] df ne assms(2,5) s1
    by (simp add: pb32.step_Nil)
qed

text \<open>
  C10.  While all clients are connected, the reader's queries reach the clients as whole
  messages, however the socket splits the stream into reads, as long as at every read the buffer
  holds the four bytes of a length (as it does when the reader's write of a length arrives in one
  piece, alone or with more): the source of every query is assigned to a client, every client was
  written the first query marked for synchronisation and then exactly the queries whose source is
  assigned to it, in order, and nothing is left over.  A read that leaves fewer than four bytes in
  the buffer ends the postman.  (The stream fits the 32 bits of a length, the messages can be
  serialised.)
\<close>

theorem reader_messages_delivered:
  assumes "pm_good s" and "pm_skt_buffer s = []"
    and "\<forall>p \<in> set ps. valid32 p" and "concat chunks = concat (map frame32 ps)"
    and "length (concat chunks) \<le> lim32"
    and "qs = filter (\<lambda>q. raw q \<noteq> []) (map (ParseFromArray c) ps)"
    and "\<forall>q \<in> set qs. serializable c q"
  shows "if lengths_whole [] chunks
     then \<exists>s'. foldE (skt_read_cb c) s chunks = Inr s' \<and> pm_skt_buffer s' = [] \<and>
       (\<forall>q \<in> set qs. assigned (pm_table s') (pm_peers s) q) \<and>
       (\<forall>b \<in> pm_peers s. stream b (pm_writes s') = stream b (pm_writes s) @
          concat (map frame32 (routed c (pm_done_sync_time s) (pm_table s') b qs)))
     else \<exists>e. foldE (skt_read_cb c) s chunks = Inl e"
  using skt_reads_ok [OF assms] .

theorem reader_messages_delivered_witness:
  "let q = new_DNSMsg\<lparr>f_raw := Some [1], f_src_ip := Some ''a''\<rparr>;
       c = table_pb [q, set_sync_time True q, set_sync_time False q];
       chunks = [[0, 0, 0, 1], [0], [0, 0, 0, 1, 0, 0], [0, 0, 1], [0]]; s = two_clients
   in (\<exists>s'. foldE (skt_read_cb c) s chunks = Inr s' \<and> pm_skt_buffer s' = [] \<and>
     (\<forall>q \<in> set [q, q, q]. assigned (pm_table s') (pm_peers s) q) \<and>
     (\<forall>b \<in> pm_peers s. stream b (pm_writes s') = stream b (pm_writes s) @
        concat (map frame32 (routed c (pm_done_sync_time s) (pm_table s') b [q, q, q]))))"
proof -
  let ?q = "new_DNSMsg\<lparr>f_raw := Some [1], f_src_ip := Some ''a''\<rparr>"
  let ?c = "table_pb [?q, set_sync_time True ?q, set_sync_time False ?q]"
  let ?chunks = "[[0, 0, 0, 1], [0], [0, 0, 0, 1, 0, 0], [0, 0, 1], [0]] :: bytes list"
  have "ParseFromArray ?c [0] = ?q" by (simp add: table_pb_def)
  then have qs: "[?q, ?q, ?q] = filter (\<lambda>q. raw q \<noteq> []) (map (ParseFromArray ?c) [[0], [0], [0]])"
    by (simp add: raw_def)
  have ser: "serializable ?c ?q"
    by (auto simp: serializable_def table_pb_def set_sync_time_def new_DNSMsg_def)
  have whole: "lengths_whole [] ?chunks" by code_simp
  have good: "pm_skt_buffer two_clients = []" "\<forall>p \<in> set [[0], [0], [0]]. valid32 p"
    "concat ?chunks = concat (map frame32 [[0], [0], [0]])" "length (concat ?chunks) \<le> lim32"
    "\<forall>q \<in> set [?q, ?q, ?q]. serializable ?c q"
    using ser by (simp_all add: two_clients_def demo_postman_def valid32_def frame32_def be32_def lim32_def)
  show ?thesis
    unfolding Let_def
    by (rule reader_messages_delivered [OF two_clients_good good(1-4) qs good(5), unfolded if_P [OF whole]])
qed

text \<open>
  C29.  The postman assigns every source address of any sequence of queries to a connected
  client, and equal addresses to the same client, while no client disconnects.
\<close>

theorem postman_assignment_is_sticky:
  assumes "pm_good s"
  shows "\<exists>ds s'. assign_all pick_client s ips = Inr (ds, s') \<and> set ds \<subseteq> pm_peers s \<and>
     length ds = length ips \<and>
     (\<forall>i < length ips. \<forall>j < length ips. ips ! i = ips ! j \<longrightarrow> ds ! i = ds ! j)"
proof -
  obtain ds s' where a: "assign_all pick_client s ips = Inr (ds, s')"
    "map Some ds = map (pm_table s') ips" "set ds \<subseteq> pm_peers s"
    using pm_router.assign_all_table [OF assms, of ips] by auto
  then have "length ds = length ips" by (metis length_map)
  with a pm_router.same_source_same_peer [OF assms a(1)] show ?thesis by blast
qed

theorem postman_assignment_is_sticky_witness:
  "\<exists>ds s'. assign_all pick_client two_clients [''a'', ''b'', ''a''] = Inr (ds, s') \<and>
     set ds \<subseteq> pm_peers two_clients \<and> length ds = length [''a'', ''b'', ''a''] \<and>
     (\<forall>i < length [''a'', ''b'', ''a'']. \<forall>j < length [''a'', ''b'', ''a''].
        [''a'', ''b'', ''a''] ! i = [''a'', ''b'', ''a''] ! j \<longrightarrow> ds ! i = ds ! j)"
  by (rule postman_assignment_is_sticky [OF two_clients_good])

text \<open>The clients connect, on distinct descriptors.\<close>

lemma accept_all:
  assumes "distinct (fds @ map fst (pm_fd2bev s))"
    and "\<not> pm_start_read_input s \<longrightarrow> length (pm_fd2bev s) < unat (pm_num_clients s)"
  shows "\<exists>s'. foldE (\<lambda>s fd. accept_conn_cb (Some ip) fd s) s fds = Inr s' \<and>
     pm_client_fds s' = pm_client_fds s @ fds \<and>
     map fst (pm_fd2bev s') = rev fds @ map fst (pm_fd2bev s) \<and>
     pm_skt_written s' = pm_skt_written s @
       (if \<not> pm_start_read_input s \<and> unat (pm_num_clients s) \<le> length (pm_fd2bev s) + length fds
        then str_bytes POSTMAN_FLAG else [])"
  using assms
proof (induction fds arbitrary: s)
  case Nil
  then show ?case by auto
next
  case (Cons fd fds)
  have "\<exists>s1. accept_conn_cb (Some ip) fd s = Inr s1" by (simp add: accept_conn_cb_def Let_def)
  then obtain s1 where s1: "accept_conn_cb (Some ip) fd s = Inr s1" by blast
  have fd: "filter (\<lambda>x. fst x \<noteq> fd) (pm_fd2bev s) = pm_fd2bev s"
    using Cons.prems(1) by (auto intro!: filter_True)
  have f: "map fst (pm_fd2bev s1) = fd # map fst (pm_fd2bev s)"
    "pm_client_fds s1 = pm_client_fds s @ [fd]" "pm_num_clients s1 = pm_num_clients s"
    "pm_start_read_input s1 \<longleftrightarrow> pm_start_read_input s \<or> Suc (length (pm_fd2bev s)) = unat (pm_num_clients s)"
    "pm_skt_written s1 = pm_skt_written s @
       (if \<not> pm_start_read_input s \<and> Suc (length (pm_fd2bev s)) = unat (pm_num_clients s)
        then str_bytes POSTMAN_FLAG else [])"
    using s1 fd by (auto simp: accept_conn_cb_def Let_def split: if_split_asm)
  have len: "length (pm_fd2bev s1) = Suc (length (pm_fd2bev s))" using f(1) by (metis length_Cons length_map)
  have "\<exists>s'. foldE (\<lambda>s fd. accept_conn_cb (Some ip) fd s) s1 fds = Inr s' \<and>
     pm_client_fds s' = pm_client_fds s1 @ fds \<and>
     map fst (pm_fd2bev s') = rev fds @ map fst (pm_fd2bev s1) \<and>
     pm_skt_written s' = pm_skt_written s1 @
       (if \<not> pm_start_read_input s1 \<and> unat (pm_num_clients s1) \<le> length (pm_fd2bev s1) + length fds
        then str_bytes POSTMAN_FLAG else [])"
    by (rule Cons.IH) (use Cons.prems f len in auto)
  then show ?case using s1 f len Cons.prems(2) by auto
qed

text \<open>
  C30.  The start signal is written to the reader exactly once, when the last of the expected
  clients connects, and that is the text the reader waits for.
\<close>

theorem start_signal_once:
  assumes "Postman_new files opens uf uc ofn ip port n f = Inr s" and "distinct fds"
    and "rd_skt rd > 0"
  shows "\<exists>s'. foldE (\<lambda>s fd. accept_conn_cb (Some addr) fd s) s fds = Inr s' \<and>
     pm_client_fds s' = fds \<and>
     pm_skt_written s' = (if unat (of_int n :: u32) \<le> length fds then str_bytes POSTMAN_FLAG else []) \<and>
     unblock rd POSTMAN_FLAG [str_bytes POSTMAN_FLAG] = Inr True"
proof -
  have s: "pm_fd2bev s = []" "pm_client_fds s = []" "\<not> pm_start_read_input s"
    "pm_skt_written s = []" "pm_num_clients s = of_int n" "(of_int n :: u32) \<noteq> 0"
    using assms(1) by (auto simp: Postman_new_def fault_simps split: if_splits)
  have "unat (of_int n :: u32) > 0" using s(6) by (simp add: unat_gt_0)
  then obtain s' where "foldE (\<lambda>s fd. accept_conn_cb (Some addr) fd s) s fds = Inr s'"
    "pm_client_fds s' = fds"
    "pm_skt_written s' = (if unat (of_int n :: u32) \<le> length fds then str_bytes POSTMAN_FLAG else [])"
    using accept_all [of fds s addr] assms(2) s by auto
  moreover have "unblock_read_cb POSTMAN_FLAG (str_bytes POSTMAN_FLAG) = UNBLOCK_FLAG" by code_simp
  ultimately show ?thesis using assms(3) by (simp add: unblock_def)
qed

theorem start_signal_once_witness:
  "let rd = \<lparr>rd_skt = 4, rd_ins = raw_source [], rd_writes = []\<rparr>
   in \<exists>s'. foldE (\<lambda>s fd. accept_conn_cb (Some ''10.0.0.2'') fd s) demo_postman [7, 8] = Inr s' \<and>
     pm_client_fds s' = [7, 8] \<and>
     pm_skt_written s' = (if unat (of_int 2 :: u32) \<le> length [7 :: int, 8] then str_bytes POSTMAN_FLAG else []) \<and>
     unblock rd POSTMAN_FLAG [str_bytes POSTMAN_FLAG] = Inr True"
  unfolding Let_def
  by (rule start_signal_once [OF new_postman_demo [unfolded new_postman_def]]) simp_all

text \<open>
  A client that disconnects stays in the list the draws pick from: when a draw picks it
  for a new source while other clients are connected, the postman aborts.
\<close>

lemma lost_client_aborts_postman:
  assumes "client_bevent_cb fd s = Inr s1" and "pm_fd2bev s1 \<noteq> []"
    and "pm_src2fd s1 ip = None" and "draw_index s1 = Inr (idx, s2)"
    and "0 \<le> idx" and "idx < int (length (pm_client_fds s))" and "pm_client_fds s ! nat idx = fd"
  shows "pick_client s1 ip = Inl (Assertion ''bev'')"
proof -
  have s1: "pm_client_fds s1 = pm_client_fds s" "map_of (pm_fd2bev s1) fd = None"
    using assms(1)
    by (auto simp: client_bevent_cb_def Let_def map_of_eq_None_iff split: option.splits)
  have "pm_client_fds s2 = pm_client_fds s1" "pm_fd2bev s2 = pm_fd2bev s1"
    using assms(4) by (auto simp: draw_index_def fault_simps Let_def split: if_splits)
  then show ?thesis
    using assms s1 by (simp add: pick_client_def rand_client_def Let_def)
qed

lemma lost_client_aborts_postman_instance:
  "pick_client (two_clients\<lparr>pm_fd2bev := [(8, 1)], pm_fd2src := Map.empty\<rparr>) ''a'' =
   Inl (Assertion ''bev'')"
proof (rule lost_client_aborts_postman [where s = two_clients and fd = 7 and idx = 0])
  show "client_bevent_cb 7 two_clients = Inr (two_clients\<lparr>pm_fd2bev := [(8, 1)], pm_fd2src := Map.empty\<rparr>)"
    by (simp add: client_bevent_cb_def two_clients_def demo_postman_def)
qed (simp_all add: two_clients_def demo_postman_def draw_index_def GetNumClients_def Filter_default_def)

text \<open>
  A first read of fewer than four bytes from the reader ends the postman: the loop reads
  the length before it looks at the size of the buffer.
\<close>

lemma short_read_ends_postman:
  assumes "pm_skt_live s" and "length (pm_skt_buffer s @ d) < 4"
  shows "\<exists>e. pm_handle c s (Skt_read d) = Inl e"
proof -
  have "length (pm_skt_buffer s @ d) < 3 \<or> length (pm_skt_buffer s @ d) = 3" using assms(2) by auto
  then have "\<exists>e. skt_loop c (pm_skt_buffer s @ d) s = Inl e"
    by (subst skt_loop.simps) (auto simp del: length_append)
  then show ?thesis using assms(1) by (auto simp: skt_read_cb_def)
qed

lemma short_read_ends_postman_instance:
  "\<exists>e. pm_handle (table_pb []) (two_clients\<lparr>pm_skt_live := True, pm_skt_buffer := []\<rparr>) (Skt_read [0, 0]) = Inl e"
  by (rule short_read_ends_postman) simp_all

end
