(* ===== verification/Controller_Main.thy ===== *)
theory Controller_Main
  imports Postman
begin

text \<open>
  The main function of the controller (\<^verbatim>\<open>main.cc\<close>): flags with validators, the client filter, a
  socket pair, the postman in a child process and the reader in the parent.  The flag library runs
  every validator when it parses the command line and exits when one fails.  The theorems say
  that the postman's constructor accepts every configuration that main lets pass, and with the
  filter main has checked.
\<close>

section \<open>Flags\<close>

definition trace_format :: "string set" where
  "trace_format = {''trace'', ''text'', ''raw''}"

text \<open>\<^verbatim>\<open>find_first_of(':')\<close> splits at the first colon; without one the format is the whole text.\<close>

definition before_colon :: "string \<Rightarrow> string" where
  "before_colon s = takeWhile (\<lambda>x. x \<noteq> CHR '':'') s"

definition ValidateInput :: "string \<Rightarrow> bool" where
  "ValidateInput input =
     (if CHR '':'' \<notin> set input \<or> before_colon input \<notin> trace_format then False else True)"

definition ValidateStringNotEmpty :: "string \<Rightarrow> bool" where
  "ValidateStringNotEmpty s = (if s = [] then False else True)"

definition ValidatePort :: "int \<Rightarrow> bool" where
  "ValidatePort port = (if port < 1 \<or> 65535 < port then False else True)"

definition ValidateNumClients :: "int \<Rightarrow> bool" where
  "ValidateNumClients n = (if n < 1 then False else True)"

record flags =
  fl_input :: string
  fl_output :: string
  fl_address :: string
  fl_filter :: string
  fl_port :: int
  fl_num_clients :: int
  fl_trace_limit :: int
  fl_dry_run :: bool

definition default_flags :: flags where
  "default_flags = \<lparr>fl_input = [], fl_output = [], fl_address = [], fl_filter = [], fl_port = -1,
     fl_num_clients = -1, fl_trace_limit = -1, fl_dry_run = False\<rparr>"

definition parse_flags :: "flags \<Rightarrow> flags result" where
  "parse_flags fl =
     (if ValidateInput (fl_input fl) \<and> ValidateStringNotEmpty (fl_address fl) \<and> ValidatePort (fl_port fl) \<and>
         ValidateNumClients (fl_num_clients fl)
      then Inr fl else Inl (Exit 1 ''ParseCommandLineFlags''))"

section \<open>The processes\<close>

text \<open>
  \<open>k_datas\<close> are the reads of the reader while it waits for the postman, \<open>k_clock\<close> the readings of the
  clock; the other fields are parameters of the reader and the postman.
\<close>

record ('p, 'r) k_env =
  k_pb :: pb
  k_ldns :: "'p ldns"
  k_ids :: "nat \<Rightarrow> u16"
  k_dbl :: "'r dbl"
  k_clock :: "nat \<Rightarrow> 'r"
  k_wr :: write_ret
  k_input :: input_env
  k_files :: "string \<Rightarrow> string list option"
  k_uniform_filter :: "nat \<Rightarrow> int"
  k_uniform_client :: "nat \<Rightarrow> int"
  k_socketpair :: "(int \<times> int) option"
  k_fork :: int
  k_datas :: "bytes list"

record controller_system =
  ks_filter :: client_filter
  ks_skt :: "int \<times> int"
  ks_postman :: "postman result option"
  ks_reader :: "reader option"

definition main_filter :: "('p, 'r) k_env \<Rightarrow> flags \<Rightarrow> client_filter result" where
  "main_filter E fl =
     (if fl_filter fl \<noteq> [] then
        bindE (Filter_Set (k_files E) Filter_default (fl_filter fl) (fl_num_clients fl)) (\<lambda>f.
          if \<not> Valid f then Inl (Exit 1 ''input filter is invalid'') else Inr f)
      else Inr Filter_default)"

definition main_sockets :: "('p, 'r) k_env \<Rightarrow> flags \<Rightarrow> (int \<times> int) result" where
  "main_sockets E fl =
     (if fl_dry_run fl then Inr (-1, -1)
      else case k_socketpair E of
             None \<Rightarrow> Inl (Exit 1 ''socketpair'')
           | Some (a, b) \<Rightarrow> if a < 0 \<or> b < 0 then Inl (Exit 1 ''socketpair fails'') else Inr (a, b))"

text \<open>The parent: the reader waits for the postman and then reads the input.  \<open>None\<close>: it does not end.\<close>

definition reader_process ::
    "('p, 'r) k_env \<Rightarrow> flags \<Rightarrow> int \<Rightarrow> (reader option result) option" where
  "reader_process E fl skt =
     (if fl_dry_run fl then Some (Inr None)
      else case Reader_new (k_input E) (tl (dropWhile (\<lambda>x. x \<noteq> CHR '':'') (fl_input fl)))
                  (before_colon (fl_input fl)) skt of
             Inl e \<Rightarrow> Some (Inl e)
           | Inr rd \<Rightarrow>
               (case unblock rd POSTMAN_FLAG (k_datas E) of
                  Inl e \<Rightarrow> Some (Inl e)
                | Inr go \<Rightarrow>
                    if go then map_option (\<lambda>r. bindE r (\<lambda>rd. Inr (Some rd)))
                                 (read_input (k_dbl E) (k_pb E) (k_ldns E) (k_ids E) (k_wr E) (k_clock E)
                                    (fl_trace_limit fl) rd)
                    else Some (Inr (Some rd))))"

text \<open>The child: the postman; its events are the argument of \<^const>\<open>Postman_start\<close>.\<close>

definition postman_process :: "('p, 'r) k_env \<Rightarrow> flags \<Rightarrow> client_filter \<Rightarrow> postman result option" where
  "postman_process E fl f =
     (if fl_dry_run fl then None
      else Some (Postman_new (k_files E) (env_opens (k_input E)) (k_uniform_filter E) (k_uniform_client E)
                   (fl_output fl) (fl_address fl) (fl_port fl) (fl_num_clients fl) f))"

definition controller_main :: "('p, 'r) k_env \<Rightarrow> flags \<Rightarrow> (controller_system result) option" where
  "controller_main E fl0 =
     (case bindE (parse_flags fl0) (\<lambda>fl. bindE (main_filter E fl) (\<lambda>f. bindE (main_sockets E fl) (\<lambda>skt.
             if k_fork E < 0 then Inl (Exit 1 ''fork'') else Inr (fl, f, skt)))) of
        Inl e \<Rightarrow> Some (Inl e)
      | Inr (fl, f, skt) \<Rightarrow>
          map_option (\<lambda>r. bindE r (\<lambda>rd. Inr \<lparr>ks_filter = f, ks_skt = skt,
              ks_postman = postman_process E fl f, ks_reader = rd\<rparr>))
            (reader_process E fl (fst skt)))"

section \<open>Facts\<close>

lemma weight_loop_input:
  "weight_loop i ls f = Inr (ok, g) \<Longrightarrow>
     num_clients g = num_clients f \<and> filter_input g = filter_input f"
  by (induction i ls f rule: weight_loop.induct)
    (fastforce simp: fault_simps split: if_splits sum.splits)+

lemma Filter_Set_frame:
  assumes "Filter_Set files Filter_default input n = Inr f"
  shows "num_clients f = n" "filter_input f = input"
  using assms
  by (auto simp: Filter_Set_def Init_def GetWeightByFile_def GetWeightByString_def Let_def fault_simps
      split: if_splits option.splits dest!: weight_loop_input)

text \<open>Setting the filter again from what it was set from gives the same filter.\<close>

lemma filter_set_again:
  assumes "main_filter E fl = Inr f"
  shows "Filter_Set (k_files E) Filter_default (GetFilterInput f) (GetNumClients f) = Inr f"
proof (cases "fl_filter fl = []")
  case True
  with assms show ?thesis
    by (auto simp: main_filter_def Filter_Set_def Filter_default_def GetFilterInput_def GetNumClients_def)
next
  case False
  with assms have set: "Filter_Set (k_files E) Filter_default (fl_filter fl) (fl_num_clients fl) = Inr f"
    by (auto simp: main_filter_def fault_simps split: if_splits)
  from Filter_Set_frame [OF set] set show ?thesis by (simp add: GetFilterInput_def GetNumClients_def)
qed

lemma main_filter_valid:
  assumes "main_filter E fl = Inr f"
  shows "GetNumClients f \<noteq> 0 \<longrightarrow> Valid f \<and> GetNumClients f = fl_num_clients fl"
proof (cases "fl_filter fl = []")
  case True
  with assms show ?thesis by (auto simp: main_filter_def Filter_default_def GetNumClients_def)
next
  case False
  with assms have set: "Filter_Set (k_files E) Filter_default (fl_filter fl) (fl_num_clients fl) = Inr f"
    and "Valid f" by (auto simp: main_filter_def fault_simps split: if_splits)
  with Filter_Set_frame(1) [OF set] show ?thesis by (simp add: GetNumClients_def)
qed

section \<open>Properties\<close>

text \<open>
  C39.  Whenever the main function gets past its checks, the constructor of the postman in the
  child process succeeds, unless the output file cannot be opened, and it uses the very filter
  that main has found valid (or none); reading the filter a second time changes nothing.
\<close>

theorem controller_postman_starts:
  assumes "controller_main E fl = Some (Inr sys)" and "\<not> fl_dry_run fl" and "fl_num_clients fl \<le> int_max"
    and "fl_output fl = [] \<or> fl_output fl = ''-'' \<or> env_opens (k_input E) (fl_output fl)"
  shows "\<exists>pm. ks_postman sys = Some (Inr pm) \<and> pm_filter pm = ks_filter sys \<and>
    pm_num_clients pm = of_int (fl_num_clients fl) \<and>
    (GetNumClients (pm_filter pm) \<noteq> 0 \<longrightarrow>
       Valid (pm_filter pm) \<and> GetNumClients (pm_filter pm) = fl_num_clients fl)"
proof -
  from assms(1) obtain f where f: "parse_flags fl = Inr fl" "main_filter E fl = Inr f" "ks_filter sys = f"
    "ks_postman sys = postman_process E fl f"
    by (auto simp: controller_main_def fault_simps parse_flags_def split: sum.splits if_splits)
  from f(1) have v: "fl_address fl \<noteq> []" "0 < fl_port fl" "0 < fl_num_clients fl"
    by (auto simp: parse_flags_def ValidateStringNotEmpty_def ValidatePort_def ValidateNumClients_def
        split: if_splits)
  have "\<not> 2 ^ 32 dvd fl_num_clients fl"
    using v(3) assms(3) by (intro zdvd_not_zless) (simp_all add: int_max_def)
  then have "(of_int (fl_num_clients fl) :: u32) \<noteq> 0" by (simp add: word_of_int_eq_0_iff)
  with v f main_filter_valid [OF f(2)] filter_set_again [OF f(2)] assms(2,4) show ?thesis
    by (auto simp: postman_process_def Postman_new_def)
qed

definition demo_k :: "(bytes, int) k_env" where
  "demo_k = \<lparr>k_pb = table_pb [], k_ldns = header_ldns, k_ids = (\<lambda>_. 0), k_dbl = int_dbl, k_clock = int,
     k_wr = (\<lambda>n bs. Some (length bs)),
     k_input = \<lparr>env_packet_ok = True, env_trace_err = False, env_trace_start = 0, env_opens = (\<lambda>_. True),
       env_bytes = [], env_lines = [], env_packets = [], env_read_err = False\<rparr>,
     k_files = (\<lambda>_. None), k_uniform_filter = (\<lambda>k. 0), k_uniform_client = (\<lambda>k. 0),
     k_socketpair = Some (3, 4), k_fork = 7, k_datas = []\<rparr>"

definition demo_flags :: flags where
  "demo_flags = default_flags\<lparr>fl_input := ''raw:t'', fl_address := ''10.0.0.1'', fl_port := 10053,
     fl_num_clients := 2, fl_filter := ''40,60''\<rparr>"

theorem controller_postman_starts_witness:
  "\<exists>sys pm. controller_main demo_k demo_flags = Some (Inr sys) \<and> ks_postman sys = Some (Inr pm) \<and>
     Valid (pm_filter pm) \<and> GetNumClients (pm_filter pm) = 2"
proof -
  have parse: "parse_flags demo_flags = Inr demo_flags" by code_simp
  obtain f where f: "main_filter demo_k demo_flags = Inr f" "GetNumClients f = 2"
  proof
    show "main_filter demo_k demo_flags = Inr \<lparr>num_clients = 2, total_weight = 100, filter_input = ''40,60'',
       ifs_is_open = False, weight = [40, 60], client_index = replicate 40 0 @ replicate 60 1\<rparr>" by code_simp
  qed (simp add: GetNumClients_def)
  have skt: "main_sockets demo_k demo_flags = Inr (3, 4)" by code_simp
  have rd: "reader_process demo_k demo_flags 3 = Some (Inr (Some \<lparr>rd_skt = 3, rd_ins =
      \<lparr>input_format = INPUT_SRC_RAW, is_stdin = False, ifs_open = True, trace_open = False,
      packet_open = False, in_bytes = [], in_lines = [], in_packets = [], in_read_err = False\<rparr>, rd_writes = []\<rparr>))"
    by (simp add: reader_process_def demo_k_def demo_flags_def default_flags_def Reader_new_def InputSource_def
        before_colon_def input_src_map_def format_defs unblock_def POSTMAN_FLAG_def UNBLOCK_FLAG_def)
  have main: "\<exists>sys. controller_main demo_k demo_flags = Some (Inr sys) \<and> ks_filter sys = f"
    by (simp add: controller_main_def parse f skt rd) (simp add: demo_k_def)
  then obtain sys where sys: "controller_main demo_k demo_flags = Some (Inr sys)" "ks_filter sys = f" by blast
  have "\<not> fl_dry_run demo_flags" "fl_num_clients demo_flags \<le> int_max" "fl_output demo_flags = []"
    by (simp_all add: demo_flags_def default_flags_def int_max_def)
  with controller_postman_starts [OF sys(1)] sys f(2) show ?thesis by auto
qed

end
