(* ===== verification/Mutator_Dns.thy ===== *)
theory Mutator_Dns
  imports Dns_Msg Text_Util
begin

text \<open>
  The DNS packet helpers of the mutator (\<^verbatim>\<open>dns_util.cc\<close> of the mutator): building queries,
  changing header bits on the wire and EDNS fields of a parsed packet, and printing a packet.
  The ldns functions and macros used beyond those of the client are the fields of \<open>ldns_ext\<close>.
  A C++ \<^verbatim>\<open>unordered_map\<close> is an association list in its order of iteration, which the
  language leaves open; the theorems hold for every order, or say that the order matters.
\<close>

unbundle bit_operations_syntax

section \<open>Options\<close>

definition DNS_OPCODE :: u32 where "DNS_OPCODE = 0x1"
definition DNS_AA :: u32 where "DNS_AA = 0x2"
definition DNS_TC :: u32 where "DNS_TC = 0x4"
definition DNS_RD :: u32 where "DNS_RD = 0x8"
definition DNS_RA :: u32 where "DNS_RA = 0x10"
definition DNS_Z :: u32 where "DNS_Z = 0x20"
definition DNS_AD :: u32 where "DNS_AD = 0x40"
definition DNS_CD :: u32 where "DNS_CD = 0x80"
definition EDNS_DO :: u32 where "EDNS_DO = 0x100"
definition EDNS_UDP_SIZE :: u32 where "EDNS_UDP_SIZE = 0x200"
definition EDNS_EXTENDED_RCODE :: u32 where "EDNS_EXTENDED_RCODE = 0x400"
definition EDNS_VERSION :: u32 where "EDNS_VERSION = 0x800"
definition EDNS_Z :: u32 where "EDNS_Z = 0x1000"

lemmas part_defs = DNS_OPCODE_def DNS_AA_def DNS_TC_def DNS_RD_def DNS_RA_def DNS_Z_def DNS_AD_def
  DNS_CD_def EDNS_DO_def EDNS_UDP_SIZE_def EDNS_EXTENDED_RCODE_def EDNS_VERSION_def EDNS_Z_def

definition DNS_OPT_MAP :: "string \<rightharpoonup> u32" where
  "DNS_OPT_MAP =
     [''dns-opcode'' \<mapsto> DNS_OPCODE, ''dns-aa'' \<mapsto> DNS_AA, ''dns-tc'' \<mapsto> DNS_TC, ''dns-rd'' \<mapsto> DNS_RD,
      ''dns-ra'' \<mapsto> DNS_RA, ''dns-z'' \<mapsto> DNS_Z, ''dns-ad'' \<mapsto> DNS_AD, ''dns-cd'' \<mapsto> DNS_CD,
      ''edns-do'' \<mapsto> EDNS_DO, ''edns-udp-size'' \<mapsto> EDNS_UDP_SIZE,
      ''edns-extended-rcode'' \<mapsto> EDNS_EXTENDED_RCODE, ''edns-version'' \<mapsto> EDNS_VERSION,
      ''edns-z'' \<mapsto> EDNS_Z]"

definition DNS_MSG_HEADER :: "string list" where
  "DNS_MSG_HEADER =
     [''id'', ''qr'', ''opcode'', ''aa'', ''tc'', ''rd'', ''ra'', ''z'', ''ad'', ''cd'', ''rcode'',
      ''qdcount'', ''ancount'', ''nscount'', ''arcount'',
      ''edns_do'', ''edns_udp_size'', ''edns_extended_rcode'', ''edns_version'', ''edns_z'',
      ''qname'', ''qclass'', ''qtype'']"

section \<open>Code outside the repository\<close>

text \<open>
  The header flags with a \<^verbatim>\<open>_SET\<close> and a \<^verbatim>\<open>_CLR\<close> macro (\<open>ldns_flag\<close> with \<open>True\<close> and \<open>False\<close>), the
  macro that sets the opcode, the setters of EDNS fields, and what the accessors report of a
  parsed packet.
\<close>

datatype hdr_flag = AA | TC | RD | RA | Z | AD | CD

record pkt_fields =
  pf_id :: nat
  pf_qr :: bool
  pf_opcode :: nat
  pf_aa :: bool
  pf_tc :: bool
  pf_rd :: bool
  pf_ra :: bool
  pf_ad :: bool
  pf_cd :: bool
  pf_rcode :: nat
  pf_ancount :: nat
  pf_nscount :: nat
  pf_arcount :: nat
  pf_edns_do :: bool
  pf_edns_udp_size :: nat
  pf_edns_extended_rcode :: nat
  pf_edns_version :: nat
  pf_edns_z :: nat

record 'p ldns_ext =
  ldns_base :: "'p ldns"
  ldns_opcode_set :: "bytes \<Rightarrow> u32 \<Rightarrow> bytes"
  ldns_flag :: "hdr_flag \<Rightarrow> bool \<Rightarrow> bytes \<Rightarrow> bytes"
  ldns_set_edns_extended_rcode :: "'p \<Rightarrow> byte \<Rightarrow> 'p"
  ldns_set_edns_version :: "'p \<Rightarrow> byte \<Rightarrow> 'p"
  ldns_set_edns_z :: "'p \<Rightarrow> u16 \<Rightarrow> 'p"
  ldns_clear_edns_data :: "'p \<Rightarrow> 'p"
  ldns_fields :: "'p \<Rightarrow> pkt_fields"
  ldns_z_wire :: "bytes \<Rightarrow> nat"

section \<open>Building and changing packets\<close>

definition build_dns_pkt_query ::
    "'p ldns \<Rightarrow> u16 \<Rightarrow> bool \<Rightarrow> string \<Rightarrow> string \<Rightarrow> string \<Rightarrow> bytes option" where
  "build_dns_pkt_query L rnd edns qname qclass qtype =
     (case ldns_pkt_query_new_frm_str L qname qtype qclass of
        None \<Rightarrow> None
      | Some None \<Rightarrow> None
      | Some (Some p) \<Rightarrow>
          (let p1 = (if edns then ldns_pkt_set_edns_udp_size L (ldns_pkt_set_edns_do L p True) 4096
                     else p)
           in ldns_pkt2wire L (ldns_pkt_set_id L p1 rnd)))"

text \<open>
  The byte of the header a macro touches (RFC 1035): opcode, AA, TC and RD are in the third byte,
  RA, Z, AD and CD in the fourth.  The length of the buffer is not checked.
\<close>

definition hdr_byte :: "u32 \<Rightarrow> nat" where
  "hdr_byte part = (if part \<in> {DNS_OPCODE, DNS_AA, DNS_TC, DNS_RD} then 2 else 3)"

definition flag_of :: "u32 \<Rightarrow> hdr_flag option" where
  "flag_of part =
     (if part = DNS_AA then Some AA else if part = DNS_TC then Some TC
      else if part = DNS_RD then Some RD else if part = DNS_RA then Some RA
      else if part = DNS_Z then Some Z else if part = DNS_AD then Some AD
      else if part = DNS_CD then Some CD else None)"

definition change_dns_pkt_header ::
    "'p ldns_ext \<Rightarrow> bytes \<Rightarrow> u32 \<Rightarrow> u32 \<Rightarrow> (bool \<times> bytes) result" where
  "change_dns_pkt_header X buf part val =
     (if part \<noteq> DNS_OPCODE \<and> flag_of part = None then Inr (False, buf)
      else if length buf \<le> hdr_byte part then Inl (Undefined ''change_dns_pkt_header: past the buffer'')
      else case flag_of part of
             None \<Rightarrow> Inr (True, ldns_opcode_set X buf val)
           | Some f \<Rightarrow> Inr (True, ldns_flag X f (val \<noteq> 0) buf))"

definition change_dns_pkt_edns :: "'p ldns_ext \<Rightarrow> 'p \<Rightarrow> u32 \<Rightarrow> u32 \<Rightarrow> bool \<times> 'p" where
  "change_dns_pkt_edns X pkt part val =
     (let L = ldns_base X
      in if part = EDNS_DO then
           (if 0 < val then (True, ldns_pkt_set_edns_do L pkt True)
            else let p1 = ldns_pkt_set_edns_do L pkt False;
                     p2 = ldns_pkt_set_edns_udp_size L p1 0;
                     p3 = ldns_set_edns_extended_rcode X p2 0;
                     p4 = ldns_set_edns_version X p3 0;
                     p5 = ldns_set_edns_z X p4 0
                 in (True, ldns_clear_edns_data X p5))
         else if part = EDNS_UDP_SIZE then (True, ldns_pkt_set_edns_udp_size L pkt (ucast val))
         else if part = EDNS_EXTENDED_RCODE then (True, ldns_set_edns_extended_rcode X pkt (ucast val))
         else if part = EDNS_VERSION then (True, ldns_set_edns_version X pkt (ucast val))
         else if part = EDNS_Z then (True, ldns_set_edns_z X pkt (ucast val))
         else (False, pkt))"

definition one_bit :: "u32 \<Rightarrow> bool" where
  "one_bit part \<longleftrightarrow> part AND (part - 1) = 0"

definition edns_part :: "u32 \<Rightarrow> bool" where
  "edns_part part \<longleftrightarrow> EDNS_DO \<le> part \<and> part \<le> EDNS_Z \<and> one_bit part"

definition header_part :: "u32 \<Rightarrow> bool" where
  "header_part part \<longleftrightarrow> DNS_OPCODE \<le> part \<and> part \<le> DNS_CD \<and> one_bit part"

text \<open>
  The loop over the options: header bits are changed at once, EDNS options are put into a second
  map.  \<open>ok\<close> is \<^verbatim>\<open>header_ok\<close>; once it is false no further header bit is changed.
\<close>

fun change_loop ::
    "'p ldns_ext \<Rightarrow> (u32 \<times> u32) list \<Rightarrow> bool \<Rightarrow> bytes \<Rightarrow> (u32 \<times> u32) list \<Rightarrow>
     (bool \<times> bytes \<times> (u32 \<times> u32) list) result" where
  "change_loop X [] ok buf edns = Inr (ok, buf, edns)"
| "change_loop X ((part, val) # opt) ok buf edns =
     (if edns_part part then change_loop X opt ok buf ((part, val) # filter (\<lambda>x. fst x \<noteq> part) edns)
      else if header_part part then
        (if ok then bindE (change_dns_pkt_header X buf part val)
                      (\<lambda>(ok', buf'). change_loop X opt ok' buf' edns)
         else change_loop X opt ok buf edns)
      else change_loop X opt ok buf edns)"

fun edns_loop :: "'p ldns_ext \<Rightarrow> (u32 \<times> u32) list \<Rightarrow> bool \<Rightarrow> 'p \<Rightarrow> bool \<times> 'p" where
  "edns_loop X [] ok pkt = (ok, pkt)"
| "edns_loop X ((part, val) # opt) ok pkt =
     (if ok then (case change_dns_pkt_edns X pkt part val of (ok', pkt') \<Rightarrow> edns_loop X opt ok' pkt')
      else edns_loop X opt ok pkt)"

text \<open>
  \<open>order\<close> is the order in which the second map is iterated.  The result is the returned flag and
  the new packet, empty where \<^verbatim>\<open>*raw\<close> stays a null pointer; \<open>from_new\<close> says whether the packet was
  allocated with \<^verbatim>\<open>new[]\<close> (else with \<^verbatim>\<open>malloc\<close> by ldns).
\<close>

record changed =
  ch_ok :: bool
  ch_raw :: bytes
  from_new :: bool

definition change_dns_pkt ::
    "'p ldns_ext \<Rightarrow> ((u32 \<times> u32) list \<Rightarrow> (u32 \<times> u32) list) \<Rightarrow> bytes \<Rightarrow> (u32 \<times> u32) list \<Rightarrow>
     changed result" where
  "change_dns_pkt X order raw_old opt =
     bindE (require (0 < length raw_old) (Assertion ''raw_old_sz > 0'')) (\<lambda>_.
     bindE (change_loop X opt True raw_old []) (\<lambda>(header_ok, buf, edns_opt).
       if edns_opt = [] then Inr \<lparr>ch_ok = header_ok, ch_raw = buf, from_new = True\<rparr>
       else case ldns_wire2pkt (ldns_base X) buf of
              None \<Rightarrow> Inl (Exit 1 ''cannot parse packet'')
            | Some pkt \<Rightarrow>
                (let (edns_ok, pkt') = edns_loop X (order edns_opt) True pkt
                 in case ldns_pkt2wire (ldns_base X) pkt' of
                      None \<Rightarrow> Inr \<lparr>ch_ok = False, ch_raw = [], from_new = False\<rparr>
                    | Some w \<Rightarrow> Inr \<lparr>ch_ok = header_ok \<and> edns_ok, ch_raw = w, from_new = False\<rparr>)))"

section \<open>Printing a packet\<close>

fun tab_loop :: "string list \<Rightarrow> string \<Rightarrow> string" where
  "tab_loop [] r = r"
| "tab_loop (x # xs) r =
     (if x \<noteq> [] then tab_loop xs ((if r \<noteq> [] then r @ [CHR 0x09] else r) @ x) else tab_loop xs r)"

definition bool_str :: "bool \<Rightarrow> string" where
  "bool_str b = (if b then ''1'' else ''0'')"

definition query_rr_str :: "'p ldns_ext \<Rightarrow> 'p \<Rightarrow> string" where
  "query_rr_str X m =
     (if ldns_pkt_qdcount (ldns_base X) m \<le> 0 then [] else ldns_question_str (ldns_base X) m)"

text \<open>The columns of a packet before its question; \<open>None\<close> when it cannot be parsed.\<close>

definition dns_msg_cols :: "'p ldns_ext \<Rightarrow> bytes \<Rightarrow> 'p \<Rightarrow> string list" where
  "dns_msg_cols X buf m =
     (let f = ldns_fields X m; num = (\<lambda>n :: nat. to_string (int n))
      in [num (pf_id f), bool_str (pf_qr f), num (pf_opcode f), bool_str (pf_aa f), bool_str (pf_tc f),
          bool_str (pf_rd f), bool_str (pf_ra f), num (ldns_z_wire X buf), bool_str (pf_ad f),
          bool_str (pf_cd f), num (pf_rcode f), num (ldns_pkt_qdcount (ldns_base X) m),
          num (pf_ancount f), num (pf_nscount f), num (pf_arcount f), bool_str (pf_edns_do f),
          num (pf_edns_udp_size f), num (pf_edns_extended_rcode f), num (pf_edns_version f),
          num (pf_edns_z f)])"

definition dns_msg_str :: "'p ldns_ext \<Rightarrow> bytes \<Rightarrow> string option" where
  "dns_msg_str X buf =
     (case ldns_wire2pkt (ldns_base X) buf of
        None \<Rightarrow> None
      | Some m \<Rightarrow>
          let query_rr = query_rr_str X m;
              fmt = tab_loop (stream_tokens query_rr) [];
              query_rr_fmt = (if fmt = [] then [CHR ''-'', CHR 0x09, CHR ''-'', CHR 0x09, CHR ''-''] else fmt)
          in Some (concat (map (\<lambda>x. x @ [CHR 0x09]) (dns_msg_cols X buf m)) @ query_rr_fmt))"

section \<open>Header bits\<close>

text \<open>
  Where a flag is in the header (RFC 1035 and RFC 4035): the byte and the bit in it, and reading it.
\<close>

fun hdr_bit :: "hdr_flag \<Rightarrow> nat \<times> nat" where
  "hdr_bit AA = (2, 2)"
| "hdr_bit TC = (2, 1)"
| "hdr_bit RD = (2, 0)"
| "hdr_bit RA = (3, 7)"
| "hdr_bit Z = (3, 6)"
| "hdr_bit AD = (3, 5)"
| "hdr_bit CD = (3, 4)"

fun part_of :: "hdr_flag \<Rightarrow> u32" where
  "part_of AA = DNS_AA"
| "part_of TC = DNS_TC"
| "part_of RD = DNS_RD"
| "part_of RA = DNS_RA"
| "part_of Z = DNS_Z"
| "part_of AD = DNS_AD"
| "part_of CD = DNS_CD"

definition hdr_get :: "bytes \<Rightarrow> hdr_flag \<Rightarrow> bool" where
  "hdr_get buf f = bit (buf ! fst (hdr_bit f)) (snd (hdr_bit f))"

definition opcode_get :: "bytes \<Rightarrow> byte" where
  "opcode_get buf = take_bit 4 (drop_bit 3 (buf ! 2))"

definition put_bit :: "nat \<Rightarrow> bool \<Rightarrow> byte \<Rightarrow> byte" where
  "put_bit n v b = (if v then set_bit n b else unset_bit n b)"

definition put_flag :: "hdr_flag \<Rightarrow> bool \<Rightarrow> bytes \<Rightarrow> bytes" where
  "put_flag f v buf = (case hdr_bit f of (i, n) \<Rightarrow> buf[i := put_bit n v (buf ! i)])"

definition put_opcode :: "u32 \<Rightarrow> bytes \<Rightarrow> bytes" where
  "put_opcode v buf = buf[2 := (buf ! 2 AND 0x87) OR push_bit 3 (ucast v)]"

text \<open>
  The documented behaviour of the macros of ldns on a whole header: a flag macro changes its bit
  only, the opcode macro changes the four bits of the opcode for a value that fits.
\<close>

definition macros_ok :: "'p ldns_ext \<Rightarrow> bool" where
  "macros_ok X \<longleftrightarrow>
     (\<forall>f v buf. 3 < length buf \<longrightarrow> ldns_flag X f v buf = put_flag f v buf) \<and>
     (\<forall>v buf. 3 < length buf \<longrightarrow> v < 16 \<longrightarrow> ldns_opcode_set X buf v = put_opcode v buf)"

lemma flag_of_part_of [simp]: "flag_of (part_of f) = Some f"
  by (cases f) (simp_all add: flag_of_def part_defs)

lemma flag_of_eq: "flag_of p = Some f \<longleftrightarrow> p = part_of f"
proof
  show "flag_of p = Some f \<Longrightarrow> p = part_of f"
    by (auto simp: flag_of_def split: if_split_asm)
qed simp

lemma part_of_not_opcode [simp]: "part_of f \<noteq> DNS_OPCODE" "DNS_OPCODE \<noteq> part_of f" "flag_of DNS_OPCODE = None"
  by (cases f; simp add: part_defs; fail)+ (simp add: flag_of_def part_defs)

lemma part_of_inj [simp]: "part_of f = part_of g \<longleftrightarrow> f = g"
  by (metis flag_of_part_of option.inject)

lemma length_put [simp]: "length (put_flag f v buf) = length buf" "length (put_opcode w buf) = length buf"
  by (simp_all add: put_flag_def put_opcode_def split: prod.split)

lemma bit_put_bit: "n < 8 \<Longrightarrow> bit (put_bit n v b) k = (if k = n then v else bit b k)"
  by (auto simp: put_bit_def bit_set_bit_iff bit_unset_bit_iff)

lemma hdr_bit_range: "fst (hdr_bit f) < 4" "snd (hdr_bit f) < 8"
  by (cases f; simp)+

lemma hdr_bit_inj: "hdr_bit f = hdr_bit g \<Longrightarrow> f = g"
  by (cases f; cases g; simp)

lemma hdr_get_put_flag:
  assumes "3 < length buf"
  shows "hdr_get (put_flag f v buf) g = (if g = f then v else hdr_get buf g)"
proof -
  obtain i n where f: "hdr_bit f = (i, n)" by (cases "hdr_bit f")
  obtain j k where g: "hdr_bit g = (j, k)" by (cases "hdr_bit g")
  have "i < length buf" "n < 8" using hdr_bit_range [of f] f assms by simp_all
  moreover have "g = f \<longleftrightarrow> i = j \<and> n = k" using hdr_bit_inj [of f g] f g by auto
  ultimately show ?thesis
    by (auto simp: hdr_get_def put_flag_def f g bit_put_bit nth_list_update)
qed

lemma opcode_get_put_flag: "3 < length buf \<Longrightarrow> opcode_get (put_flag f v buf) = opcode_get buf"
  by (cases f) (auto simp: opcode_get_def put_flag_def nth_list_update bit_simps bit_put_bit intro!: bit_word_eqI)

lemma opcode_bits:
  assumes "v < (16 :: u32)" and "bit v n"
  shows "n < 4"
proof (rule ccontr)
  assume "\<not> n < 4"
  have "unat v < 2 ^ 4" using assms(1) by (simp add: word_less_nat_alt)
  then have "take_bit 4 (unat v) = unat v" by (simp only: take_bit_nat_eq_self)
  then have "bit (unat v) n \<longrightarrow> n < 4" by (metis bit_take_bit_iff)
  with \<open>\<not> n < 4\<close> assms(2) show False by (simp add: bit_unsigned_iff)
qed

lemma bit_put_opcode:
  assumes "v < (16 :: u32)"
  shows "bit ((b AND 0x87) OR push_bit 3 (ucast v) :: byte) k =
    (if 3 \<le> k \<and> k < 7 then bit v (k - 3) else bit b k)"
proof (cases "k < 8")
  case True
  then have "k \<in> {0, 1, 2, 3, 4, 5, 6, 7}" by auto
  moreover have "\<not> bit v 4" using opcode_bits [OF assms, of 4] by auto
  ultimately show ?thesis
    by (elim insertE) (simp_all add: bit_or_iff bit_and_iff bit_push_bit_iff bit_ucast_iff)
next
  case False
  then show ?thesis using bit_imp_le_length [of "(b AND 0x87) OR push_bit 3 (ucast v) :: byte" k]
      bit_imp_le_length [of b k] by auto
qed

lemma hdr_get_put_opcode:
  "3 < length buf \<Longrightarrow> v < 16 \<Longrightarrow> hdr_get (put_opcode v buf) f = hdr_get buf f"
  by (cases f) (simp_all add: hdr_get_def put_opcode_def bit_put_opcode)

lemma opcode_get_put_opcode:
  assumes "3 < length buf" and "v < 16"
  shows "opcode_get (put_opcode v buf) = ucast v"
proof (rule bit_word_eqI)
  fix n assume "n < LENGTH(8)"
  then show "bit (opcode_get (put_opcode v buf)) n = bit (ucast v :: byte) n"
    using assms opcode_bits [OF assms(2), of n]
    unfolding opcode_get_def put_opcode_def
    by (auto simp: bit_take_bit_iff bit_drop_bit_eq bit_ucast_iff bit_put_opcode [OF assms(2)] bit_push_bit_iff)
qed

text \<open>What is left alone: the QR bit, the response code and every other byte.\<close>

definition rest_same :: "bytes \<Rightarrow> bytes \<Rightarrow> bool" where
  "rest_same buf w \<longleftrightarrow> length w = length buf \<and> (\<forall>i < length buf. i \<noteq> 2 \<and> i \<noteq> 3 \<longrightarrow> w ! i = buf ! i) \<and>
     bit (w ! 2) 7 = bit (buf ! 2) 7 \<and> take_bit 4 (w ! 3) = take_bit 4 (buf ! 3)"

lemma rest_same_put_flag: "3 < length buf \<Longrightarrow> rest_same buf (put_flag f v buf)"
  by (cases f)
     (auto simp: rest_same_def put_flag_def nth_list_update bit_put_bit bit_take_bit_iff intro!: bit_word_eqI)

lemma rest_same_put_opcode: "3 < length buf \<Longrightarrow> v < 16 \<Longrightarrow> rest_same buf (put_opcode v buf)"
  by (auto simp: rest_same_def put_opcode_def nth_list_update bit_put_opcode)

lemma rest_same_trans: "rest_same a b \<Longrightarrow> rest_same b c \<Longrightarrow> rest_same a c"
  by (auto simp: rest_same_def)

text \<open>The parts that are header options, and one change.\<close>

definition header_parts :: "u32 set" where
  "header_parts = insert DNS_OPCODE (range part_of)"

lemma header_parts_dispatch: "p \<in> header_parts \<Longrightarrow> header_part p \<and> \<not> edns_part p"
proof -
  have "header_part DNS_OPCODE \<and> \<not> edns_part DNS_OPCODE"
    by (simp add: header_part_def edns_part_def one_bit_def part_defs word_le_def)
  moreover have "header_part (part_of f) \<and> \<not> edns_part (part_of f)" for f
    by (cases f) (simp_all add: header_part_def edns_part_def one_bit_def part_defs word_le_def)
  ultimately show "p \<in> header_parts \<Longrightarrow> header_part p \<and> \<not> edns_part p" by (auto simp: header_parts_def)
qed

definition put_part :: "u32 \<Rightarrow> u32 \<Rightarrow> bytes \<Rightarrow> bytes" where
  "put_part p v buf = (case flag_of p of None \<Rightarrow> put_opcode v buf | Some f \<Rightarrow> put_flag f (v \<noteq> 0) buf)"

lemma change_header_ok:
  assumes "macros_ok X" and "3 < length buf" and "p \<in> header_parts" and "p = DNS_OPCODE \<longrightarrow> v < 16"
  shows "change_dns_pkt_header X buf p v = Inr (True, put_part p v buf)"
proof -
  have "\<not> length buf \<le> hdr_byte p" using assms(2) by (simp add: hdr_byte_def)
  moreover have "p = DNS_OPCODE \<or> (\<exists>f. p = part_of f)" using assms(3) by (auto simp: header_parts_def)
  ultimately show ?thesis
    using assms(1,2,4) by (auto simp: change_dns_pkt_header_def put_part_def macros_ok_def)
qed

lemma put_part_read:
  assumes "3 < length buf" and "p \<in> header_parts" and "p = DNS_OPCODE \<longrightarrow> v < 16"
  shows "rest_same buf (put_part p v buf)" "length (put_part p v buf) = length buf"
    "hdr_get (put_part p v buf) f = (if part_of f = p then v \<noteq> 0 else hdr_get buf f)"
    "opcode_get (put_part p v buf) = (if p = DNS_OPCODE then ucast v else opcode_get buf)"
  using assms
  by (auto simp: header_parts_def put_part_def rest_same_put_flag rest_same_put_opcode hdr_get_put_flag
      hdr_get_put_opcode opcode_get_put_flag opcode_get_put_opcode)

text \<open>The loop over header options, in any order.\<close>

definition wanted :: "(u32 \<times> u32) list \<Rightarrow> bytes \<Rightarrow> hdr_flag \<Rightarrow> bool" where
  "wanted opt buf f = (case map_of opt (part_of f) of None \<Rightarrow> hdr_get buf f | Some v \<Rightarrow> v \<noteq> 0)"

definition wanted_opcode :: "(u32 \<times> u32) list \<Rightarrow> bytes \<Rightarrow> byte" where
  "wanted_opcode opt buf = (case map_of opt DNS_OPCODE of None \<Rightarrow> opcode_get buf | Some v \<Rightarrow> ucast v)"

definition header_opts :: "(u32 \<times> u32) list \<Rightarrow> bool" where
  "header_opts opt \<longleftrightarrow> distinct (map fst opt) \<and> fst ` set opt \<subseteq> header_parts \<and>
     (\<forall>v. (DNS_OPCODE, v) \<in> set opt \<longrightarrow> v < 16)"

lemma change_loop_header:
  assumes "macros_ok X" and "3 < length buf" and "header_opts opt"
  shows "\<exists>w. change_loop X opt True buf [] = Inr (True, w, []) \<and> rest_same buf w \<and>
     (\<forall>f. hdr_get w f = wanted opt buf f) \<and> opcode_get w = wanted_opcode opt buf"
  using assms(2,3)
proof (induction opt arbitrary: buf)
  case Nil
  then show ?case by (simp add: rest_same_def wanted_def wanted_opcode_def)
next
  case (Cons x opt)
  obtain p v where x: "x = (p, v)" by (cases x)
  have p: "p \<in> header_parts" "p = DNS_OPCODE \<longrightarrow> v < 16" "header_opts opt" "p \<notin> fst ` set opt"
    using Cons.prems(2) by (auto simp: header_opts_def x)
  let ?b = "put_part p v buf"
  note r = put_part_read [OF Cons.prems(1) p(1,2)]
  have "3 < length ?b" using r(2) Cons.prems(1) by simp
  from Cons.IH [OF this p(3)] obtain w where w: "change_loop X opt True ?b [] = Inr (True, w, [])"
    "rest_same ?b w" "\<forall>f. hdr_get w f = wanted opt ?b f" "opcode_get w = wanted_opcode opt ?b" by blast
  have "change_loop X (x # opt) True buf [] = Inr (True, w, [])"
    using header_parts_dispatch [OF p(1)] change_header_ok [OF assms(1) Cons.prems(1) p(1,2)] w(1)
    by (simp add: x)
  moreover have "rest_same buf w" using r(1) w(2) by (rule rest_same_trans)
  moreover have none: "map_of opt p = None" using p(4) by (simp add: map_of_eq_None_iff)
  have "hdr_get w f = wanted (x # opt) buf f" for f
    using w(3) none r(3) [of f] by (cases "part_of f = p") (simp_all add: wanted_def x split: option.split)
  moreover have "opcode_get w = wanted_opcode (x # opt) buf"
    using w(4) none r(4) by (cases "DNS_OPCODE = p") (auto simp: wanted_opcode_def x split: option.split)
  ultimately show ?case by blast
qed

text \<open>
  Changing header options of a packet that holds a DNS header, whatever the order in
  which the map of options is iterated: the packet keeps its length, every flag that was asked for
  has the value asked for and every other flag its old one, likewise the opcode, and the QR bit,
  the response code and all other bytes are untouched.
\<close>

lemma header_options_applied:
  assumes "macros_ok X" and "3 < length buf" and "header_opts opt"
  shows "\<exists>w. change_dns_pkt X order buf opt = Inr \<lparr>ch_ok = True, ch_raw = w, from_new = True\<rparr> \<and>
    rest_same buf w \<and> (\<forall>f. hdr_get w f = wanted opt buf f) \<and> opcode_get w = wanted_opcode opt buf"
proof -
  obtain w where w: "change_loop X opt True buf [] = Inr (True, w, [])" "rest_same buf w"
    "\<forall>f. hdr_get w f = wanted opt buf f" "opcode_get w = wanted_opcode opt buf"
    using change_loop_header [OF assms] by blast
  have "buf \<noteq> []" using assms(2) by auto
  with w show ?thesis by (intro exI [of _ w]) (simp add: change_dns_pkt_def)
qed

definition demo_fields :: pkt_fields where
  "demo_fields = \<lparr>pf_id = 0, pf_qr = False, pf_opcode = 0, pf_aa = False, pf_tc = False, pf_rd = False,
     pf_ra = False, pf_ad = False, pf_cd = False, pf_rcode = 0, pf_ancount = 0, pf_nscount = 0,
     pf_arcount = 0, pf_edns_do = False, pf_edns_udp_size = 0, pf_edns_extended_rcode = 0,
     pf_edns_version = 0, pf_edns_z = 0\<rparr>"

text \<open>An instance for examples: a packet is its bytes, with the UDP size of EDNS in the last two.\<close>

definition demo_ext :: "bytes ldns_ext" where
  "demo_ext = \<lparr>ldns_base = header_ldns\<lparr>ldns_pkt_set_edns_udp_size := (\<lambda>p n. take 12 p @ be16 n)\<rparr>,
     ldns_opcode_set = (\<lambda>b v. put_opcode v b), ldns_flag = put_flag,
     ldns_set_edns_extended_rcode = (\<lambda>p v. p), ldns_set_edns_version = (\<lambda>p v. p),
     ldns_set_edns_z = (\<lambda>p v. p), ldns_clear_edns_data = (\<lambda>p. p),
     ldns_fields = (\<lambda>p. demo_fields), ldns_z_wire = (\<lambda>b. 0)\<rparr>"

lemma demo_macros: "macros_ok demo_ext"
  by (simp add: macros_ok_def demo_ext_def)

text \<open>
  Clearing the DO bit is meant to remove all EDNS fields, but the EDNS options are applied in
  the order in which a hash map is iterated.  With \<^verbatim>\<open>--edns-do 100:0 --edns-udp-size 100:512\<close> one
  order sends the UDP size 0 and the other the UDP size 512.
\<close>

lemma edns_order_matters:
  "(\<exists>w. change_dns_pkt demo_ext id (replicate 14 0) [(EDNS_DO, 0), (EDNS_UDP_SIZE, 512)] =
      Inr \<lparr>ch_ok = True, ch_raw = w, from_new = False\<rparr> \<and> drop 12 w = be16 0) \<and>
   (\<exists>w. change_dns_pkt demo_ext rev (replicate 14 0) [(EDNS_DO, 0), (EDNS_UDP_SIZE, 512)] =
      Inr \<lparr>ch_ok = True, ch_raw = w, from_new = False\<rparr> \<and> drop 12 w = be16 512)"
proof -
  have "edns_part EDNS_DO" "edns_part EDNS_UDP_SIZE"
    by (simp_all add: edns_part_def one_bit_def part_defs word_le_def)
  then show ?thesis
    by (simp add: change_dns_pkt_def demo_ext_def header_ldns_def change_dns_pkt_edns_def part_defs)
qed

end
