(* ===== verification/Input_Stream.thy ===== *)
theory Input_Stream
  imports Input_Source Mutator_Dns
begin

text \<open>
  The input side of the mutator (\<^verbatim>\<open>input_stream.cc\<close>).  It descends from the client's
  \<^verbatim>\<open>input_source.cc\<close> and has changed since: an unknown format ends the process, text lines are
  split into words and the packets built for them have no EDNS part.  The theorems relate the two
  readers: on raw files and on traces they deliver the same messages, and a text line counts
  by its words only.  Log output is left out.
\<close>

unbundle bit_operations_syntax

section \<open>The class\<close>

definition INPUT_STREAM_NONE :: u32 where "INPUT_STREAM_NONE = 0"
definition INPUT_STREAM_TRACE :: u32 where "INPUT_STREAM_TRACE = 1"
definition INPUT_STREAM_TEXT :: u32 where "INPUT_STREAM_TEXT = 2"
definition INPUT_STREAM_RAW :: u32 where "INPUT_STREAM_RAW = 4"

lemmas stream_format_defs =
  INPUT_STREAM_NONE_def INPUT_STREAM_TRACE_def INPUT_STREAM_TEXT_def INPUT_STREAM_RAW_def

definition INPUT_FORMAT_MAP :: "string \<rightharpoonup> u32" where
  "INPUT_FORMAT_MAP =
     [''text'' \<mapsto> INPUT_STREAM_TEXT, ''trace'' \<mapsto> INPUT_STREAM_TRACE, ''raw'' \<mapsto> INPUT_STREAM_RAW]"

record input_stream = input_source +
  ins_verbose :: bool

definition ins_init :: "input_env \<Rightarrow> string \<Rightarrow> string \<Rightarrow> bool \<Rightarrow> input_stream result" where
  "ins_init env fn ft vb =
     (case INPUT_FORMAT_MAP ft of
        None \<Rightarrow> Inl (Exit 1 ''input format invalid'')
      | Some fmt \<Rightarrow>
          let ins = \<lparr>input_format = fmt, is_stdin = (fn = ''-''), ifs_open = False,
                     trace_open = False, packet_open = False, in_bytes = env_bytes env,
                     in_lines = env_lines env, in_packets = env_packets env,
                     in_read_err = env_read_err env, ins_verbose = vb\<rparr>
          in if fmt AND INPUT_STREAM_TRACE \<noteq> 0 then
               (if \<not> env_packet_ok env then Inl (Exit 1 ''cannot create libtrace packet'')
                else if env_trace_err env then Inl (Exit 1 ''cannot open trace file'')
                else if env_trace_start env = -1 then Inl (Exit 1 ''cannot start trace'')
                else Inr (ins\<lparr>trace_open := True, packet_open := True\<rparr>))
             else if fn \<noteq> ''-'' then
               (let opened = (if fmt AND INPUT_STREAM_TEXT \<noteq> 0 then env_opens env fn
                              else if fmt AND INPUT_STREAM_RAW \<noteq> 0 then env_opens env fn
                              else False)
                in if \<not> opened then Inl (Exit 1 ''cannot open input file'')
                   else Inr (ins\<lparr>ifs_open := True\<rparr>))
             else Inr ins)"

definition InputStream :: "input_env \<Rightarrow> string \<Rightarrow> string \<Rightarrow> input_stream result" where
  "InputStream env fn ft = ins_init env fn ft False"

definition InputStream_vb :: "input_env \<Rightarrow> string \<Rightarrow> string \<Rightarrow> bool \<Rightarrow> input_stream result" where
  "InputStream_vb env fn ft vb = ins_init env fn ft vb"

definition ins_trace_cleanup :: "input_stream \<Rightarrow> input_stream" where
  "ins_trace_cleanup ins =
     (let ins = (if trace_open ins then ins\<lparr>trace_open := False\<rparr> else ins)
      in if packet_open ins then ins\<lparr>packet_open := False\<rparr> else ins)"

definition InputStream_destroy :: "input_stream \<Rightarrow> input_stream" where
  "InputStream_destroy ins =
     (if input_format ins AND INPUT_STREAM_TRACE \<noteq> 0 then ins_trace_cleanup ins
      else if \<not> is_stdin ins \<and> ifs_open ins then ins\<lparr>ifs_open := False\<rparr>
      else ins)"

text \<open>
  \<^verbatim>\<open>read_bytes\<close> from standard input or the file; both report a short read.  A write past the
  \<open>cap\<close> bytes of the caller's buffer is undefined.
\<close>

definition ins_read_bytes :: "nat \<Rightarrow> bytes \<Rightarrow> nat \<Rightarrow> (bytes option \<times> bytes) result" where
  "ins_read_bytes cap s n =
     (let got = take n s
      in if cap < length got then Inl (Undefined ''read_bytes: write past the buffer'')
         else if length got \<noteq> n then Inr (None, [])
         else Inr (Some got, drop n s))"

definition ins_get_from_raw :: "pb \<Rightarrow> input_stream \<Rightarrow> (dnsmsg option \<times> input_stream) result" where
  "ins_get_from_raw c ins =
     bindE (ins_read_bytes 4 (in_bytes ins) 4) (\<lambda>(hdr, s1).
       case hdr of
         None \<Rightarrow> Inr (None, ins\<lparr>in_bytes := s1\<rparr>)
       | Some h \<Rightarrow>
           let sz = rd32 (h ! 0) (h ! 1) (h ! 2) (h ! 3)
           in bindE (ins_read_bytes BUF_SIZE s1 (unat sz)) (\<lambda>(payload, s2).
                case payload of
                  None \<Rightarrow> Inr (None, ins\<lparr>in_bytes := s2\<rparr>)
                | Some d \<Rightarrow> Inr (Some (ParseFromArray c d), ins\<lparr>in_bytes := s2\<rparr>)))"

text \<open>
  A line of six words; the packet is built without EDNS, and an absent packet is an empty string.
\<close>

definition line_packet :: "'p ldns \<Rightarrow> u16 \<Rightarrow> string list \<Rightarrow> bytes option" where
  "line_packet L rnd v =
     (let qname = v ! 2; qclass = v ! 3; qtype = v ! 4
      in if qname = ''-'' \<and> qclass = ''-'' \<and> qtype = ''-'' then build_dns_pkt L rnd
         else build_dns_pkt_query L rnd False qname qclass qtype)"

definition ins_process_line :: "'p ldns \<Rightarrow> u16 \<Rightarrow> string \<Rightarrow> dnsmsg result" where
  "ins_process_line L rnd line =
     (if line = [] \<or> line = [CHR 0x0A] \<or> line ! 0 = CHR ''#'' then Inr new_DNSMsg
      else let v = str_split_skip line
           in if length v \<noteq> 6 then Inr new_DNSMsg
              else let msg = new_DNSMsg
                         \<lparr>f_raw := Some (case line_packet L rnd v of None \<Rightarrow> [] | Some q \<Rightarrow> q),
                          f_src_ip := Some (v ! 1), f_seconds := Some 0, f_microseconds := Some 0\<rparr>
                   in bindE (line_time (v ! 0)) (\<lambda>(s, us).
                        Inr (msg\<lparr>f_seconds := Some s, f_microseconds := Some us,
                                 f_tcp := Some (v ! 5 = ''tcp''), f_ipv4 := Some True\<rparr>)))"

fun ins_text_loop :: "string list \<Rightarrow> (string \<times> string list) option" where
  "ins_text_loop [] = None"
| "ins_text_loop (line # ls) =
     (if line = [] \<or> line = [CHR 0x0A] \<or> line ! 0 = CHR ''#'' then ins_text_loop ls
      else Some (line, ls))"

definition ins_get_from_text ::
    "'p ldns \<Rightarrow> u16 \<Rightarrow> input_stream \<Rightarrow> (dnsmsg option \<times> input_stream) result" where
  "ins_get_from_text L rnd ins =
     (case ins_text_loop (in_lines ins) of
        None \<Rightarrow> Inr (None, ins\<lparr>in_lines := []\<rparr>)
      | Some (line, ls) \<Rightarrow>
          bindE (ins_process_line L rnd line) (\<lambda>m. Inr (Some m, ins\<lparr>in_lines := ls\<rparr>)))"

text \<open>
  A packet of a trace.  \<open>left_limit\<close> is the two byte length in front of a message over TCP.
\<close>

definition ins_fill :: "trace_pkt \<Rightarrow> u16 \<Rightarrow> byte \<Rightarrow> bytes \<Rightarrow> dnsmsg" where
  "ins_fill p ethertype proto dns_payload =
     (let msg = new_DNSMsg\<lparr>f_seconds := Some (fst (tp_timeval p)),
                           f_microseconds := Some (snd (tp_timeval p)),
                           f_tcp := Some (proto = IPPROTO_TCP),
                           f_ipv4 := Some (ethertype = ETHERTYPE_IP)\<rparr>
      in case tp_src_addr p of
           None \<Rightarrow> msg
         | Some sa \<Rightarrow>
             (case tp_dst_addr p of
                None \<Rightarrow> msg\<lparr>f_src_ip := Some sa\<rparr>
              | Some da \<Rightarrow> msg\<lparr>f_src_ip := Some sa, f_dst_ip := Some da, f_raw := Some dns_payload\<rparr>))"

definition ins_dns_payload :: "trace_pkt \<Rightarrow> u16 \<Rightarrow> byte \<Rightarrow> nat \<Rightarrow> dnsmsg result" where
  "ins_dns_payload p ethertype proto left =
     (let go = (\<lambda>cp left_limit.
        case cp of
          None \<Rightarrow> Inr new_DNSMsg
        | Some b \<Rightarrow>
            if length b \<le> left_limit + 12 then Inr new_DNSMsg
            else let dns_payload = drop left_limit b
                 in bindE (is_query dns_payload False) (\<lambda>q.
                      if \<not> q then Inr new_DNSMsg else Inr (ins_fill p ethertype proto dns_payload)))
      in if proto = IPPROTO_UDP then (if left < 8 then Inr new_DNSMsg else go (tp_udp_payload p) 0)
         else if proto = IPPROTO_TCP then (if left < 20 then Inr new_DNSMsg else go (tp_tcp_payload p) 2)
         else Inr new_DNSMsg)"

definition ins_process_packet :: "trace_pkt \<Rightarrow> dnsmsg result" where
  "ins_process_packet p =
     (case tp_layer3 p of
        None \<Rightarrow> Inr new_DNSMsg
      | Some (ethertype, left) \<Rightarrow>
          if left = 0 then Inr new_DNSMsg
          else if tp_dst_port p \<noteq> 53 \<and> tp_src_port p \<noteq> 53 then Inr new_DNSMsg
          else let go = (\<lambda>cp. case cp of
                      None \<Rightarrow> Inr new_DNSMsg
                    | Some (proto, left) \<Rightarrow>
                        if left = 0 then Inr new_DNSMsg else ins_dns_payload p ethertype proto left)
               in if ethertype = ETHERTYPE_IP then go (tp_ip_payload p)
                  else if ethertype = ETHERTYPE_IPV6 then go (tp_ip6_payload p)
                  else Inr new_DNSMsg)"

definition ins_get_from_trace :: "input_stream \<Rightarrow> (dnsmsg option \<times> input_stream) result" where
  "ins_get_from_trace ins =
     (case in_packets ins of
        p # ps \<Rightarrow> bindE (ins_process_packet p) (\<lambda>m. Inr (Some m, ins\<lparr>in_packets := ps\<rparr>))
      | [] \<Rightarrow> if in_read_err ins then Inl (Exit 1 ''error in reading packets'')
              else Inr (None, ins))"

definition ins_get ::
    "pb \<Rightarrow> 'p ldns \<Rightarrow> u16 \<Rightarrow> input_stream \<Rightarrow> (dnsmsg option \<times> input_stream) result" where
  "ins_get c L rnd ins =
     (if input_format ins = INPUT_STREAM_TRACE then ins_get_from_trace ins
      else if input_format ins = INPUT_STREAM_TEXT then ins_get_from_text L rnd ins
      else if input_format ins = INPUT_STREAM_RAW then ins_get_from_raw c ins
      else Inr (None, ins))"

section \<open>The two readers\<close>

text \<open>The fields the two classes share.\<close>

abbreviation as_source :: "input_stream \<Rightarrow> input_source" where
  "as_source \<equiv> input_source.truncate"

lemma as_source_fields [simp]:
  "input_format (as_source s) = input_format s" "in_bytes (as_source s) = in_bytes s"
  "in_lines (as_source s) = in_lines s" "in_packets (as_source s) = in_packets s"
  "in_read_err (as_source s) = in_read_err s"
  by (simp_all add: input_source.defs)

lemma as_source_update [simp]:
  "as_source (s\<lparr>in_bytes := b\<rparr>) = (as_source s)\<lparr>in_bytes := b\<rparr>"
  "as_source (s\<lparr>in_lines := l\<rparr>) = (as_source s)\<lparr>in_lines := l\<rparr>"
  "as_source (s\<lparr>in_packets := p\<rparr>) = (as_source s)\<lparr>in_packets := p\<rparr>"
  by (simp_all add: input_source.defs)

definition same_get :: "(dnsmsg option \<times> input_stream) result \<Rightarrow> (dnsmsg option \<times> input_source) result" where
  "same_get r = (case r of Inl e \<Rightarrow> Inl e | Inr (m, s) \<Rightarrow> Inr (m, as_source s))"

lemma same_get_simps [simp]:
  "same_get (Inl e) = Inl e" "same_get (Inr (m, s)) = Inr (m, as_source s)"
  by (simp_all add: same_get_def)

lemma same_get_bindE: "same_get (bindE x f) = bindE x (\<lambda>a. same_get (f a))"
  by (cases x) auto

lemma ins_read_bytes_eq: "ins_read_bytes = read_bytes"
  by (intro ext) (auto simp: ins_read_bytes_def read_bytes_def min_def)

lemma raw_same: "same_get (ins_get_from_raw c ins) = get_from_raw c (as_source ins)"
  unfolding ins_get_from_raw_def get_from_raw_def ins_read_bytes_eq same_get_bindE
  by (intro bindE_cong) (auto simp: same_get_bindE Let_def split: option.split intro!: bindE_cong)

lemma ins_fill_eq: "ins_fill = fill_msg"
  by (intro ext) (simp add: ins_fill_def fill_msg_def Let_def split: option.split)

lemma ins_dns_payload_eq:
  "ins_dns_payload p e proto left = query_of p e proto (transport_payload p proto left)"
  unfolding ins_dns_payload_def query_of_def transport_payload_def ins_fill_eq
  by (simp add: Let_def IPPROTO_UDP_def IPPROTO_TCP_def split: option.split cong: if_cong)

lemma ins_process_packet_eq: "ins_process_packet = Input_Source.process_packet"
  by (intro ext)
    (simp add: ins_process_packet_def Input_Source.process_packet_def ins_dns_payload_eq Let_def
      split: option.split)

lemma trace_same: "same_get (ins_get_from_trace ins) = get_from_trace (as_source ins)"
  by (simp add: ins_get_from_trace_def get_from_trace_def ins_process_packet_eq same_get_bindE
      split: list.split)

lemma same_format_codes:
  "INPUT_STREAM_TRACE = INPUT_SRC_TRACE" "INPUT_STREAM_TEXT = INPUT_SRC_TEXT"
  "INPUT_STREAM_RAW = INPUT_SRC_RAW"
  by (simp_all add: stream_format_defs format_defs)

lemma ins_get_same:
  assumes "input_format ins \<noteq> INPUT_STREAM_TEXT"
  shows "same_get (ins_get c L rnd ins) = get c L' rnd' (as_source ins)"
  using assms by (simp add: ins_get_def get_def raw_same trace_same same_format_codes)

section \<open>Reading a whole stream\<close>

lemma ins_text_loop_eq: "ins_text_loop = text_loop"
proof (rule ext)
  fix ls show "ins_text_loop ls = text_loop ls"
    by (induction ls) (auto simp: skip_line_def hd_conv_nth)
qed

lemma ins_get_progress:
  assumes "ins_get c L rnd ins = Inr (Some m, ins')"
  shows "input_left (as_source ins') < input_left (as_source ins)"
proof (cases "input_format ins = INPUT_STREAM_TEXT")
  case True
  with assms text_loop_shrinks [of "in_lines ins"] show ?thesis
    by (auto simp: ins_get_def ins_get_from_text_def ins_text_loop_eq input_left_def stream_format_defs
        fault_simps split: option.splits)
next
  case False
  from ins_get_same [OF this, where c = c and L = L and rnd = rnd and L' = L and rnd' = rnd] assms
  have "get c L rnd (as_source ins) = Inr (Some m, as_source ins')" by simp
  then show ?thesis by (rule get_progress)
qed

text \<open>The loop \<^verbatim>\<open>while ((msg = ins->get()) != NULL)\<close>, only collecting the messages.\<close>

function ins_get_all ::
    "pb \<Rightarrow> 'p ldns \<Rightarrow> (nat \<Rightarrow> u16) \<Rightarrow> nat \<Rightarrow> input_stream \<Rightarrow> dnsmsg list result" where
  "ins_get_all c L rnd k ins =
     (case ins_get c L (rnd k) ins of
        Inl e \<Rightarrow> Inl e
      | Inr (None, ins') \<Rightarrow> Inr []
      | Inr (Some m, ins') \<Rightarrow> bindE (ins_get_all c L rnd (Suc k) ins') (\<lambda>ms. Inr (m # ms)))"
  by pat_completeness auto
termination
  by (relation "measure (\<lambda>(c, L, rnd, k, ins). input_left (as_source ins))") (auto intro: ins_get_progress)

declare ins_get_all.simps [simp del]

lemma same_get_Inr: "same_get r = Inr (m, t) \<longleftrightarrow> (\<exists>s. r = Inr (m, s) \<and> t = as_source s)"
  by (auto simp: same_get_def split: sum.splits)

lemma ins_get_format: "ins_get c L rnd ins = Inr (m, ins') \<Longrightarrow> input_format ins' = input_format ins"
  by (auto simp: ins_get_def ins_get_from_trace_def ins_get_from_text_def ins_get_from_raw_def Let_def
      fault_simps split: if_splits list.splits option.splits)

lemma ins_get_raw_eq: "input_format ins = INPUT_STREAM_RAW \<Longrightarrow> ins_get c L rnd ins = ins_get_from_raw c ins"
  by (simp add: ins_get_def stream_format_defs)

interpretation stream_raw: raw_reader "\<lambda>k. ins_get c L (rnd k)" "ins_get_all c L rnd"
    "\<lambda>ins. input_format ins = INPUT_STREAM_RAW" in_bytes "ParseFromArray c" for c L rnd
proof unfold_locales
  fix s :: input_stream and bs rest k
  assume raw: "input_format s = INPUT_STREAM_RAW"
  then have get: "ins_get c L (rnd k) s = ins_get_from_raw c s" for k by (rule ins_get_raw_eq)
  show "\<exists>s'. ins_get c L (rnd k) s = Inr (Some (ParseFromArray c bs), s') \<and>
      input_format s' = INPUT_STREAM_RAW \<and> in_bytes s' = rest"
    if f: "in_bytes s = frame32 bs @ rest" "length bs \<le> BUF_SIZE"
  proof -
    obtain s' where s': "ins_get_from_raw c s = Inr (Some (ParseFromArray c bs), s')"
      "(as_source s)\<lparr>in_bytes := rest\<rparr> = as_source s'"
      using raw_same [of c s] get_from_raw_frame [of "as_source s" bs rest c] f by (auto simp: same_get_Inr)
    from arg_cong [OF s'(2), of in_bytes] have "in_bytes s' = rest" by simp
    moreover have g: "ins_get c L (rnd k) s = Inr (Some (ParseFromArray c bs), s')" using s'(1) get by simp
    moreover have "input_format s' = INPUT_STREAM_RAW" using ins_get_format [OF g] raw by simp
    ultimately show ?thesis by blast
  qed
  show "\<exists>s'. ins_get c L (rnd k) s = Inr (None, s')" if "length (in_bytes s) < 4"
    using raw_same [of c s] get_from_raw_short [of "as_source s" c] that by (auto simp: get same_get_Inr)
next
  show "ins_get_all c L rnd k s = (case ins_get c L (rnd k) s of Inl e \<Rightarrow> Inl e
      | Inr (None, s') \<Rightarrow> Inr []
      | Inr (Some m, s') \<Rightarrow> bindE (ins_get_all c L rnd (Suc k) s') (\<lambda>ms. Inr (m # ms)))" for k s
    by (rule ins_get_all.simps)
qed

section \<open>Properties\<close>

text \<open>
  C36.  On a raw file and on a network trace the mutator's reader and the client's reader, two
  versions of one class, deliver the same messages or fail in the same way, whatever the
  identifiers they draw.
\<close>

theorem readers_agree:
  assumes "input_format ins = INPUT_STREAM_RAW \<or> input_format ins = INPUT_STREAM_TRACE"
  shows "ins_get_all c L rnd k ins = get_all c L' rnd' k' (as_source ins)"
  using assms
proof (induction c L rnd k ins arbitrary: k' rule: ins_get_all.induct)
  case (1 c L rnd k ins)
  then have same: "same_get (ins_get c L (rnd k) ins) = get c L' (rnd' k') (as_source ins)"
    by (intro ins_get_same) (auto simp: stream_format_defs)
  show ?case
  proof (cases "ins_get c L (rnd k) ins")
    case (Inl e)
    with same [symmetric] show ?thesis
      by (simp add: ins_get_all.simps [of c L rnd k] get_all.simps [of c L' rnd' k'])
  next
    case (Inr r)
    obtain m ins' where r: "r = (m, ins')" by (cases r)
    show ?thesis
    proof (cases m)
      case None
      with same [symmetric] Inr r show ?thesis
        by (simp add: ins_get_all.simps [of c L rnd k] get_all.simps [of c L' rnd' k'])
    next
      case (Some m')
      with Inr r ins_get_format [of c L "rnd k" ins] "1.prems"
      have "ins_get_all c L rnd (Suc k) ins' = get_all c L' rnd' (Suc k') (as_source ins')"
        by (intro "1.IH" [OF Inr r [symmetric] Some]) auto
      with same [symmetric] Inr r Some show ?thesis
        by (simp add: ins_get_all.simps [of c L rnd k] get_all.simps [of c L' rnd' k'])
    qed
  qed
qed

definition raw_stream :: "bytes \<Rightarrow> input_stream" where
  "raw_stream bs =
     \<lparr>input_format = INPUT_STREAM_RAW, is_stdin = True, ifs_open = False, trace_open = False,
      packet_open = False, in_bytes = bs, in_lines = [], in_packets = [], in_read_err = False,
      ins_verbose = False\<rparr>"

theorem readers_agree_witness:
  "ins_get_all (table_pb [new_DNSMsg]) header_ldns (\<lambda>_. 0) 0 (raw_stream (frame32 [0] @ [1])) =
   get_all (table_pb [new_DNSMsg]) header_ldns (\<lambda>_. 7) 3 (as_source (raw_stream (frame32 [0] @ [1])))"
  by (rule readers_agree) (simp add: raw_stream_def)

text \<open>
  C37.  The mutator reads a text line by its words: whatever white space separates the time (as
  the tools print it), source, name, class, type and protocol, also before the first and after
  the last, the line becomes the message with these fields and the packet built without EDNS.
\<close>

theorem text_line_by_words:
  assumes "words line = [to_string sec @ CHR ''.'' # pad6 us, ip, qname, qclass, qtype, proto]"
    and "0 \<le> sec" and "sec \<le> int_max" and "us < 1000000" and "qname \<noteq> ''-''" and "hd line \<noteq> CHR ''#''"
  shows "ins_process_line L rnd line =
         Inr (new_DNSMsg\<lparr>
           f_raw := Some (case build_dns_pkt_query L rnd False qname qclass qtype of None \<Rightarrow> [] | Some q \<Rightarrow> q),
           f_src_ip := Some ip, f_seconds := Some sec, f_microseconds := Some (int us),
           f_tcp := Some (proto = ''tcp''), f_ipv4 := Some True\<rparr>)"
proof -
  have v: "str_split_skip line = words line" by (rule str_split_skip_words)
  have "line \<noteq> []" "line \<noteq> [CHR 0x0A]" using assms(1) by (auto simp: words_newline)
  with assms v show ?thesis
    by (simp add: ins_process_line_def line_packet_def hd_conv_nth line_time_written)
qed

theorem text_line_by_words_witness:
  "ins_process_line header_ldns 7 (''  12.000034 10.0.0.1  a. IN'' @ [CHR 0x09] @ ''A tcp '') =
   Inr (new_DNSMsg\<lparr>
     f_raw := Some (case build_dns_pkt_query header_ldns 7 False ''a.'' ''IN'' ''A'' of None \<Rightarrow> [] | Some q \<Rightarrow> q),
     f_src_ip := Some ''10.0.0.1'', f_seconds := Some 12, f_microseconds := Some (int 34),
     f_tcp := Some (''tcp'' = ''tcp''), f_ipv4 := Some True\<rparr>)"
proof (rule text_line_by_words)
  show "words (''  12.000034 10.0.0.1  a. IN'' @ [CHR 0x09] @ ''A tcp '') =
      [to_string 12 @ CHR ''.'' # pad6 34, ''10.0.0.1'', ''a.'', ''IN'', ''A'', ''tcp'']"
    by code_simp
qed (simp_all add: int_max_def)

end
