(* ===== verification/Mutator.thy ===== *)
theory Mutator
  imports Input_Stream
begin

text \<open>
  The mutator (\<^verbatim>\<open>mutator.cc\<close>): it reads queries, changes header and EDNS fields of a given share of
  them at random, and writes them as a raw stream for the client or as text, once or, with
  \<^verbatim>\<open>--loop\<close>, again and again.  The random draws, the iteration order of the C++ hash maps, the
  result of \<^verbatim>\<open>fwrite\<close> and the files are fields of \<open>mutator_env\<close>; writing to an open file is
  taken to succeed (the sources do not look at the state of the stream).  The theorems say that
  what the mutator writes is what the client reads, for one pass and for the endless loop, what
  mutation does to the header of a query, and what a line of the text output looks like.  Where no
  EDNS option is in effect mutation ends in an undefined release of memory, and the theorem about headers
  is about the packet computed up to there.
\<close>

unbundle bit_operations_syntax

section \<open>Constants and validity\<close>

definition OUTPUT_FORMAT_NONE :: u32 where "OUTPUT_FORMAT_NONE = 0"
definition OUTPUT_FORMAT_TEXT :: u32 where "OUTPUT_FORMAT_TEXT = 1"
definition OUTPUT_FORMAT_RAW :: u32 where "OUTPUT_FORMAT_RAW = 2"

lemmas output_defs = OUTPUT_FORMAT_NONE_def OUTPUT_FORMAT_TEXT_def OUTPUT_FORMAT_RAW_def

definition OUTPUT_FORMAT_MAP :: "string \<rightharpoonup> u32" where
  "OUTPUT_FORMAT_MAP = [''text'' \<mapsto> OUTPUT_FORMAT_TEXT, ''raw'' \<mapsto> OUTPUT_FORMAT_RAW]"

definition valid_option :: "u32 \<Rightarrow> u32 \<Rightarrow> u32 \<Rightarrow> bool" where
  "valid_option a down up \<longleftrightarrow> down \<le> a \<and> a \<le> up \<and> a AND (a - 1) = 0"

definition valid_dns_option :: "u32 \<Rightarrow> bool" where
  "valid_dns_option p = valid_option p DNS_OPCODE EDNS_Z"

definition valid_output_format :: "u32 \<Rightarrow> bool" where
  "valid_output_format p = valid_option p OUTPUT_FORMAT_TEXT OUTPUT_FORMAT_RAW"

section \<open>The environment and the class\<close>

record 'p mutator_env =
  me_pb :: pb
  me_ldns :: "'p ldns_ext"
  me_input :: input_env
  me_stat :: "string \<Rightarrow> bool option"
  me_out_opens :: "string \<Rightarrow> bool"
  me_fwrite :: "bytes \<Rightarrow> nat \<Rightarrow> nat"
  me_order :: "(u32 \<times> u32) list \<Rightarrow> (u32 \<times> u32) list"
  me_rand :: "nat \<Rightarrow> nat"
  me_ids :: "nat \<Rightarrow> u16"

type_synonym mut_opts = "(u32 \<times> int \<times> u32) list"

record mutator =
  mu_infinite :: bool
  mu_is_stdout :: bool
  mu_output_format :: u32
  mu_ofs_open :: bool
  mu_out :: bytes
  mu_opt :: mut_opts
  mu_warehouse :: "dnsmsg list"
  mu_ins :: "input_stream option"
  mu_draws :: nat

definition text_bytes :: "string \<Rightarrow> bytes" where
  "text_bytes s = map of_char s"

section \<open>Writing\<close>

definition write_data :: "'p mutator_env \<Rightarrow> bytes \<Rightarrow> mutator \<Rightarrow> mutator result" where
  "write_data E p s =
     (if mu_ofs_open s then Inr (s\<lparr>mu_out := mu_out s @ p\<rparr>)
      else let d = me_fwrite E (mu_out s) (length p)
           in if d \<noteq> length p then Inl (Exit 1 ''fail to write data to stdout'')
              else Inr (s\<lparr>mu_out := mu_out s @ p\<rparr>))"

definition write_raw :: "'p mutator_env \<Rightarrow> dnsmsg \<Rightarrow> mutator \<Rightarrow> mutator result" where
  "write_raw E msg s =
     (case SerializeToString (me_pb E) msg of
        None \<Rightarrow> Inl (Exit 1 ''serialize message fails'')
      | Some msg_str \<Rightarrow>
          let sz = (of_nat (length msg_str) :: u32)
          in bindE (write_data E (be32 sz) s) (\<lambda>s. write_data E msg_str s))"

text \<open>
  The zeros in front of the microseconds.  \<^verbatim>\<open>6 - usec.length()\<close> is a 64 bit unsigned
  difference; the 32 bit counter never reaches it after a wrap.
\<close>

definition usec_zeros :: "string \<Rightarrow> string result" where
  "usec_zeros usec =
     (let n = unat ((6 :: u64) - of_nat (length usec))
      in if n < 2 ^ 32 then Inr (replicate n CHR ''0'')
         else Inl (Diverges ''write_text: padding''))"

definition write_text :: "'p mutator_env \<Rightarrow> dnsmsg \<Rightarrow> mutator \<Rightarrow> mutator result" where
  "write_text E msg s =
     (let usec = to_string (microseconds msg)
      in bindE (usec_zeros usec) (\<lambda>zeros.
           let l = to_string (seconds msg) @ ''.'' @ zeros @ usec @ [CHR 0x09] @ src_ip msg @ [CHR 0x09] @
                   (if tcp msg then ''tcp'' @ [CHR 0x09] else ''udp'' @ [CHR 0x09])
           in case dns_msg_str (me_ldns E) (raw msg) of
                None \<Rightarrow> Inr s
              | Some msg_str \<Rightarrow> Inr (s\<lparr>mu_out := mu_out s @ text_bytes (l @ msg_str @ [CHR 0x0A])\<rparr>)))"

definition write_output :: "'p mutator_env \<Rightarrow> dnsmsg \<Rightarrow> mutator \<Rightarrow> mutator result" where
  "write_output E msg s =
     (if mu_output_format s = OUTPUT_FORMAT_RAW then write_raw E msg s
      else if mu_output_format s = OUTPUT_FORMAT_TEXT then write_text E msg s
      else Inl (Exit 1 ''unknown output format''))"

section \<open>Construction\<close>

definition fsdb_header :: string where
  "fsdb_header = ''#fsdb -F t time srcip protocol'' @ concat (map (\<lambda>s. '' '' @ s) DNS_MSG_HEADER) @ [CHR 0x0A]"

definition mut_init ::
    "'p mutator_env \<Rightarrow> bool \<Rightarrow> string \<Rightarrow> string \<Rightarrow> string \<Rightarrow> string \<Rightarrow> bool \<Rightarrow> mut_opts \<Rightarrow> mutator result" where
  "mut_init E verbose_log ifn ift ofn oft f m =
     (let fmt = (case OUTPUT_FORMAT_MAP oft of None \<Rightarrow> 0 | Some v \<Rightarrow> v)
      in bindE (require (valid_output_format fmt) (Exit 1 ''unknown output format'')) (\<lambda>_.
         let is_stdout = (ofn = ''-'');
             s = \<lparr>mu_infinite = f, mu_is_stdout = is_stdout, mu_output_format = fmt, mu_ofs_open = False,
                  mu_out = [], mu_opt = m, mu_warehouse = [], mu_ins = None, mu_draws = 0\<rparr>
         in bindE (if is_stdout then Inr s
                   else if fmt AND OUTPUT_FORMAT_RAW = 0 \<and> fmt AND OUTPUT_FORMAT_TEXT = 0
                     then Inl (Exit 1 ''unknown output format'')
                   else if \<not> me_out_opens E ofn then Inl (Exit 1 ''cannot open output file'')
                   else Inr (s\<lparr>mu_ofs_open := True\<rparr>)) (\<lambda>s.
            let s = (if fmt AND OUTPUT_FORMAT_TEXT \<noteq> 0 then s\<lparr>mu_out := mu_out s @ text_bytes fsdb_header\<rparr> else s)
            in if ifn \<noteq> ''-'' \<and> \<not> check_path_ok (me_stat E) (Some ifn) False
               then Inl (Exit 1 ''input file is invalid'')
               else bindE (InputStream_vb (me_input E) ifn ift verbose_log)
                      (\<lambda>ins. Inr (s\<lparr>mu_ins := Some ins\<rparr>)))))"

text \<open>The options of the command line, \<^verbatim>\<open>N:X\<close> per option; the map is given in iteration order.\<close>

definition parse_option :: "u32 \<times> string \<Rightarrow> (u32 \<times> int \<times> u32) result" where
  "parse_option it =
     (case it of (part, v) \<Rightarrow>
        bindE (require (valid_dns_option part) (Exit 1 ''invalid dns option'')) (\<lambda>_.
        bindE (str_split_two v CHR '':'') (\<lambda>(s1, s2).
        bindE (require (is_number s1 True) (Exit 1 ''is not positive number'')) (\<lambda>_.
        bindE (require (is_number s2 True) (Exit 1 ''is not positive number'')) (\<lambda>_.
        bindE (uncaught (stoi s1)) (\<lambda>n.
        bindE (uncaught (stoi s2)) (\<lambda>x. Inr (part, n, word_of_int x))))))))"

fun parse_options :: "(u32 \<times> string) list \<Rightarrow> mut_opts result" where
  "parse_options [] = Inr []"
| "parse_options (it # m) = bindE (parse_option it) (\<lambda>x. bindE (parse_options m) (\<lambda>xs. Inr (x # xs)))"

definition Mutator_new ::
    "'p mutator_env \<Rightarrow> bool \<Rightarrow> string \<Rightarrow> string \<Rightarrow> string \<Rightarrow> string \<Rightarrow> bool \<Rightarrow> (u32 \<times> string) list \<Rightarrow>
     mutator result" where
  "Mutator_new E verbose_log ifn ift ofn oft f m =
     bindE (parse_options m) (\<lambda>tmp. mut_init E verbose_log ifn ift ofn oft f tmp)"

definition Mutator_destroy :: "mutator \<Rightarrow> mutator" where
  "Mutator_destroy s =
     (let s = s\<lparr>mu_ins := None\<rparr>;
          s = (if \<not> mu_is_stdout s \<and> mu_ofs_open s then s\<lparr>mu_ofs_open := False\<rparr> else s)
      in s\<lparr>mu_warehouse := []\<rparr>)"

section \<open>Mutation\<close>

text \<open>The options of one bit and the others.\<close>

definition single_bit_part :: "u32 \<Rightarrow> bool" where
  "single_bit_part part \<longleftrightarrow>
     part AND DNS_AA \<noteq> 0 \<or> part AND DNS_TC \<noteq> 0 \<or> part AND DNS_RD \<noteq> 0 \<or> part AND DNS_RA \<noteq> 0 \<or>
     part AND DNS_Z \<noteq> 0 \<or> part AND DNS_AD \<noteq> 0 \<or> part AND DNS_CD \<noteq> 0 \<or> part AND EDNS_DO \<noteq> 0"

definition multi_bit_part :: "u32 \<Rightarrow> bool" where
  "multi_bit_part part \<longleftrightarrow>
     part AND DNS_OPCODE \<noteq> 0 \<or> part AND EDNS_UDP_SIZE \<noteq> 0 \<or> part AND EDNS_EXTENDED_RCODE \<noteq> 0 \<or>
     part AND EDNS_VERSION \<noteq> 0 \<or> part AND EDNS_Z \<noteq> 0"

text \<open>
  \<open>k\<close> counts the calls of \<^verbatim>\<open>rand\<close>, one per option.  In \<open>mutate_query\<close> the packet is given to \<^verbatim>\<open>free\<close>, which is
  undefined for a block from \<^verbatim>\<open>new[]\<close>; that is where \<open>change_dns_pkt\<close> takes it from when no EDNS option is in
  effect.
\<close>

definition do_change :: "'p mutator_env \<Rightarrow> nat \<Rightarrow> int \<Rightarrow> bool" where
  "do_change E k prob \<longleftrightarrow> int (me_rand E k mod 100 + 1) \<le> prob"

fun opt_applied :: "'p mutator_env \<Rightarrow> nat \<Rightarrow> mut_opts \<Rightarrow> (u32 \<times> u32) list" where
  "opt_applied E k [] = []"
| "opt_applied E k ((part, prob, val) # opt) =
     (let ch = do_change E k prob; rest = opt_applied E (Suc k) opt
      in if single_bit_part part
         then (part, if ch then (if 0 < val then 1 else 0) else (if 0 < val then 0 else 1)) # rest
         else if multi_bit_part part then (if ch then (part, val) # rest else rest)
         else rest)"

definition mutate_query :: "'p mutator_env \<Rightarrow> mutator \<Rightarrow> dnsmsg \<Rightarrow> (dnsmsg \<times> mutator) result" where
  "mutate_query E s msg =
     (let raw_old = raw msg;
          msg = msg\<lparr>f_raw := None\<rparr>;
          applied = opt_applied E (mu_draws s) (mu_opt s);
          s = s\<lparr>mu_draws := mu_draws s + length (mu_opt s)\<rparr>
      in bindE (change_dns_pkt (me_ldns E) (me_order E) raw_old (me_order E applied)) (\<lambda>ch.
           let msg = msg\<lparr>f_raw := Some (ch_raw ch)\<rparr>
           in if from_new ch then Inl (Undefined ''free of a block from new[]'')
              else Inr (msg, s)))"

section \<open>The main loop\<close>

definition mut_msg :: "'p mutator_env \<Rightarrow> mutator \<Rightarrow> dnsmsg \<Rightarrow> mutator result" where
  "mut_msg E s msg =
     (if raw msg = [] then Inr s
      else let emit = (\<lambda>(msg, s).
             if mu_infinite s then Inr (s\<lparr>mu_warehouse := mu_warehouse s @ [msg]\<rparr>)
             else write_output E msg s)
           in if mu_opt s \<noteq> [] then
                bindE (mutate_query E s msg) (\<lambda>(msg, s). if raw msg = [] then Inr s else emit (msg, s))
              else emit (msg, s))"

text \<open>\<^verbatim>\<open>while ((msg = ins->get()) != NULL)\<close>; \<open>k\<close> counts the calls of \<^verbatim>\<open>get\<close>.\<close>

function mut_loop ::
    "'p mutator_env \<Rightarrow> nat \<Rightarrow> input_stream \<Rightarrow> mutator \<Rightarrow> (input_stream \<times> mutator) result" where
  "mut_loop E k ins s =
     (case ins_get (me_pb E) (ldns_base (me_ldns E)) (me_ids E k) ins of
        Inl e \<Rightarrow> Inl e
      | Inr (None, ins') \<Rightarrow> Inr (ins', s)
      | Inr (Some msg, ins') \<Rightarrow> bindE (mut_msg E s msg) (\<lambda>s'. mut_loop E (Suc k) ins' s'))"
  by pat_completeness auto
termination
  by (relation "measure (\<lambda>(E, k, ins, s). input_left (as_source ins))") (auto intro: ins_get_progress)

declare mut_loop.simps [simp del]

text \<open>
  The loop over the stored queries, \<open>n\<close> rounds of it: \<^verbatim>\<open>i\<close> is a 32 bit index that is set to -1
  after the last query.  The flag says whether the loop has ended.
\<close>

fun ware_loop :: "'p mutator_env \<Rightarrow> nat \<Rightarrow> u32 \<Rightarrow> mutator \<Rightarrow> (mutator \<times> bool) result" where
  "ware_loop E 0 i s = Inr (s, False)"
| "ware_loop E (Suc n) i s =
     (if unat i < length (mu_warehouse s) then
        bindE (write_output E (mu_warehouse s ! unat i) s) (\<lambda>s'.
          let i' = (if unat i = length (mu_warehouse s') - 1 then - 1 else i)
          in ware_loop E n (i' + 1) s')
      else Inr (s, True))"

definition mut_start :: "'p mutator_env \<Rightarrow> nat \<Rightarrow> mutator \<Rightarrow> (mutator \<times> bool) result" where
  "mut_start E n s =
     (case mu_ins s of
        None \<Rightarrow> Inl (Assertion ''ins != NULL'')
      | Some ins \<Rightarrow>
          bindE (mut_loop E 0 ins s) (\<lambda>(ins', s').
            let s' = s'\<lparr>mu_ins := Some ins'\<rparr>
            in if mu_infinite s' then ware_loop E n 0 s' else Inr (s', True)))"

section \<open>What is emitted\<close>

text \<open>
  The specification of a run: the query after mutation, and the queries that are passed on, in
  order; \<open>k\<close> counts the random draws.
\<close>

definition mutated :: "'p mutator_env \<Rightarrow> mut_opts \<Rightarrow> nat \<Rightarrow> dnsmsg \<Rightarrow> dnsmsg result" where
  "mutated E opt k m =
     (if opt = [] then Inr m
      else bindE (change_dns_pkt (me_ldns E) (me_order E) (raw m) (me_order E (opt_applied E k opt))) (\<lambda>ch.
             if from_new ch then Inl (Undefined ''free of a block from new[]'')
             else Inr (m\<lparr>f_raw := Some (ch_raw ch)\<rparr>)))"

fun emitted :: "'p mutator_env \<Rightarrow> mut_opts \<Rightarrow> nat \<Rightarrow> dnsmsg list \<Rightarrow> dnsmsg list result" where
  "emitted E opt k [] = Inr []"
| "emitted E opt k (m # ms) =
     (if raw m = [] then emitted E opt k ms
      else bindE (mutated E opt k m) (\<lambda>m'.
             bindE (emitted E opt (k + length opt) ms) (\<lambda>r. Inr (if raw m' = [] then r else m' # r))))"

lemma mutate_query_mutated:
  "mu_opt s \<noteq> [] \<Longrightarrow> mutate_query E s m =
     bindE (mutated E (mu_opt s) (mu_draws s) m)
       (\<lambda>m'. Inr (m', s\<lparr>mu_draws := mu_draws s + length (mu_opt s)\<rparr>))"
  by (simp add: mutate_query_def mutated_def bindE_assoc Let_def)
    (intro bindE_cong refl; simp)

text \<open>Without options the queries are passed on unchanged.\<close>

lemma emitted_no_options: "emitted E [] k ms = Inr (filter (\<lambda>m. raw m \<noteq> []) ms)"
  by (induction ms) (simp_all add: mutated_def)

text \<open>Passing on a query: storing it or writing it.\<close>

definition emit :: "'p mutator_env \<Rightarrow> mutator \<Rightarrow> dnsmsg \<Rightarrow> mutator result" where
  "emit E s m = (if mu_infinite s then Inr (s\<lparr>mu_warehouse := mu_warehouse s @ [m]\<rparr>) else write_output E m s)"

lemma mut_msg_cases:
  "mut_msg E s m =
     (if raw m = [] then Inr s
      else bindE (mutated E (mu_opt s) (mu_draws s) m) (\<lambda>m'.
             let s' = s\<lparr>mu_draws := mu_draws s + length (mu_opt s)\<rparr>
             in if raw m' = [] then Inr s' else emit E s' m'))"
proof (cases "mu_opt s = []")
  case True
  then show ?thesis by (simp add: mut_msg_def mutated_def emit_def)
next
  case False
  then show ?thesis
    by (simp add: mut_msg_def mutate_query_mutated bindE_assoc emit_def Let_def cong: if_cong)
qed

text \<open>A loop that gets all messages of the stream is a fold over them.\<close>

lemma mut_loop_fold:
  assumes "ins_get_all (me_pb E) (ldns_base (me_ldns E)) (me_ids E) k ins = Inr ms"
  shows "\<exists>ins'. mut_loop E k ins s = bindE (foldE (mut_msg E) s ms) (\<lambda>s'. Inr (ins', s'))"
  using assms
proof (induction E k ins s arbitrary: ms rule: mut_loop.induct)
  case (1 E k ins s)
  obtain r where r: "ins_get (me_pb E) (ldns_base (me_ldns E)) (me_ids E k) ins = Inr r"
    using "1.prems" by (subst (asm) ins_get_all.simps) (auto split: sum.splits)
  obtain m ins' where mi: "r = (m, ins')" by (cases r)
  show ?case
  proof (cases m)
    case None
    with "1.prems" r mi have "ms = []"
      by (simp add: ins_get_all.simps [of "me_pb E" _ _ k])
    with None r mi show ?thesis by (simp add: mut_loop.simps [of E k])
  next
    case (Some msg)
    with "1.prems" r mi obtain ms' where ms: "ms = msg # ms'"
      and rest: "ins_get_all (me_pb E) (ldns_base (me_ldns E)) (me_ids E) (Suc k) ins' = Inr ms'"
      by (auto simp: ins_get_all.simps [of "me_pb E" _ _ k] fault_simps)
    have loop: "mut_loop E k ins s = bindE (mut_msg E s msg) (\<lambda>s'. mut_loop E (Suc k) ins' s')"
      using r mi Some by (simp add: mut_loop.simps [of E k])
    show ?thesis
    proof (cases "mut_msg E s msg")
      case (Inl e)
      with loop ms show ?thesis by simp
    next
      case (Inr s')
      with "1.IH" [OF r mi [symmetric] Some Inr rest] loop ms show ?thesis by simp
    qed
  qed
qed

section \<open>Raw output\<close>

definition writes_ok :: "'p mutator_env \<Rightarrow> mutator \<Rightarrow> bool" where
  "writes_ok E s \<longleftrightarrow> mu_ofs_open s \<or> (\<forall>b n. me_fwrite E b n = n)"

definition raw_frame :: "pb \<Rightarrow> dnsmsg \<Rightarrow> bytes" where
  "raw_frame c m = frame32 (the (SerializeToString c m))"

definition raw_ready :: "'p mutator_env \<Rightarrow> mutator \<Rightarrow> bool" where
  "raw_ready E s \<longleftrightarrow> mu_output_format s = OUTPUT_FORMAT_RAW \<and> writes_ok E s"

lemma raw_ready_update [simp]:
  "raw_ready E (s\<lparr>mu_out := b\<rparr>) = raw_ready E s" "raw_ready E (s\<lparr>mu_draws := d\<rparr>) = raw_ready E s"
  "raw_ready E (s\<lparr>mu_warehouse := w\<rparr>) = raw_ready E s" "raw_ready E (s\<lparr>mu_ins := i\<rparr>) = raw_ready E s"
  by (simp_all add: raw_ready_def writes_ok_def)

lemma write_data_ok: "writes_ok E s \<Longrightarrow> write_data E p s = Inr (s\<lparr>mu_out := mu_out s @ p\<rparr>)"
  by (auto simp: write_data_def writes_ok_def)

lemma write_output_raw:
  assumes "raw_ready E s" and "codec_ok (me_pb E) m"
  shows "write_output E m s = Inr (s\<lparr>mu_out := mu_out s @ raw_frame (me_pb E) m\<rparr>)"
proof -
  obtain bs where bs: "SerializeToString (me_pb E) m = Some bs" using assms(2) by (rule codec_okE)
  have "writes_ok E (s\<lparr>mu_out := b\<rparr>) = writes_ok E s" for b by (simp add: writes_ok_def)
  with assms(1) bs show ?thesis
    by (simp add: raw_ready_def write_output_def write_raw_def write_data_ok raw_frame_def frame32_def)
qed

text \<open>One pass over the messages: they are written, or stored when the output is to be looped.\<close>

lemma fold_emitted:
  assumes "emitted E (mu_opt s) (mu_draws s) ms = Inr out" and "raw_ready E s"
    and "\<forall>m \<in> set out. codec_ok (me_pb E) m"
  shows "\<exists>d. foldE (mut_msg E) s ms = Inr (s\<lparr>mu_draws := d,
     mu_out := mu_out s @ (if mu_infinite s then [] else concat (map (raw_frame (me_pb E)) out)),
     mu_warehouse := mu_warehouse s @ (if mu_infinite s then out else [])\<rparr>)"
  using assms
proof (induction ms arbitrary: s out)
  case Nil
  then show ?case by (auto intro: exI [of _ "mu_draws s"])
next
  case (Cons m ms)
  show ?case
  proof (cases "raw m = []")
    case True
    with Cons show ?thesis by (simp add: mut_msg_cases)
  next
    case False
    with Cons.prems(1) obtain m' r where m': "mutated E (mu_opt s) (mu_draws s) m = Inr m'"
      and r: "emitted E (mu_opt s) (mu_draws s + length (mu_opt s)) ms = Inr r"
      and out: "out = (if raw m' = [] then r else m' # r)"
      by (auto simp: fault_simps)
    define t where "t = (let s' = s\<lparr>mu_draws := mu_draws s + length (mu_opt s)\<rparr>
      in if raw m' = [] then s'
         else if mu_infinite s then s'\<lparr>mu_warehouse := mu_warehouse s @ [m']\<rparr>
         else s'\<lparr>mu_out := mu_out s @ raw_frame (me_pb E) m'\<rparr>)"
    have "mut_msg E s m = Inr t"
      using Cons.prems(2,3) False m' out by (simp add: mut_msg_cases emit_def write_output_raw t_def Let_def)
    moreover have "\<exists>d. foldE (mut_msg E) t ms = Inr (t\<lparr>mu_draws := d,
       mu_out := mu_out t @ (if mu_infinite t then [] else concat (map (raw_frame (me_pb E)) r)),
       mu_warehouse := mu_warehouse t @ (if mu_infinite t then r else [])\<rparr>)"
      using Cons.prems(2,3) r out by (intro Cons.IH) (auto simp: t_def Let_def split: if_splits)
    ultimately show ?thesis by (auto simp: t_def out Let_def)
  qed
qed

text \<open>The looped output: round \<open>j\<close> writes query \<open>j\<close> modulo their number; the index does not wrap.\<close>

lemma next_index:
  assumes "unat (i :: u32) < n" and "n < 2 ^ 32"
  shows "unat ((if unat i = n - 1 then - 1 else i) + 1) = Suc (unat i) mod n"
proof (cases "unat i = n - 1")
  case True
  with assms show ?thesis by simp
next
  case False
  with assms have "unat (i + 1) = Suc (unat i)" by (simp add: unat_word_ariths)
  with False assms(1) show ?thesis by simp
qed

lemma ware_loop_cycles:
  assumes "raw_ready E s" and "\<forall>m \<in> set (mu_warehouse s). codec_ok (me_pb E) m"
    and "length (mu_warehouse s) < 2 ^ 32" and "unat i < length (mu_warehouse s)"
  shows "ware_loop E n i s = Inr (s\<lparr>mu_out := mu_out s @
     concat (map (\<lambda>j. raw_frame (me_pb E) (mu_warehouse s ! ((unat i + j) mod length (mu_warehouse s)))) [0..<n])\<rparr>,
     False)"
  using assms
proof (induction n arbitrary: i s)
  case 0
  then show ?case by simp
next
  case (Suc n)
  let ?w = "mu_warehouse s" and ?f = "raw_frame (me_pb E)"
  let ?s = "s\<lparr>mu_out := mu_out s @ ?f (?w ! unat i)\<rparr>"
  define i' where "i' = (if unat i = length ?w - 1 then - 1 else i) + 1"
  have i: "unat i' = Suc (unat i) mod length ?w"
    unfolding i'_def using Suc.prems(3,4) by (intro next_index) auto
  have "unat i' < length ?w" unfolding i by (rule mod_less_divisor) (use Suc.prems(4) in linarith)
  have "ware_loop E (Suc n) i s = ware_loop E n i' ?s"
    using Suc.prems(1,2,4) by (simp add: write_output_raw Let_def i'_def)
  also have "\<dots> = Inr (?s\<lparr>mu_out := mu_out ?s @
      concat (map (\<lambda>j. ?f (?w ! ((unat i' + j) mod length ?w))) [0..<n])\<rparr>, False)"
    using Suc.IH [of ?s i'] Suc.prems(1-3) \<open>unat i' < length ?w\<close> by simp
  also have "map (\<lambda>j. ?f (?w ! ((unat i' + j) mod length ?w))) [0..<n] =
      map (\<lambda>j. ?f (?w ! ((unat i + j) mod length ?w))) (map Suc [0..<n])"
    by (simp add: i mod_simps)
  finally show ?case
    using Suc.prems(4) by (simp only: upt_conv_Cons [of 0 "Suc n"] map_Suc_upt) simp
qed

text \<open>What the constructor sets up for raw output.\<close>

lemma init_raw:
  assumes "mut_init E vb ifn ift ofn ''raw'' f opt = Inr s"
    and "ofn \<noteq> ''-'' \<or> (\<forall>b n. me_fwrite E b n = n)"
    and "ins_init (me_input E) ifn ift vb = Inr ins"
  shows "mu_ins s = Some ins" "raw_ready E s" "mu_infinite s = f" "mu_opt s = opt" "mu_draws s = 0"
    "mu_out s = []" "mu_warehouse s = []"
proof -
  have "OUTPUT_FORMAT_RAW AND OUTPUT_FORMAT_TEXT = 0" by (simp add: output_defs)
  moreover have "valid_output_format OUTPUT_FORMAT_RAW"
    by (simp add: valid_output_format_def valid_option_def output_defs word_le_def)
  ultimately have "mu_ins s = Some ins \<and> raw_ready E s \<and> mu_infinite s = f \<and> mu_opt s = opt \<and> mu_draws s = 0 \<and>
      mu_out s = [] \<and> mu_warehouse s = []"
    using assms
    by (auto simp: mut_init_def OUTPUT_FORMAT_MAP_def InputStream_vb_def raw_ready_def writes_ok_def
        fault_simps Let_def split: if_splits)
  then show "mu_ins s = Some ins" "raw_ready E s" "mu_infinite s = f" "mu_opt s = opt" "mu_draws s = 0"
    "mu_out s = []" "mu_warehouse s = []" by simp_all
qed

lemma raw_source_fields [simp]:
  "input_format (raw_source bs) = INPUT_SRC_RAW" "in_bytes (raw_source bs) = bs"
  by (simp_all add: raw_source_def)

lemma client_reads_frames:
  assumes "\<forall>m \<in> set ms. codec_ok c m \<and> length (the (SerializeToString c m)) \<le> BUF_SIZE"
  shows "get_all c L rnd k (raw_source (concat (map (raw_frame c) ms))) = Inr ms"
  by (rule src_raw.all_messages [OF _ refl, where tail = "[]"])
    (use assms in \<open>simp_all add: raw_frame_def [abs_def]\<close>)

section \<open>Options in effect\<close>

text \<open>What one option contributes to the map of changes; \<open>k\<close> is its draw.\<close>

definition applied_value :: "'p mutator_env \<Rightarrow> nat \<Rightarrow> u32 \<times> int \<times> u32 \<Rightarrow> u32 option" where
  "applied_value E k t = (case t of (part, prob, val) \<Rightarrow>
     if single_bit_part part
     then Some (if do_change E k prob \<longleftrightarrow> 0 < val then 1 else 0)
     else if multi_bit_part part \<and> do_change E k prob then Some val else None)"

lemma opt_applied_Cons:
  "opt_applied E k (x # opt) =
     (case applied_value E k x of None \<Rightarrow> [] | Some v \<Rightarrow> [(fst x, v)]) @ opt_applied E (Suc k) opt"
  by (cases x) (auto simp: applied_value_def Let_def)

lemma opt_applied_keys:
  "fst ` set (opt_applied E k opt) \<subseteq> fst ` set opt \<and>
   (distinct (map fst opt) \<longrightarrow> distinct (map fst (opt_applied E k opt)))"
proof (induction opt arbitrary: k)
  case (Cons x opt)
  have *: "fst ` set (opt_applied E (Suc k) opt) \<subseteq> fst ` set opt"
    "distinct (map fst opt) \<longrightarrow> distinct (map fst (opt_applied E (Suc k) opt))"
    using Cons.IH by blast+
  show ?case
  proof (cases "applied_value E k x")
    case None
    with * show ?thesis by (auto simp: opt_applied_Cons simp del: opt_applied.simps)
  next
    case (Some v)
    with * show ?thesis by (simp add: opt_applied_Cons del: opt_applied.simps) blast
  qed
qed simp

lemma map_of_applied:
  assumes "distinct (map fst opt)" and "i < length opt" and "opt ! i = (p, n, v)"
  shows "map_of (opt_applied E k opt) p = applied_value E (k + i) (p, n, v)"
  using assms
proof (induction opt arbitrary: k i)
  case (Cons x opt)
  show ?case
  proof (cases i)
    case 0
    then have "p \<notin> fst ` set (opt_applied E (Suc k) opt)"
      using opt_applied_keys [of E "Suc k" opt] Cons.prems by auto
    then have "map_of (opt_applied E (Suc k) opt) p = None" by (simp add: map_of_eq_None_iff)
    with 0 Cons.prems(3) show ?thesis
      by (simp add: opt_applied_Cons map_add_def del: opt_applied.simps split: option.split)
  next
    case (Suc j)
    then have "(p, n, v) \<in> set opt" using Cons.prems nth_mem [of j opt] by simp
    from imageI [OF this, of fst] Cons.prems(1) have "fst x \<noteq> p" by auto
    with Suc Cons.IH [of j "Suc k"] Cons.prems show ?thesis
      by (simp add: opt_applied_Cons map_add_def del: opt_applied.simps split: option.split)
  qed
qed simp

lemma opt_applied_opcode:
  assumes "\<forall>(p, n, v) \<in> set opt. p = DNS_OPCODE \<longrightarrow> v < 16"
  shows "(DNS_OPCODE, v) \<in> set (opt_applied E k opt) \<Longrightarrow> v < 16"
  using assms
proof (induction opt arbitrary: k)
  case (Cons x opt)
  have "\<not> single_bit_part DNS_OPCODE" by (simp add: single_bit_part_def part_defs)
  with Cons show ?case
    by (cases x) (auto simp: opt_applied_Cons applied_value_def simp del: opt_applied.simps split: if_splits)
qed simp

lemma map_of_order:
  assumes "distinct (map fst xs)" and "distinct (map fst ys)" and "set xs = set ys"
  shows "map_of xs = map_of ys"
  using assms by (metis map_of_eqI map_of_is_SomeI map_of_SomeD not_Some_eq map_of_inject_set)

lemma applied_value_flag:
  "applied_value E k (part_of f, n, v) = Some (if do_change E k n \<longleftrightarrow> 0 < v then 1 else 0)"
  by (cases f) (simp_all add: applied_value_def single_bit_part_def part_defs)

lemma applied_value_opcode:
  "applied_value E k (DNS_OPCODE, n, v) = (if do_change E k n then Some v else None)"
  by (simp add: applied_value_def single_bit_part_def multi_bit_part_def part_defs)

section \<open>Text output\<close>

lemma nat_digits_long: "10 ^ k \<le> n \<Longrightarrow> Suc k \<le> length (nat_digits n)"
proof (induction k arbitrary: n)
  case 0
  then show ?case by (simp add: Suc_leI)
next
  case (Suc k)
  then have "10 ^ k \<le> n div 10" by simp
  from Suc.IH [OF this] have l: "Suc k \<le> length (nat_digits (n div 10))" .
  have "(1 :: nat) \<le> 10 ^ k" by simp
  with Suc.prems have "\<not> n < 10" by (simp only: power_Suc)
  with l show ?case by (subst nat_digits.simps) simp
qed

lemma usec_zeros_short:
  assumes "us < 1000000"
  shows "usec_zeros (nat_digits us) = Inr (replicate (6 - length (nat_digits us)) CHR ''0'')"
proof -
  have l: "length (nat_digits us) \<le> 6" using length_nat_digits [of us 5] assms by simp
  moreover have "0 < length (nat_digits us)" by simp
  ultimately have "length (nat_digits us) \<in> {1, 2, 3, 4, 5, 6}" by (simp only: insert_iff) linarith
  then have "unat ((6 :: u64) - of_nat (length (nat_digits us))) = 6 - length (nat_digits us)" by auto
  with l show ?thesis by (simp add: usec_zeros_def Let_def)
qed

lemma usec_zeros_long:
  assumes "6 < length usec" and "length usec \<le> 10"
  shows "usec_zeros usec = Inl (Diverges ''write_text: padding'')"
proof -
  from assms have "length usec \<in> {7, 8, 9, 10}" by auto
  then show ?thesis by (auto simp: usec_zeros_def Let_def unsigned_minus_1_eq_mask mask_eq_exp_minus_1)
qed

section \<open>Properties\<close>

text \<open>A concrete environment: one line of text on standard input.\<close>

definition demo_query :: dnsmsg where
  "demo_query = new_DNSMsg\<lparr>f_raw := Some (be16 7 @ [0, 0, 0, 1, 0, 0, 0, 0, 0, 0]), f_src_ip := Some ''10.0.0.1'',
     f_seconds := Some 12, f_microseconds := Some 34, f_tcp := Some False, f_ipv4 := Some True\<rparr>"

definition demo_env :: "bytes mutator_env" where
  "demo_env = \<lparr>me_pb = table_pb [demo_query], me_ldns = demo_ext,
     me_input = \<lparr>env_packet_ok = True, env_trace_err = False, env_trace_start = 0, env_opens = (\<lambda>_. False),
       env_bytes = [], env_lines = [''# a comment'', ''12.000034 10.0.0.1 a. IN A udp''], env_packets = [],
       env_read_err = False\<rparr>,
     me_stat = (\<lambda>_. None), me_out_opens = (\<lambda>_. False), me_fwrite = (\<lambda>b n. n), me_order = rev,
     me_rand = (\<lambda>k. 41 * k), me_ids = (\<lambda>_. 7)\<rparr>"

definition demo_stream :: input_stream where
  "demo_stream = \<lparr>input_format = INPUT_STREAM_TEXT, is_stdin = True, ifs_open = False, trace_open = False,
     packet_open = False, in_bytes = [], in_lines = [''# a comment'', ''12.000034 10.0.0.1 a. IN A udp''],
     in_packets = [], in_read_err = False, ins_verbose = False\<rparr>"

definition demo_mutator :: "bool \<Rightarrow> mutator" where
  "demo_mutator f = \<lparr>mu_infinite = f, mu_is_stdout = True, mu_output_format = OUTPUT_FORMAT_RAW,
     mu_ofs_open = False, mu_out = [], mu_opt = [], mu_warehouse = [], mu_ins = Some demo_stream, mu_draws = 0\<rparr>"

lemma demo_init: "mut_init demo_env False ''-'' ''text'' ''-'' ''raw'' f [] = Inr (demo_mutator f)"
  by (cases f) code_simp+

lemma demo_ins: "ins_init (me_input demo_env) ''-'' ''text'' False = Inr demo_stream"
  by code_simp

lemma demo_messages:
  "ins_get_all (me_pb demo_env) (ldns_base (me_ldns demo_env)) (me_ids demo_env) 0 demo_stream = Inr [demo_query]"
  by code_simp

lemma demo_codec:
  "\<forall>m \<in> set [demo_query]. codec_ok (me_pb demo_env) m \<and>
     length (the (SerializeToString (me_pb demo_env) m)) \<le> BUF_SIZE"
  by (simp add: demo_env_def table_pb_ok) (simp add: table_pb_def BUF_SIZE_def)

lemma demo_emitted: "emitted demo_env [] 0 [demo_query] = Inr [demo_query]"
  unfolding emitted_no_options by (simp add: demo_query_def raw_def be16_def)

text \<open>
  C4.  Encoding: a mutator set up for raw output and run once ends, and the client's reader gets
  from its output exactly the queries of the input, in order and after mutation (where mutation runs
  without fault), without the records that hold no query.
\<close>

theorem encoded_stream_replayed:
  assumes "mut_init E vb ifn ift ofn ''raw'' False opt = Inr s"
    and "ofn \<noteq> ''-'' \<or> (\<forall>b n. me_fwrite E b n = n)"
    and "ins_init (me_input E) ifn ift vb = Inr ins"
    and "ins_get_all (me_pb E) (ldns_base (me_ldns E)) (me_ids E) 0 ins = Inr ms"
    and "emitted E opt 0 ms = Inr out"
    and "\<forall>m \<in> set out. codec_ok (me_pb E) m \<and> length (the (SerializeToString (me_pb E) m)) \<le> BUF_SIZE"
  shows "\<exists>s'. mut_start E n s = Inr (s', True) \<and>
    get_all (me_pb E) L rnd k (raw_source (mu_out s')) = Inr out"
proof -
  note s = init_raw [OF assms(1-3)]
  obtain d where fold: "foldE (mut_msg E) s ms = Inr (s\<lparr>mu_draws := d,
      mu_out := concat (map (raw_frame (me_pb E)) out), mu_warehouse := mu_warehouse s\<rparr>)"
    using fold_emitted [of E s ms out] s assms(5,6) by auto
  then obtain ins' where "mut_start E n s = Inr (s\<lparr>mu_draws := d,
      mu_out := concat (map (raw_frame (me_pb E)) out), mu_warehouse := mu_warehouse s, mu_ins := Some ins'\<rparr>, True)"
    using mut_loop_fold [OF assms(4), of s] s by (auto simp: mut_start_def)
  then show ?thesis using client_reads_frames [OF assms(6)] by simp
qed

theorem encoded_stream_replayed_witness:
  "\<exists>s'. mut_start demo_env 0 (demo_mutator False) = Inr (s', True) \<and>
     get_all (me_pb demo_env) header_ldns (\<lambda>_. 0) 0 (raw_source (mu_out s')) = Inr [demo_query]"
  by (rule encoded_stream_replayed [OF demo_init _ demo_ins demo_messages demo_emitted demo_codec])
    (simp add: demo_env_def)

text \<open>
  C6.  With \<^verbatim>\<open>--loop\<close> the output never ends: whatever number of queries has been written, the loop
  is still running, and the client's reader gets the stored queries over and over, in order.
\<close>

theorem looped_stream_replayed:
  assumes "mut_init E vb ifn ift ofn ''raw'' True opt = Inr s"
    and "ofn \<noteq> ''-'' \<or> (\<forall>b n. me_fwrite E b n = n)"
    and "ins_init (me_input E) ifn ift vb = Inr ins"
    and "ins_get_all (me_pb E) (ldns_base (me_ldns E)) (me_ids E) 0 ins = Inr ms"
    and "emitted E opt 0 ms = Inr out" and "out \<noteq> []" and "length out < 2 ^ 32"
    and "\<forall>m \<in> set out. codec_ok (me_pb E) m \<and> length (the (SerializeToString (me_pb E) m)) \<le> BUF_SIZE"
  shows "\<exists>s'. mut_start E n s = Inr (s', False) \<and>
    get_all (me_pb E) L rnd k (raw_source (mu_out s')) = Inr (map (\<lambda>j. out ! (j mod length out)) [0..<n])"
proof -
  note s = init_raw [OF assms(1-3)]
  let ?ms = "map (\<lambda>j. out ! (j mod length out)) [0..<n]"
  obtain d where fold: "foldE (mut_msg E) s ms = Inr (s\<lparr>mu_draws := d, mu_out := [], mu_warehouse := out\<rparr>)"
    using fold_emitted [of E s ms out] s assms(5,8) by auto
  then obtain ins' where start: "mut_start E n s =
      ware_loop E n 0 (s\<lparr>mu_draws := d, mu_out := [], mu_warehouse := out, mu_ins := Some ins'\<rparr>)"
    using mut_loop_fold [OF assms(4), of s] s by (auto simp: mut_start_def)
  have "ware_loop E n 0 (s\<lparr>mu_draws := d, mu_out := [], mu_warehouse := out, mu_ins := Some ins'\<rparr>) =
      Inr (s\<lparr>mu_draws := d, mu_out := concat (map (raw_frame (me_pb E)) ?ms), mu_warehouse := out,
        mu_ins := Some ins'\<rparr>, False)"
    using s(2) assms(6-8) by (subst ware_loop_cycles) (simp_all add: comp_def)
  with start client_reads_frames [of ?ms "me_pb E" L rnd k] assms(6,8) show ?thesis by simp
qed

theorem looped_stream_replayed_witness:
  "\<exists>s'. mut_start demo_env 3 (demo_mutator True) = Inr (s', False) \<and>
     get_all (me_pb demo_env) header_ldns (\<lambda>_. 0) 0 (raw_source (mu_out s')) =
       Inr (map (\<lambda>j. [demo_query] ! (j mod length [demo_query])) [0..<3])"
  by (rule looped_stream_replayed [OF demo_init _ demo_ins demo_messages demo_emitted _ _ demo_codec])
    (simp_all add: demo_env_def)

text \<open>Of a hundred equally likely draws, \<open>n\<close> are within \<open>n\<close> percent.\<close>

lemma draws_within: "0 \<le> n \<Longrightarrow> n \<le> 100 \<Longrightarrow> card {r :: nat. r < 100 \<and> int (r mod 100 + 1) \<le> n} = nat n"
proof -
  assume "0 \<le> n" "n \<le> 100"
  then have "{r :: nat. r < 100 \<and> int (r mod 100 + 1) \<le> n} = {..< nat n}" by auto
  then show ?thesis by simp
qed

text \<open>
  C5.  The change of a query's header.  The options are of the header only (opcode and flags) and their
  draws are made in the order of the options.  Whatever the iteration order of the second map, the packet
  that is computed has the length of the old one and every byte and bit that is not asked for.  A flag
  with the option \<^verbatim>\<open>N:X\<close> is X when the draw of the option is within N percent and, as the comment at the
  loop says (and the usage text does not), the opposite of X otherwise; the opcode is set when the draw
  is within N percent and kept otherwise.  The packet so computed is a block from \<^verbatim>\<open>new[]\<close>, and the last
  thing \<open>mutate_query\<close> does is to give it to \<^verbatim>\<open>free\<close>: the language does not define what the program
  does then, so the theorem claims nothing for what follows.
\<close>

theorem mutation_follows_draws:
  assumes "macros_ok (me_ldns E)"
    and "\<forall>xs. distinct xs \<longrightarrow> distinct (me_order E xs) \<and> set (me_order E xs) = set xs"
    and "3 < length (raw m)"
    and "distinct (map fst (mu_opt s))" and "fst ` set (mu_opt s) \<subseteq> header_parts"
    and "\<forall>(p, n, v) \<in> set (mu_opt s). p = DNS_OPCODE \<longrightarrow> v < 16"
  shows "\<exists>w. change_dns_pkt (me_ldns E) (me_order E) (raw m) (me_order E (opt_applied E (mu_draws s) (mu_opt s))) =
      Inr \<lparr>ch_ok = True, ch_raw = w, from_new = True\<rparr> \<and>
    mutate_query E s m = Inl (Undefined ''free of a block from new[]'') \<and> rest_same (raw m) w \<and>
    (\<forall>f. part_of f \<notin> fst ` set (mu_opt s) \<longrightarrow> hdr_get w f = hdr_get (raw m) f) \<and>
    (DNS_OPCODE \<notin> fst ` set (mu_opt s) \<longrightarrow> opcode_get w = opcode_get (raw m)) \<and>
    (\<forall>i < length (mu_opt s). case mu_opt s ! i of (p, n, v) \<Rightarrow>
       (\<forall>f. p = part_of f \<longrightarrow> hdr_get w f = (do_change E (mu_draws s + i) n \<longleftrightarrow> 0 < v)) \<and>
       (p = DNS_OPCODE \<longrightarrow>
          opcode_get w = (if do_change E (mu_draws s + i) n then ucast v else opcode_get (raw m))))"
proof -
  let ?a = "opt_applied E (mu_draws s) (mu_opt s)"
  let ?o = "me_order E ?a"
  have a: "distinct (map fst ?a)" "fst ` set ?a \<subseteq> fst ` set (mu_opt s)"
    using opt_applied_keys assms(4) by blast+
  then have o: "distinct ?o" "set ?o = set ?a" using assms(2) by (simp_all add: distinct_map)
  then have d: "distinct (map fst ?o)" using a(1) by (simp add: distinct_map)
  have mo: "map_of ?o = map_of ?a" using map_of_order [OF d a(1) o(2)] .
  have "header_opts ?o"
    using d o(2) a(2) assms(5) opt_applied_opcode [OF assms(6)] by (auto simp: header_opts_def)
  from header_options_applied [OF assms(1,3) this] obtain w where
    w: "change_dns_pkt (me_ldns E) (me_order E) (raw m) ?o = Inr \<lparr>ch_ok = True, ch_raw = w, from_new = True\<rparr>"
    "rest_same (raw m) w" "\<forall>f. hdr_get w f = wanted ?o (raw m) f" "opcode_get w = wanted_opcode ?o (raw m)"
    by metis
  have none: "p \<notin> fst ` set (mu_opt s) \<Longrightarrow> map_of ?o p = None" for p
    using a(2) mo by (auto simp: map_of_eq_None_iff)
  have some: "map_of ?o p = applied_value E (mu_draws s + i) (p, n, v)"
    if "i < length (mu_opt s)" "mu_opt s ! i = (p, n, v)" for i p n v
    using map_of_applied [OF assms(4) that, of E "mu_draws s"] mo by simp
  have "mutate_query E s m = Inl (Undefined ''free of a block from new[]'')"
    using w(1) by (simp add: mutate_query_def Let_def)
  moreover have "\<forall>f. part_of f \<notin> fst ` set (mu_opt s) \<longrightarrow> hdr_get w f = hdr_get (raw m) f"
    using w(3) none by (simp add: wanted_def)
  moreover have "DNS_OPCODE \<notin> fst ` set (mu_opt s) \<longrightarrow> opcode_get w = opcode_get (raw m)"
    using w(4) none by (simp add: wanted_opcode_def)
  moreover have "\<forall>i < length (mu_opt s). case mu_opt s ! i of (p, n, v) \<Rightarrow>
       (\<forall>f. p = part_of f \<longrightarrow> hdr_get w f = (do_change E (mu_draws s + i) n \<longleftrightarrow> 0 < v)) \<and>
       (p = DNS_OPCODE \<longrightarrow>
          opcode_get w = (if do_change E (mu_draws s + i) n then ucast v else opcode_get (raw m)))"
    using w(3,4) some
    by (auto simp: wanted_def wanted_opcode_def applied_value_flag applied_value_opcode split: if_splits)
  ultimately show ?thesis using w(1,2) by blast
qed

theorem mutation_follows_draws_witness:
  "\<exists>w. change_dns_pkt demo_ext rev (raw demo_query)
       (rev (opt_applied demo_env 0 [(DNS_RD, 40, 1), (DNS_AD, 40, 1), (DNS_OPCODE, 100, 2)])) =
     Inr \<lparr>ch_ok = True, ch_raw = w, from_new = True\<rparr> \<and> hdr_get w RD \<and> \<not> hdr_get w AD \<and> opcode_get w = 2"
proof -
  let ?opt = "[(DNS_RD, 40 :: int, 1), (DNS_AD, 40, 1), (DNS_OPCODE, 100, 2)] :: mut_opts"
  let ?s = "(demo_mutator False)\<lparr>mu_opt := ?opt\<rparr>"
  have env: "me_ldns demo_env = demo_ext" "me_order demo_env = rev"
    "\<And>k. me_rand demo_env k = 41 * k" by (simp_all add: demo_env_def)
  have q: "3 < length (raw demo_query)" by (simp add: demo_query_def raw_def be16_def)
  have parts: "fst ` set ?opt \<subseteq> header_parts"
    using range_eqI [of DNS_RD part_of RD] range_eqI [of DNS_AD part_of AD] by (simp add: header_parts_def)
  have draws: "mu_draws (demo_mutator False) = 0" by (simp add: demo_mutator_def)
  from mutation_follows_draws [of demo_env demo_query ?s] parts q demo_macros obtain w where
    w: "change_dns_pkt demo_ext rev (raw demo_query) (rev (opt_applied demo_env 0 ?opt)) =
      Inr \<lparr>ch_ok = True, ch_raw = w, from_new = True\<rparr>"
    and i: "\<forall>i < length (mu_opt ?s). case mu_opt ?s ! i of (p, n, v) \<Rightarrow>
       (\<forall>f. p = part_of f \<longrightarrow> hdr_get w f = (do_change demo_env (mu_draws ?s + i) n \<longleftrightarrow> 0 < v)) \<and>
       (p = DNS_OPCODE \<longrightarrow>
          opcode_get w = (if do_change demo_env (mu_draws ?s + i) n then ucast v else opcode_get (raw demo_query)))"
    by (auto simp: env part_defs draws simp del: opt_applied.simps)
  have "hdr_get w RD" using i [rule_format, of 0] by (simp add: draws do_change_def env)
  moreover have "\<not> hdr_get w AD" using i [rule_format, of 1] by (simp add: draws do_change_def env)
  moreover have "opcode_get w = 2" using i [rule_format, of 2] by (simp add: draws do_change_def env)
  ultimately show ?thesis using w by blast
qed

text \<open>
  C40.  Decoding: a message whose time is in range and whose packet can be parsed is written as one
  line of tab separated columns, and the tools' reader of time stamps gets the time of the message
  from the first column.
\<close>

theorem decoded_line_keeps_time:
  assumes "mu_output_format s = OUTPUT_FORMAT_TEXT" and "dns_msg_str (me_ldns E) (raw m) = Some cols"
    and "0 \<le> seconds m" and "seconds m \<le> int_max" and "0 \<le> microseconds m" and "microseconds m < 1000000"
  shows "\<exists>time. write_output E m s = Inr (s\<lparr>mu_out := mu_out s @
      text_bytes (join [CHR 0x09] [time, src_ip m, if tcp m then ''tcp'' else ''udp'', cols] @ [CHR 0x0A])\<rparr>) \<and>
    is_word time \<and> line_time time = Inr (seconds m, microseconds m)"
proof -
  let ?us = "nat (microseconds m)"
  let ?time = "to_string (seconds m) @ CHR ''.'' # pad6 ?us"
  have us: "to_string (microseconds m) = nat_digits ?us" "?us < 1000000"
    using assms(5,6) by (simp_all add: to_string_def)
  then have "write_output E m s = Inr (s\<lparr>mu_out := mu_out s @
      text_bytes (join [CHR 0x09] [?time, src_ip m, if tcp m then ''tcp'' else ''udp'', cols] @ [CHR 0x0A])\<rparr>)"
    using assms(1,2)
    by (simp add: write_output_def write_text_def output_defs usec_zeros_short join_Cons pad6_def Let_def)
  moreover have "is_word ?time" using assms(3) by (rule written_time)
  moreover have "line_time ?time = Inr (seconds m, microseconds m)"
    using line_time_written [OF assms(3,4) us(2)] assms(5) by simp
  ultimately show ?thesis by blast
qed

theorem decoded_line_keeps_time_witness:
  "\<exists>time. write_output demo_env demo_query ((demo_mutator False)\<lparr>mu_output_format := OUTPUT_FORMAT_TEXT\<rparr>) =
     Inr ((demo_mutator False)\<lparr>mu_output_format := OUTPUT_FORMAT_TEXT, mu_out := text_bytes (join [CHR 0x09]
       [time, src_ip demo_query, if tcp demo_query then ''tcp'' else ''udp'',
        the (dns_msg_str (me_ldns demo_env) (raw demo_query))] @ [CHR 0x0A])\<rparr>) \<and>
     is_word time \<and> line_time time = Inr (seconds demo_query, microseconds demo_query)"
proof -
  let ?s = "(demo_mutator False)\<lparr>mu_output_format := OUTPUT_FORMAT_TEXT\<rparr>"
  have "dns_msg_str (me_ldns demo_env) (raw demo_query) = Some (the (dns_msg_str (me_ldns demo_env) (raw demo_query)))"
    by (simp add: dns_msg_str_def demo_env_def demo_ext_def header_ldns_def demo_query_def raw_def be16_def Let_def)
  moreover have "seconds demo_query = 12" "microseconds demo_query = 34"
    by (simp_all add: demo_query_def seconds_def microseconds_def)
  ultimately show ?thesis
    using decoded_line_keeps_time [of ?s demo_env demo_query "the (dns_msg_str (me_ldns demo_env) (raw demo_query))"]
    by (simp add: int_max_def demo_mutator_def)
qed

text \<open>
  A message with a million microseconds or more stops the text output: the number of zeros
  to put in front wraps around, and the loop that adds them does not end.
\<close>

lemma long_microseconds_never_written:
  assumes "mu_output_format s = OUTPUT_FORMAT_TEXT" and "1000000 \<le> microseconds m" and "microseconds m \<le> int_max"
  shows "write_output E m s = Inl (Diverges ''write_text: padding'')"
proof -
  have us: "to_string (microseconds m) = nat_digits (nat (microseconds m))"
    using assms(2) by (simp add: to_string_def)
  have "6 < length (nat_digits (nat (microseconds m)))"
    using nat_digits_long [of 6 "nat (microseconds m)"] assms(2) by (simp add: le_nat_iff)
  moreover have "length (nat_digits (nat (microseconds m))) \<le> 10"
    using length_nat_digits [of "nat (microseconds m)" 9] assms(2,3) by (simp add: int_max_def)
  ultimately show ?thesis
    using assms(1) usec_zeros_long by (simp add: write_output_def write_text_def output_defs us)
qed

lemma long_microseconds_never_written_instance:
  "write_output demo_env (demo_query\<lparr>f_microseconds := Some 1234567\<rparr>)
     ((demo_mutator False)\<lparr>mu_output_format := OUTPUT_FORMAT_TEXT\<rparr>) = Inl (Diverges ''write_text: padding'')"
  by (rule long_microseconds_never_written) (simp_all add: microseconds_def int_max_def)

end
