(* ===== verification/Mutator_Main.thy ===== *)
theory Mutator_Main
  imports Mutator
begin

text \<open>
  The main function of the mutator (\<^verbatim>\<open>main.cc\<close>).  The command line is given as the list of options
  \<^verbatim>\<open>getopt_long\<close> returns; \<open>ord\<close> is the order in which the map of the change options is iterated.
  The theorems say which pairs of formats are converted, what a plain conversion runs, and that
  the option for the extended response code can never be used.
\<close>

section \<open>Options\<close>

definition OPT_DNS_OPCODE :: nat where "OPT_DNS_OPCODE = 1000"
definition OPT_DNS_AA :: nat where "OPT_DNS_AA = 1001"
definition OPT_DNS_TC :: nat where "OPT_DNS_TC = 1002"
definition OPT_DNS_RD :: nat where "OPT_DNS_RD = 1003"
definition OPT_DNS_RA :: nat where "OPT_DNS_RA = 1004"
definition OPT_DNS_Z :: nat where "OPT_DNS_Z = 1005"
definition OPT_DNS_AD :: nat where "OPT_DNS_AD = 1006"
definition OPT_DNS_CD :: nat where "OPT_DNS_CD = 1007"
definition OPT_EDNS_DO :: nat where "OPT_EDNS_DO = 1008"
definition OPT_EDNS_UDP_SIZE :: nat where "OPT_EDNS_UDP_SIZE = 1009"
definition OPT_EDNS_EXTENDED_RCODE :: nat where "OPT_EDNS_EXTENDED_RCODE = 1010"
definition OPT_EDNS_VERSION :: nat where "OPT_EDNS_VERSION = 1011"
definition OPT_EDNS_Z :: nat where "OPT_EDNS_Z = 1012"

lemmas opt_defs = OPT_DNS_OPCODE_def OPT_DNS_AA_def OPT_DNS_TC_def OPT_DNS_RD_def OPT_DNS_RA_def
  OPT_DNS_Z_def OPT_DNS_AD_def OPT_DNS_CD_def OPT_EDNS_DO_def OPT_EDNS_UDP_SIZE_def
  OPT_EDNS_EXTENDED_RCODE_def OPT_EDNS_VERSION_def OPT_EDNS_Z_def

record mut_args =
  ma_input_file :: string
  ma_input_format :: string
  ma_output_file :: string
  ma_output_format :: string
  ma_loop :: bool
  ma_verbose :: bool
  ma_m :: "(u32 \<times> string) list"

definition mut_args0 :: mut_args where
  "mut_args0 = \<lparr>ma_input_file = [], ma_input_format = [], ma_output_file = [], ma_output_format = [],
     ma_loop = False, ma_verbose = False, ma_m = []\<rparr>"

text \<open>\<^verbatim>\<open>DNS_OPT_MAP[name]\<close> is 0 for a name that is not in the map, and \<^verbatim>\<open>m[k] = v\<close>.\<close>

definition dns_opt_key :: "string \<Rightarrow> u32" where
  "dns_opt_key name = (case DNS_OPT_MAP name of None \<Rightarrow> 0 | Some v \<Rightarrow> v)"

definition set_opt :: "string \<Rightarrow> string \<Rightarrow> mut_args \<Rightarrow> mut_args" where
  "set_opt name tmp a =
     a\<lparr>ma_m := (dns_opt_key name, tmp) # filter (\<lambda>x. fst x \<noteq> dns_opt_key name) (ma_m a)\<rparr>"

text \<open>The name under which the options with a number are looked up.\<close>

definition opt_name :: "nat \<Rightarrow> string option" where
  "opt_name k =
     (if k = OPT_DNS_OPCODE then Some ''dns-opcode''
      else if k = OPT_DNS_AA then Some ''dns-aa''
      else if k = OPT_DNS_TC then Some ''dns-tc''
      else if k = OPT_DNS_RD then Some ''dns-rd''
      else if k = OPT_DNS_RA then Some ''dns-ra''
      else if k = OPT_DNS_Z then Some ''dns-z''
      else if k = OPT_DNS_AD then Some ''dns-ad''
      else if k = OPT_DNS_CD then Some ''dns-cd''
      else if k = OPT_EDNS_DO then Some ''edns-do''
      else if k = OPT_EDNS_UDP_SIZE then Some ''edns-udp-size''
      else if k = OPT_EDNS_EXTENDED_RCODE then Some ''edns-extended-code''
      else if k = OPT_EDNS_VERSION then Some ''edns-version''
      else if k = OPT_EDNS_Z then Some ''edns-z''
      else None)"

definition mut_option :: "mut_args \<Rightarrow> getopt_code \<times> string \<Rightarrow> mut_args result" where
  "mut_option a x =
     (case x of (opt, tmp) \<Rightarrow>
        if opt = Short CHR ''i'' then
          bindE (str_split_two tmp CHR '':'') (\<lambda>(s1, s2). Inr (a\<lparr>ma_input_format := s1, ma_input_file := s2\<rparr>))
        else if opt = Short CHR ''l'' then Inr (a\<lparr>ma_loop := True\<rparr>)
        else if opt = Short CHR ''o'' then
          bindE (str_split_two tmp CHR '':'') (\<lambda>(s1, s2). Inr (a\<lparr>ma_output_format := s1, ma_output_file := s2\<rparr>))
        else if opt = Short CHR ''v'' then Inr (a\<lparr>ma_verbose := True\<rparr>)
        else if opt = Short CHR ''V'' then Inl (Exit 0 ''version'')
        else case opt of
               Short ch \<Rightarrow> Inl (Exit 1 ''usage'')
             | Long k \<Rightarrow> (case opt_name k of
                 None \<Rightarrow> Inl (Exit 1 ''usage'')
               | Some name \<Rightarrow> Inr (set_opt name tmp a)))"

text \<open>\<open>Inr False\<close>: the pair of formats is ignored and the program returns 0.\<close>

definition mut_check :: "mut_args \<Rightarrow> bool result" where
  "mut_check a =
     (if ma_input_format a = [] \<or> ma_input_file a = [] \<or>
         \<not> str_set (ma_input_format a) {''trace'', ''text'', ''raw''} then Inl (Exit 1 ''input is invalid'')
      else if ma_output_format a = [] \<or> ma_output_file a = [] \<or>
         \<not> str_set (ma_output_format a) {''text'', ''raw''} then Inl (Exit 1 ''output is invalid'')
      else if ma_output_format a = ''raw'' then Inr (ma_input_format a \<noteq> ''raw'')
      else if ma_output_format a = ''text'' then Inr (\<not> str_set (ma_input_format a) {''text'', ''trace''})
      else Inl (Exit 1 ''output format is invalid''))"

text \<open>
  \<open>None\<close>: returned without a conversion.  The number \<open>n\<close> bounds the rounds of the endless loop
  that are observed, see \<^const>\<open>mut_start\<close>.
\<close>

definition mut_main ::
    "'p mutator_env \<Rightarrow> ((u32 \<times> string) list \<Rightarrow> (u32 \<times> string) list) \<Rightarrow> nat \<Rightarrow> nat \<Rightarrow> cli \<Rightarrow>
     (mutator \<times> bool) option result" where
  "mut_main E ord n argc opts =
     (if argc = 1 then Inl (Exit 1 ''usage'')
      else bindE (foldE mut_option mut_args0 opts) (\<lambda>a.
           bindE (mut_check a) (\<lambda>go.
             if \<not> go then Inr None
             else bindE (Mutator_new E (ma_verbose a) (ma_input_file a) (ma_input_format a)
                           (ma_output_file a) (ma_output_format a) (ma_loop a) (ord (ma_m a))) (\<lambda>mut.
                  bindE (mut_start E n mut) (\<lambda>r. Inr (Some r))))))"

section \<open>Facts\<close>

text \<open>The key of the option for the extended response code is 0, which is no valid option.\<close>

lemma extended_code_key: "dns_opt_key ''edns-extended-code'' = 0"
  by (simp add: dns_opt_key_def DNS_OPT_MAP_def)

lemma parse_options_invalid:
  assumes "(0, v) \<in> set m"
  shows "\<exists>e. parse_options m = Inl e"
  using assms
proof (induction m)
  case (Cons it m)
  have "\<not> valid_dns_option 0" by (simp add: valid_dns_option_def valid_option_def part_defs word_le_def)
  then have "parse_option (0, v) = Inl (Exit 1 ''invalid dns option'')" by (simp add: parse_option_def)
  with Cons show ?case
    by (cases "parse_option it"; cases "parse_options m") auto
qed simp

lemma mut_option_keeps_key:
  assumes "mut_option a x = Inr a'" and "k \<in> fst ` set (ma_m a)"
  shows "k \<in> fst ` set (ma_m a')"
  using assms
  by (cases x)
    (auto simp: mut_option_def set_opt_def fault_simps image_iff split: if_splits getopt_code.splits option.splits)

lemma mut_option_extended:
  "mut_option a (Long OPT_EDNS_EXTENDED_RCODE, v) = Inr (set_opt ''edns-extended-code'' v a)"
  by (simp add: mut_option_def opt_name_def opt_defs)

lemma fold_extended_key:
  assumes "foldE mut_option a opts = Inr a'" and "(Long OPT_EDNS_EXTENDED_RCODE, v) \<in> set opts"
  shows "0 \<in> fst ` set (ma_m a')"
proof -
  obtain xs ys where opts: "opts = xs @ (Long OPT_EDNS_EXTENDED_RCODE, v) # ys"
    using assms(2) by (auto dest: split_list)
  with assms(1) obtain b where
    b: "foldE mut_option (set_opt ''edns-extended-code'' v b) ys = Inr a'"
    by (auto simp: foldE_append mut_option_extended fault_simps)
  show ?thesis
    by (rule foldE_invariant [OF b, where P = "\<lambda>a. 0 \<in> fst ` set (ma_m a)"])
      (auto simp: set_opt_def extended_code_key intro: mut_option_keeps_key)
qed

section \<open>Properties\<close>

text \<open>
  The command line \<^verbatim>\<open>-i FORMAT:FILE -o raw:FILE\<close> for a trace or a text, with \<^verbatim>\<open>-l\<close> or without,
  runs the mutator without change options on exactly that input and output.
\<close>

lemma encode_command_line:
  assumes "ift = ''trace'' \<or> ift = ''text''" and "ifn \<noteq> []" and "ofn \<noteq> []" and "ord [] = []" and "argc \<noteq> 1"
  shows "mut_main E ord n argc ([(Short CHR ''i'', ift @ CHR '':'' # ifn), (Short CHR ''o'', ''raw:'' @ ofn)] @
      (if l then [(Short CHR ''l'', [])] else [])) =
    bindE (mut_init E False ifn ift ofn ''raw'' l []) (\<lambda>s. bindE (mut_start E n s) (\<lambda>r. Inr (Some r)))"
proof -
  have "CHR '':'' \<notin> set ift" using assms(1) by auto
  then have i: "mut_option a (Short CHR ''i'', ift @ CHR '':'' # ifn) =
      Inr (a\<lparr>ma_input_format := ift, ma_input_file := ifn\<rparr>)" for a
    by (simp add: mut_option_def str_split_two_sep)
  have o': "mut_option a (Short CHR ''o'', ''raw:'' @ ofn) =
      Inr (a\<lparr>ma_output_format := ''raw'', ma_output_file := ofn\<rparr>)" for a
    using str_split_two_sep [where s = "''raw''" and t = ofn] by (simp add: mut_option_def)
  have l: "mut_option a (Short CHR ''l'', []) = Inr (a\<lparr>ma_loop := True\<rparr>)" for a
    by (simp add: mut_option_def)
  have c: "mut_check \<lparr>ma_input_file = ifn, ma_input_format = ift, ma_output_file = ofn,
      ma_output_format = ''raw'', ma_loop = b, ma_verbose = False, ma_m = []\<rparr> = Inr True" for b
    using assms(1-3) by (auto simp: mut_check_def str_set_def)
  show ?thesis
    using assms(4,5) by (cases l) (simp_all add: mut_main_def i o' [simplified] l c mut_args0_def Mutator_new_def)
qed

lemma encode_command_line_instance:
  "mut_main demo_env id 0 5 ([(Short CHR ''i'', ''text'' @ CHR '':'' # ''-''), (Short CHR ''o'', ''raw:'' @ ''-'')] @
      (if False then [(Short CHR ''l'', [])] else [])) =
   bindE (mut_init demo_env False ''-'' ''text'' ''-'' ''raw'' False [])
     (\<lambda>s. bindE (mut_start demo_env 0 s) (\<lambda>r. Inr (Some r)))"
  by (rule encode_command_line) simp_all

text \<open>
  No run of the program with the option \<^verbatim>\<open>--edns-extended-rcode\<close> converts anything: main looks
  the option up under a name that is not in the table, and the constructor rejects the key 0.
\<close>

lemma extended_rcode_option_unusable:
  assumes "(Long OPT_EDNS_EXTENDED_RCODE, v) \<in> set opts" and "\<forall>xs. set (ord xs) = set xs"
  shows "\<forall>r. mut_main E ord n argc opts \<noteq> Inr (Some r)"
proof (intro allI notI)
  fix r assume "mut_main E ord n argc opts = Inr (Some r)"
  then obtain a tmp where a: "foldE mut_option mut_args0 opts = Inr a"
    and tmp: "parse_options (ord (ma_m a)) = Inr tmp"
    by (auto simp: mut_main_def Mutator_new_def fault_simps split: if_splits)
  from fold_extended_key [OF a assms(1)] obtain w where "(0, w) \<in> set (ma_m a)" by auto
  then have "(0, w) \<in> set (ord (ma_m a))" using assms(2) by simp
  from parse_options_invalid [OF this] tmp show False by simp
qed

lemma extended_rcode_option_unusable_instance:
  "\<forall>r. mut_main demo_env id 0 7 [(Short CHR ''i'', ''text:-''), (Short CHR ''o'', ''raw:-''),
     (Long OPT_EDNS_EXTENDED_RCODE, ''100:1'')] \<noteq> Inr (Some r)"
  by (rule extended_rcode_option_unusable [where v = "''100:1''"]) simp_all

end
