(* ===== verification/Socket_Util.thy ===== *)
theory Socket_Util
  imports Prelude
begin

text \<open>
  The Internet checksum of the proxy (\<^verbatim>\<open>socket_util.cc\<close>).  Memory is read as 16 bit words in
  the byte order of the machine, here little endian; the checksum is stored back in the same
  order.  The theorem behind the properties of the proxy: a segment into whose zero checksum
  field the computed value is stored has the checksum zero, which is what a receiver tests.
\<close>

unbundle bit_operations_syntax

section \<open>Operations\<close>

text \<open>A word as the machine loads and stores it.\<close>

definition ld16 :: "byte \<Rightarrow> byte \<Rightarrow> u16" where
  "ld16 a b = rd16 b a"

definition st16 :: "u16 \<Rightarrow> bytes" where
  "st16 w = [ucast w, ucast (drop_bit 8 w)]"

text \<open>
  The summing loop.  \<^verbatim>\<open>sum\<close> is a 64 bit \<^verbatim>\<open>long\<close>, which the at most \<open>2 ^ 30\<close> words cannot
  overflow.  A last single byte is read as a whole word, one byte past the buffer.
\<close>

fun sum16 :: "bytes \<Rightarrow> nat \<Rightarrow> nat result" where
  "sum16 [] s = Inr s"
| "sum16 [a] s = Inl (Undefined ''cksum: read past the buffer'')"
| "sum16 (a # b # bs) s = sum16 bs (s + unat (ld16 a b))"

text \<open>\<^verbatim>\<open>while (sum >> 16) sum = (sum & 0xffff) + (sum >> 16)\<close>\<close>

function fold16 :: "nat \<Rightarrow> nat" where
  "fold16 s = (if s div 2 ^ 16 \<noteq> 0 then fold16 (s mod 2 ^ 16 + s div 2 ^ 16) else s)"
  by pat_completeness auto
termination
proof (relation "measure id")
  fix s :: nat
  assume "s div 2 ^ 16 \<noteq> 0"
  then have pos: "0 < s div 65536" by simp
  have "s mod 65536 + 65536 * (s div 65536) = s" by (rule mod_mult_div_eq)
  with pos have "s mod 65536 + s div 65536 < s" by linarith
  then show "(s mod 2 ^ 16 + s div 2 ^ 16, s) \<in> measure id" by simp
qed simp

declare fold16.simps [simp del]

definition cksum :: "bytes \<Rightarrow> u16 result" where
  "cksum bs = bindE (sum16 bs 0) (\<lambda>s. Inr (NOT (of_nat (fold16 s))))"

definition pseudo_hdr :: "bytes \<Rightarrow> bytes \<Rightarrow> byte \<Rightarrow> u16 \<Rightarrow> bytes" where
  "pseudo_hdr ip_src ip_dst protocol len = ip_src @ ip_dst @ [0, protocol] @ be16 len"

text \<open>\<open>pkt\<close> is the memory from the pointer on; \<open>len\<close> bytes of it are copied.\<close>

definition udp_tcp_cksum :: "bytes \<Rightarrow> u16 \<Rightarrow> bytes \<Rightarrow> bytes \<Rightarrow> byte \<Rightarrow> u16 result" where
  "udp_tcp_cksum pkt len ip_src ip_dst protocol =
     (if length pkt < unat len then Inl (Undefined ''udp_tcp_cksum: read past the packet'')
      else let padding = (if unat len mod 2 \<noteq> 0 then [0] else [])
           in cksum (pseudo_hdr ip_src ip_dst protocol len @ take (unat len) pkt @ padding))"

section \<open>One's complement sums\<close>

lemma fold16_small: "s < 2 ^ 16 \<Longrightarrow> fold16 s = s"
  by (subst fold16.simps) simp

lemma fold16_big: "2 ^ 16 \<le> s \<Longrightarrow> fold16 s = fold16 (s mod 2 ^ 16 + s div 2 ^ 16)"
  by (subst fold16.simps) (simp add: div_eq_0_iff)

lemma fold16_induct [case_names small big]:
  assumes "\<And>s :: nat. s < 2 ^ 16 \<Longrightarrow> P s"
    and "\<And>s. 2 ^ 16 \<le> s \<Longrightarrow> P (s mod 2 ^ 16 + s div 2 ^ 16) \<Longrightarrow> P s"
  shows "P s"
proof (induction s rule: fold16.induct)
  case (1 s)
  then show ?case
    using assms(1) [of s] assms(2) [of s] by (cases "s < 2 ^ 16") (auto simp: div_eq_0_iff)
qed

lemma fold16_lt: "fold16 s < 2 ^ 16"
  by (induction s rule: fold16_induct) (simp_all only: fold16_small fold16_big)

lemma fold16_mod: "fold16 s mod 65535 = s mod 65535"
proof (induction s rule: fold16_induct)
  case (small s)
  then show ?case by (simp add: fold16_small)
next
  case (big s)
  have "s mod 65536 + 65536 * (s div 65536) = s" by (rule mod_mult_div_eq)
  then have "s = s mod 65536 + s div 65536 + 65535 * (s div 65536)" by linarith
  then have "s = s mod 2 ^ 16 + s div 2 ^ 16 + 65535 * (s div 2 ^ 16)" by simp
  then have "(s mod 2 ^ 16 + s div 2 ^ 16) mod 65535 = s mod 65535" by (metis mod_mult_self2)
  with big show ?case by (simp only: fold16_big)
qed

lemma fold16_pos: "0 < s \<Longrightarrow> 0 < fold16 s"
proof (induction s rule: fold16_induct)
  case (small s)
  then show ?case by (simp add: fold16_small)
next
  case (big s)
  have "0 < s div 2 ^ 16" using big(1) by (simp add: div_greater_zero_iff)
  with big show ?case by (simp add: fold16_big)
qed

lemma fold16_multiple: "0 < s \<Longrightarrow> s mod 65535 = 0 \<Longrightarrow> fold16 s = 65535"
  using fold16_pos [of s] fold16_mod [of s] fold16_lt [of s]
  by (auto simp: mod_eq_0_iff_dvd dvd_def)

text \<open>Adding the complement of the folded sum gives a sum that folds to all ones.\<close>

lemma fold16_complement: "fold16 (s + (65535 - fold16 s)) = 65535"
proof (rule fold16_multiple)
  have lt: "fold16 s \<le> 65535" using fold16_lt [of s] by simp
  show "0 < s + (65535 - fold16 s)"
    by (cases "s = 0") (simp_all add: fold16_small)
  have "(s + (65535 - fold16 s)) mod 65535 = (fold16 s + (65535 - fold16 s)) mod 65535"
    by (metis fold16_mod mod_add_left_eq)
  with lt show "(s + (65535 - fold16 s)) mod 65535 = 0" by simp
qed

lemma unat_not16: "unat (NOT w :: u16) = 65535 - unat w"
proof -
  have "uint (NOT w) = mask 16 - uint w"
    using bintr_uint [of 16 w] by (simp add: unsigned_not_eq take_bit_not_eq_mask_diff)
  then have "uint (NOT w) = 65535 - uint w" by (simp add: mask_eq_exp_minus_1)
  then show ?thesis by (metis nat_diff_distrib' nat_numeral uint_ge_0 unat_eq_nat_uint zero_le_numeral)
qed

section \<open>Storing the checksum\<close>

fun wsum :: "bytes \<Rightarrow> nat" where
  "wsum (a # b # bs) = unat (ld16 a b) + wsum bs"
| "wsum bs = 0"

lemma sum16_even: "even (length bs) \<Longrightarrow> sum16 bs s = Inr (s + wsum bs)"
  by (induction bs arbitrary: s rule: induct_list012) simp_all

lemma wsum_append: "even (length xs) \<Longrightarrow> wsum (xs @ ys) = wsum xs + wsum ys"
  by (induction xs rule: induct_list012) simp_all

lemma length_st16 [simp]: "length (st16 w) = 2"
  by (simp add: st16_def)

lemma wsum_st16: "wsum (st16 w) = unat w"
proof -
  have "ld16 (ucast w) (ucast (drop_bit 8 w)) = w"
    using rd16_be16 [of w] by (simp add: ld16_def be16_def)
  then show ?thesis by (simp add: st16_def)
qed

lemma cksum_even: "even (length bs) \<Longrightarrow> cksum bs = Inr (NOT (of_nat (fold16 (wsum bs))))"
  by (simp add: cksum_def sum16_even)

lemma cksum_stored:
  assumes "even (length a)" and "even (length b)" and "cksum (a @ [0, 0] @ b) = Inr w"
  shows "cksum (a @ st16 w @ b) = Inr 0"
proof -
  have z: "wsum (a @ [0, 0] @ b) = wsum a + wsum b"
    using assms(1) by (simp add: wsum_append ld16_def rd16_def)
  let ?s = "wsum a + wsum b"
  have w: "w = NOT (of_nat (fold16 ?s))" using assms z by (simp add: cksum_even)
  have "unat w = 65535 - fold16 ?s"
    using fold16_lt [of ?s] by (simp add: w unat_not16 unat_of_nat)
  moreover have "wsum (a @ st16 w @ b) = ?s + unat w"
    using assms(1) wsum_append [of "st16 w" b] by (simp add: wsum_append wsum_st16)
  ultimately have "fold16 (wsum (a @ st16 w @ b)) = 65535" using fold16_complement [of ?s] by simp
  moreover have "NOT (of_nat 65535 :: u16) = 0"
    by (simp add: word_eq_iff_unsigned unat_not16 unsigned_eq_0_iff)
  ultimately show ?thesis using assms(1,2) by (simp add: cksum_even)
qed

section \<open>The checksum of RFC 1071\<close>

text \<open>
  The reference: the one's complement of the one's complement sum of the 16 bit words in network
  byte order, where the carry of every addition is added back and an odd last byte is
  followed by a zero.
\<close>

definition oc_add :: "u16 \<Rightarrow> u16 \<Rightarrow> u16" where
  "oc_add a b = (if unat a + unat b < 65536 then a + b else a + b + 1)"

fun rfc1071_sum :: "bytes \<Rightarrow> u16" where
  "rfc1071_sum [] = 0"
| "rfc1071_sum [a] = rd16 a 0"
| "rfc1071_sum (a # b # bs) = oc_add (rd16 a b) (rfc1071_sum bs)"

definition rfc1071 :: "bytes \<Rightarrow> u16" where
  "rfc1071 bs = NOT (rfc1071_sum bs)"

text \<open>Two representatives of a residue that are both zero or both not zero are the same.\<close>

lemma mod65535_unique:
  fixes a b :: nat
  assumes "a mod 65535 = b mod 65535" and "a < 65536" and "b < 65536" and "(a = 0) = (b = 0)"
  shows "a = b"
proof (cases "a = 65535 \<or> b = 65535")
  case True
  with assms show ?thesis by (auto simp: mod_eq_0_iff_dvd dvd_def split: if_splits)
next
  case False
  with assms show ?thesis by simp
qed

lemma unat_oc_add: "unat (oc_add a b) = (if unat a + unat b < 65536 then unat a + unat b else unat a + unat b - 65535)"
proof -
  have lt: "unat a < 65536" "unat b < 65536" using unsigned_less [of a] unsigned_less [of b] by simp_all
  show ?thesis
  proof (cases "unat a + unat b < 65536")
    case True
    then show ?thesis by (simp add: oc_add_def unat_word_ariths)
  next
    case False
    have "unat (oc_add a b) = ((unat a + unat b) mod 65536 + 1) mod 65536"
      using False by (simp add: oc_add_def unat_word_ariths)
    also have "(unat a + unat b) mod 65536 = unat a + unat b - 65536" using False lt by (simp add: mod_if)
    finally show ?thesis using False lt by simp
  qed
qed

lemma oc_add_mod: "unat (oc_add a b) mod 65535 = (unat a + unat b) mod 65535"
  by (simp add: unat_oc_add mod_if)

lemma oc_add_zero: "unat (oc_add a b) = 0 \<longleftrightarrow> unat a = 0 \<and> unat b = 0"
  by (auto simp: unat_oc_add)

text \<open>Exchanging the bytes of a word multiplies its residue by 256.\<close>

definition swap16 :: "u16 \<Rightarrow> u16" where
  "swap16 w = push_bit 8 w OR drop_bit 8 w"

lemma st16_swap: "st16 w = be16 (swap16 w)"
proof -
  have "(ucast w :: byte) = ucast (drop_bit 8 (swap16 w))" "(ucast (drop_bit 8 w) :: byte) = ucast (swap16 w)"
    by (rule bit_word_eqI; auto simp: swap16_def bit_simps)+
  then show ?thesis by (simp add: st16_def be16_def)
qed

lemma swap16_not: "swap16 (NOT w) = NOT (swap16 w)"
  by (rule bit_word_eqI) (auto simp: swap16_def bit_simps dest!: bit_imp_le_length)

lemma swap16_ld16: "swap16 (ld16 a b) = rd16 a b"
  by (rule bit_word_eqI) (auto simp: swap16_def ld16_def rd16_def bit_simps dest: bit_imp_le_length)

lemma unat_rd16: "unat (rd16 a b) = 256 * unat a + unat b"
proof -
  have lt: "unat a < 256" "unat b < 256" using unsigned_less [of a] unsigned_less [of b] by simp_all
  have "rd16 a b = push_bit 8 (ucast a) + ucast b"
    unfolding rd16_def by (rule disjunctive_add [symmetric]) (auto simp: bit_simps dest: bit_imp_le_length)
  also have "\<dots> = of_nat (256 * unat a + unat b)"
    by (simp add: push_bit_eq_mult)
  finally show ?thesis using lt by (simp only: unat_of_nat len_num1 len_bit0) simp
qed

lemma swap16_mod: "unat (swap16 w) mod 65535 = 256 * unat w mod 65535" and swap16_zero: "unat (swap16 w) = 0 \<longleftrightarrow> unat w = 0"
proof -
  let ?x = "ucast w :: byte" and ?y = "ucast (drop_bit 8 w) :: byte"
  have w: "ld16 ?x ?y = w" using rd16_be16 [of w] by (simp add: ld16_def be16_def)
  have u: "unat w = 256 * unat ?y + unat ?x" by (subst w [symmetric]) (simp only: ld16_def unat_rd16)
  have s: "unat (swap16 w) = 256 * unat ?x + unat ?y" by (subst w [symmetric]) (simp only: swap16_ld16 unat_rd16)
  have "256 * unat w = unat (swap16 w) + 65535 * unat ?y" unfolding u s by simp
  then show "unat (swap16 w) mod 65535 = 256 * unat w mod 65535" by simp
  show "unat (swap16 w) = 0 \<longleftrightarrow> unat w = 0" unfolding u s by auto
qed

text \<open>The sum in network order, and its relation to the sum in the order of the machine.\<close>

lemma wsum_rfc1071:
  "even (length bs) \<Longrightarrow> 256 * wsum bs mod 65535 = unat (rfc1071_sum bs) mod 65535 \<and>
     (wsum bs = 0 \<longleftrightarrow> unat (rfc1071_sum bs) = 0)"
proof (induction bs rule: rfc1071_sum.induct)
  case (3 a b bs)
  then have IH: "256 * wsum bs mod 65535 = unat (rfc1071_sum bs) mod 65535" "wsum bs = 0 \<longleftrightarrow> unat (rfc1071_sum bs) = 0"
    by simp_all
  have h: "256 * unat (ld16 a b) mod 65535 = unat (rd16 a b) mod 65535" "unat (rd16 a b) = 0 \<longleftrightarrow> unat (ld16 a b) = 0"
    using swap16_mod [of "ld16 a b"] swap16_zero [of "ld16 a b"] by (simp_all add: swap16_ld16)
  have "256 * wsum (a # b # bs) mod 65535 = (256 * unat (ld16 a b) + 256 * wsum bs) mod 65535"
    by (simp add: distrib_left)
  also have "\<dots> = (unat (rd16 a b) + unat (rfc1071_sum bs)) mod 65535" using h(1) IH(1) by (metis mod_add_cong)
  finally show ?case using IH(2) h(2) by (auto simp: oc_add_mod oc_add_zero)
qed simp_all

lemma rfc1071_padding: "odd (length bs) \<Longrightarrow> rfc1071_sum (bs @ [0]) = rfc1071_sum bs"
proof (induction bs rule: rfc1071_sum.induct)
  case (2 a)
  show ?case using unsigned_less [of "rd16 a 0"] by (simp add: oc_add_def)
qed simp_all

lemma cksum_rfc1071:
  assumes "even (length bs)" and "cksum bs = Inr w"
  shows "st16 w = be16 (rfc1071 bs)"
proof -
  let ?f = "fold16 (wsum bs)"
  have lt: "?f < 65536" using fold16_lt [of "wsum bs"] by simp
  then have f: "unat (of_nat ?f :: u16) = ?f" by (simp add: unat_of_nat)
  have zero: "?f = 0 \<longleftrightarrow> wsum bs = 0" using fold16_pos [of "wsum bs"] by (cases "wsum bs = 0") (auto simp: fold16_small)
  have "unat (swap16 (of_nat ?f)) = unat (rfc1071_sum bs)"
  proof (rule mod65535_unique)
    have "unat (swap16 (of_nat ?f)) mod 65535 = 256 * wsum bs mod 65535"
      unfolding swap16_mod f by (metis fold16_mod mod_mult_right_eq)
    then show "unat (swap16 (of_nat ?f)) mod 65535 = unat (rfc1071_sum bs) mod 65535"
      using wsum_rfc1071 [OF assms(1)] by simp
    show "(unat (swap16 (of_nat ?f)) = 0) = (unat (rfc1071_sum bs) = 0)"
      using wsum_rfc1071 [OF assms(1)] zero by (simp only: swap16_zero f)
  qed (use unsigned_less [of "swap16 (of_nat ?f)"] unsigned_less [of "rfc1071_sum bs"] in simp_all)
  then have "swap16 (of_nat ?f) = rfc1071_sum bs" by (simp add: unsigned_word_eqI)
  moreover have "w = NOT (of_nat ?f)" using assms by (simp add: cksum_even)
  ultimately show ?thesis by (simp add: st16_swap swap16_not rfc1071_def)
qed

text \<open>The checksum of a segment and its pseudo header.\<close>

lemma udp_tcp_cksum_rfc1071:
  assumes "unat len \<le> length pkt" and "length ip_src = 4" and "length ip_dst = 4"
  shows "\<exists>w. udp_tcp_cksum pkt len ip_src ip_dst protocol = Inr w \<and>
    st16 w = be16 (rfc1071 (pseudo_hdr ip_src ip_dst protocol len @ take (unat len) pkt))"
proof -
  let ?bs = "pseudo_hdr ip_src ip_dst protocol len @ take (unat len) pkt"
  let ?pad = "if unat len mod 2 \<noteq> 0 then [0] else [] :: bytes"
  have len: "length ?bs = 12 + unat len" using assms by (simp add: pseudo_hdr_def)
  then have even: "even (length (?bs @ ?pad))" unfolding length_append [of ?bs] len by simp presburger
  have "rfc1071 (?bs @ ?pad) = rfc1071 ?bs"
    using len rfc1071_padding [of ?bs] by (auto simp: rfc1071_def odd_iff_mod_2_eq_one simp del: append_assoc)
  moreover have "udp_tcp_cksum pkt len ip_src ip_dst protocol = cksum (?bs @ ?pad)"
    using assms(1) by (simp add: udp_tcp_cksum_def Let_def)
  ultimately show ?thesis using cksum_even [OF even] cksum_rfc1071 [OF even] by metis
qed

text \<open>A segment whose computed checksum is zero is one that a receiver accepts.\<close>

lemma udp_tcp_cksum_zero:
  assumes "udp_tcp_cksum pkt len ip_src ip_dst protocol = Inr 0"
    and "unat len \<le> length pkt" and "length ip_src = 4" and "length ip_dst = 4"
  shows "rfc1071 (pseudo_hdr ip_src ip_dst protocol len @ take (unat len) pkt) = 0" (is "?r = 0")
proof -
  have "be16 ?r = st16 0" using udp_tcp_cksum_rfc1071 [OF assms(2-4), of protocol] assms(1) by auto
  then have "be16 ?r = be16 0" by (simp add: st16_def be16_def)
  then show ?thesis by (metis be16_def list.inject rd16_be16)
qed

section \<open>Properties\<close>

text \<open>
  C14.  The checksum that is stored in a UDP or TCP segment is the one of RFC 1071 over the
  pseudo header and the segment in network byte order, although the code adds the words in the
  order of the machine, adds the carries at the end and pads an odd segment itself.
\<close>

theorem transport_checksum_is_rfc1071:
  assumes "unat len \<le> length pkt" and "length ip_src = 4" and "length ip_dst = 4"
  shows "\<exists>w. udp_tcp_cksum pkt len ip_src ip_dst protocol = Inr w \<and>
    st16 w = be16 (rfc1071 (pseudo_hdr ip_src ip_dst protocol len @ take (unat len) pkt))"
  using udp_tcp_cksum_rfc1071 [OF assms] .

theorem transport_checksum_is_rfc1071_witness:
  "\<exists>w. udp_tcp_cksum [1, 2, 3] 3 [10, 0, 0, 1] [10, 0, 0, 2] 17 = Inr w \<and>
     st16 w = be16 (rfc1071 (pseudo_hdr [10, 0, 0, 1] [10, 0, 0, 2] 17 3 @ take (unat (3 :: u16)) [1, 2, 3]))"
  by (rule transport_checksum_is_rfc1071) simp_all

end
