(* ===== verification/Proxy.thy ===== *)
theory Proxy
  imports Socket_Util
begin

text \<open>
  The proxy (\<^verbatim>\<open>proxy.cc\<close>, \<^verbatim>\<open>addr_set.cc\<close>, \<^verbatim>\<open>addr_util.cc\<close>): packets captured from a tunnel
  interface are sent on with the original destination as their source and the target server as
  their destination.  The address functions of the C library are the parameter record
  \<open>inet\<close>.  The theorem: a rewritten UDP or TCP packet without IP options differs from the captured
  one in the addresses and checksums only, and its checksum is the one a receiver accepts.
\<close>

unbundle bit_operations_syntax

section \<open>addr\_util.cc\<close>

text \<open>
  \<open>inet_pton4\<close> and \<open>inet_pton6\<close>: \<open>None\<close> is the result 0, the text is no address.  \<open>inet_ntop4\<close> and
  \<open>inet_ntop6\<close>: \<open>None\<close> is a null pointer.
\<close>

record inet =
  inet_pton4 :: "string \<Rightarrow> bytes option"
  inet_pton6 :: "string \<Rightarrow> bytes option"
  inet_ntop4 :: "bytes \<Rightarrow> string option"
  inet_ntop6 :: "bytes \<Rightarrow> string option"

datatype sockaddr =
    Sockaddr_in u16 bytes
  | Sockaddr_in6 u16 bytes
  | Sockaddr_other

definition ipv4_addr :: "inet \<Rightarrow> string \<Rightarrow> bool" where
  "ipv4_addr N s \<longleftrightarrow> inet_pton4 N s \<noteq> None"

definition ipv6_addr :: "inet \<Rightarrow> string \<Rightarrow> bool" where
  "ipv6_addr N s \<longleftrightarrow> inet_pton6 N s \<noteq> None"

definition ip_b2s :: "inet \<Rightarrow> sockaddr \<Rightarrow> string result" where
  "ip_b2s N sa =
     (case sa of
        Sockaddr_in p a \<Rightarrow>
          (case inet_ntop4 N a of None \<Rightarrow> Inl (Exit 1 ''inet_ntop(AF_INET) fails'') | Some s \<Rightarrow> Inr s)
      | Sockaddr_in6 p a \<Rightarrow>
          (case inet_ntop6 N a of None \<Rightarrow> Inl (Exit 1 ''inet_ntop(AF_INET6) fails'') | Some s \<Rightarrow> Inr s)
      | Sockaddr_other \<Rightarrow> Inl (Exit 1 ''AF is unknown!''))"

text \<open>The address is written into \<open>sa\<close>; a null pointer for the version is \<open>None\<close>.\<close>

definition ip_s2b :: "inet \<Rightarrow> string option \<Rightarrow> string \<Rightarrow> sockaddr \<Rightarrow> sockaddr result" where
  "ip_s2b N ip_v s sa =
     (case ip_v of
        None \<Rightarrow> Inl (Exit 1 ''input for ip_s2b is NULL'')
      | Some v \<Rightarrow>
          if v = ''ipv4'' then
            (case (inet_pton4 N s, sa) of
               (Some a, Sockaddr_in p _) \<Rightarrow> Inr (Sockaddr_in p a)
             | _ \<Rightarrow> Inl (Exit 1 ''ip_s2b fails''))
          else if v = ''ipv6'' then
            (case (inet_pton6 N s, sa) of
               (Some a, Sockaddr_in6 p _) \<Rightarrow> Inr (Sockaddr_in6 p a)
             | _ \<Rightarrow> Inl (Exit 1 ''ip_s2b fails''))
          else Inl (Exit 1 ''ip version is unknow in ip_s2b''))"

definition get_in_addr :: "inet \<Rightarrow> sockaddr \<Rightarrow> string option" where
  "get_in_addr N sa =
     (case sa of
        Sockaddr_in p a \<Rightarrow> inet_ntop4 N a
      | Sockaddr_in6 p a \<Rightarrow> inet_ntop6 N a
      | Sockaddr_other \<Rightarrow> None)"

definition get_in_port :: "sockaddr \<Rightarrow> u16" where
  "get_in_port sa = (case sa of Sockaddr_in p a \<Rightarrow> p | Sockaddr_in6 p a \<Rightarrow> p | Sockaddr_other \<Rightarrow> 0)"

section \<open>addr\_set.cc\<close>

record addr_set =
  as_port :: u16
  as_v4_str :: string
  as_v6_str :: string
  as_v4_addr :: sockaddr
  as_v6_addr :: sockaddr

definition addr_set_new :: "inet \<Rightarrow> string \<Rightarrow> string \<Rightarrow> u16 \<Rightarrow> addr_set result" where
  "addr_set_new N v4s v6s p =
     (if \<not> ipv4_addr N v4s then Inl (Exit 1 ''not a valid IPv4 address!'')
      else if \<not> ipv6_addr N v6s then Inl (Exit 1 ''not a valid IPv6 address!'')
      else if p = 0 then Inl (Exit 1 ''port number must be > 0!'')
      else bindE (ip_s2b N (Some ''ipv4'') v4s (Sockaddr_in p [0, 0, 0, 0])) (\<lambda>a4.
           bindE (ip_s2b N (Some ''ipv6'') v6s (Sockaddr_in6 p (replicate 16 0))) (\<lambda>a6.
             Inr \<lparr>as_port = p, as_v4_str = v4s, as_v6_str = v6s, as_v4_addr = a4, as_v6_addr = a6\<rparr>)))"

definition addr_set_str :: "addr_set \<Rightarrow> bool \<Rightarrow> string" where
  "addr_set_str a v4 = (if v4 then as_v4_str a else as_v6_str a)"

definition addr_set_addr :: "addr_set \<Rightarrow> bool \<Rightarrow> sockaddr" where
  "addr_set_addr a v4 = (if v4 then as_v4_addr a else as_v6_addr a)"

section \<open>proxy.cc\<close>

definition BUF_LEN :: nat where "BUF_LEN = 4096"

record proxy =
  px_aut_addr :: addr_set
  px_rec_addr :: addr_set
  px_target_addr :: addr_set
  px_num_threads :: int
  px_tun_name :: string
  px_proxy_type :: string

definition DNSReplayProxy_new ::
    "inet \<Rightarrow> string \<Rightarrow> string \<Rightarrow> string \<Rightarrow> string \<Rightarrow> int \<Rightarrow> proxy result" where
  "DNSReplayProxy_new N t a r p n =
     (if t = [] then Inl (Exit 1 ''tunnel name is not valid'')
      else if p = [] then Inl (Exit 1 ''proxy type is empty.'')
      else if p \<noteq> ''recursive'' \<and> p \<noteq> ''authoritative'' then Inl (Exit 1 ''proxy type is not valid'')
      else if n < 1 then Inl (Exit 1 ''number of threads is not valid'')
      else bindE (addr_set_new N a ''::1'' 53) (\<lambda>aut.
           bindE (addr_set_new N r ''::1'' 53) (\<lambda>rec.
           bindE (if p = ''recursive'' then addr_set_new N a ''::1'' 53
                  else addr_set_new N r ''::1'' 53) (\<lambda>target.
             Inr \<lparr>px_aut_addr = aut, px_rec_addr = rec, px_target_addr = target,
                  px_num_threads = n, px_tun_name = t, px_proxy_type = p\<rparr>))))"

text \<open>Overwriting part of a packet.\<close>

definition patch :: "nat \<Rightarrow> bytes \<Rightarrow> bytes \<Rightarrow> bytes" where
  "patch i bs pkt = take i pkt @ bs @ drop (i + length bs) pkt"

definition ip_v :: "bytes \<Rightarrow> byte" where "ip_v pkt = drop_bit 4 (pkt ! 0)"
definition ip_p :: "bytes \<Rightarrow> byte" where "ip_p pkt = pkt ! 9"
definition ip_src :: "bytes \<Rightarrow> bytes" where "ip_src pkt = take 4 (drop 12 pkt)"
definition ip_dst :: "bytes \<Rightarrow> bytes" where "ip_dst pkt = take 4 (drop 16 pkt)"

definition PROTO_ICMP :: byte where "PROTO_ICMP = 1"
definition PROTO_TCP :: byte where "PROTO_TCP = 6"
definition PROTO_UDP :: byte where "PROTO_UDP = 17"

text \<open>The addresses and the IP checksum of an IPv4 packet; \<open>target\<close> is the target's address.\<close>

definition rewrite_ip :: "bytes \<Rightarrow> bytes \<Rightarrow> bytes" where
  "rewrite_ip target pkt = patch 10 [0, 0] (patch 16 target (patch 12 (ip_dst pkt) pkt))"

text \<open>
  The checksum at offset \<open>off\<close> of the packet, computed over what follows the first twenty
  bytes.
\<close>

definition set_check :: "nat \<Rightarrow> bytes \<Rightarrow> bytes result" where
  "set_check off pkt =
     (if length pkt < off + 2 then Inl (Undefined ''write past the packet'')
      else let z = patch off [0, 0] pkt
           in bindE (udp_tcp_cksum (drop 20 z) (of_nat (length z - 20)) (ip_src z) (ip_dst z) (ip_p z))
                (\<lambda>w. Inr (patch off (st16 w) z)))"

text \<open>
  \<^verbatim>\<open>process_packet_helper\<close> up to the call of \<^verbatim>\<open>sendto\<close>, then the result of sending (\<open>sent\<close> is
  what the call returns).  A packet shorter than an IP header is accessed out of bounds.
\<close>

definition rewrite_packet :: "inet \<Rightarrow> addr_set \<Rightarrow> bytes \<Rightarrow> bytes result" where
  "rewrite_packet N target pkt =
     (if length pkt < 20 then Inl (Undefined ''packet shorter than an IP header'')
      else if ip_v pkt = 6 then Inl (Exit 1 ''IPv6 is not supported!'')
      else let pkt = (if ip_v pkt = 4
                      then rewrite_ip (case inet_pton4 N (addr_set_str target True) of
                                         None \<Rightarrow> ip_dst pkt | Some a \<Rightarrow> a) pkt
                      else pkt)
           in if ip_p pkt = PROTO_ICMP then Inr pkt
              else if ip_p pkt = PROTO_TCP then set_check 36 pkt
              else if ip_p pkt = PROTO_UDP then set_check 26 pkt
              else Inr pkt)"

definition process_packet_helper ::
    "inet \<Rightarrow> addr_set \<Rightarrow> int \<Rightarrow> bytes \<Rightarrow> (bytes \<times> sockaddr) result" where
  "process_packet_helper N target sent pkt =
     bindE (rewrite_packet N target pkt) (\<lambda>pkt'.
       if sent < 0 then Inl (Exit 1 ''sendto raw'')
       else Inr (pkt', addr_set_addr target True))"

section \<open>Rewriting\<close>

lemma length_patch [simp]: "i + length bs \<le> length pkt \<Longrightarrow> length (patch i bs pkt) = length pkt"
  by (simp add: patch_def)

lemma nth_patch:
  assumes "i + length bs \<le> length pkt" and "k < length pkt"
  shows "patch i bs pkt ! k = (if i \<le> k \<and> k < i + length bs then bs ! (k - i) else pkt ! k)"
  using assms by (auto simp: patch_def nth_append min_def)

lemma drop_patch_low: "i + length bs \<le> k \<Longrightarrow> i + length bs \<le> length pkt \<Longrightarrow> drop k (patch i bs pkt) = drop k pkt"
  by (simp add: patch_def min_def)

lemma patch_drop:
  "k \<le> i \<Longrightarrow> i + length bs \<le> length pkt \<Longrightarrow> drop k (patch i bs pkt) = patch (i - k) bs (drop k pkt)"
  by (simp add: patch_def drop_take min_def ac_simps)

lemma take_patch_high: "k \<le> i \<Longrightarrow> i \<le> length pkt \<Longrightarrow> take k (patch i bs pkt) = take k pkt"
  by (simp add: patch_def min_def)

lemma rewrite_ip_fields:
  assumes "20 \<le> length pkt" and "length a = 4"
  shows "length (rewrite_ip a pkt) = length pkt" "ip_src (rewrite_ip a pkt) = ip_dst pkt"
    "ip_dst (rewrite_ip a pkt) = a" "ip_p (rewrite_ip a pkt) = ip_p pkt"
    "k < length pkt \<Longrightarrow> k < 10 \<or> 20 \<le> k \<Longrightarrow> rewrite_ip a pkt ! k = pkt ! k"
proof -
  have d: "length (ip_dst pkt) = 4" using assms(1) by (simp add: ip_dst_def)
  let ?p = "patch 16 a (patch 12 (ip_dst pkt) pkt)"
  have l: "length (patch 12 (ip_dst pkt) pkt) = length pkt" "length ?p = length pkt"
    using assms d by simp_all
  show "length (rewrite_ip a pkt) = length pkt" using assms l by (simp add: rewrite_ip_def)
  have dr: "drop 12 (rewrite_ip a pkt) = drop 12 ?p"
    using assms l unfolding rewrite_ip_def by (intro drop_patch_low) simp_all
  have p12: "drop 12 (patch 12 (ip_dst pkt) pkt) = ip_dst pkt @ drop 16 pkt"
    using assms d by (simp add: patch_def min_def)
  have "drop 12 ?p = patch 4 a (drop 12 (patch 12 (ip_dst pkt) pkt))"
    using patch_drop [of 12 16 a "patch 12 (ip_dst pkt) pkt"] assms l by simp
  then have "drop 12 ?p = ip_dst pkt @ a @ drop 20 pkt"
    using p12 assms d by (simp add: patch_def)
  with dr have dd: "drop 12 (rewrite_ip a pkt) = ip_dst pkt @ a @ drop 20 pkt" by simp
  then show "ip_src (rewrite_ip a pkt) = ip_dst pkt" using d by (simp add: ip_src_def)
  have "drop 16 (rewrite_ip a pkt) = drop 4 (drop 12 (rewrite_ip a pkt))" by simp
  then have "drop 16 (rewrite_ip a pkt) = a @ drop 20 pkt" using dd d by simp
  then show "ip_dst (rewrite_ip a pkt) = a" using assms(2) by (simp add: ip_dst_def)
  show n: "rewrite_ip a pkt ! k = pkt ! k" if "k < length pkt" "k < 10 \<or> 20 \<le> k" for k
    using that assms d l by (auto simp: rewrite_ip_def nth_patch)
  show "ip_p (rewrite_ip a pkt) = ip_p pkt" using n [of 9] assms(1) by (simp add: ip_p_def)
qed

lemma patch_split:
  assumes "i + length bs \<le> length pkt" and "j \<le> i"
  shows "drop j (patch i bs pkt) = take (i - j) (drop j pkt) @ bs @ drop (i + length bs) pkt"
  using assms by (simp add: patch_def drop_take)

lemma set_check_valid:
  assumes "set_check off pkt = Inr pkt'" and "20 \<le> off" and "even off" and "length pkt < 2 ^ 16"
  shows "length pkt' = length pkt" "ip_src pkt' = ip_src pkt" "ip_dst pkt' = ip_dst pkt"
    "ip_p pkt' = ip_p pkt"
    "k < length pkt \<Longrightarrow> k \<noteq> off \<Longrightarrow> k \<noteq> off + 1 \<Longrightarrow> pkt' ! k = pkt ! k"
    "udp_tcp_cksum (drop 20 pkt') (of_nat (length pkt - 20)) (ip_src pkt') (ip_dst pkt') (ip_p pkt') = Inr 0"
proof -
  let ?z = "patch off [0, 0] pkt" and ?n = "of_nat (length pkt - 20) :: u16"
  from assms(1) obtain w where len: "off + 2 \<le> length pkt"
    and w: "udp_tcp_cksum (drop 20 ?z) (of_nat (length ?z - 20)) (ip_src ?z) (ip_dst ?z) (ip_p ?z) = Inr w"
    and p': "pkt' = patch off (st16 w) ?z"
    by (auto simp: set_check_def Let_def fault_simps split: if_split_asm)
  have lz: "length ?z = length pkt" using len by simp
  show l': "length pkt' = length pkt" using len lz by (simp add: p')
  have t: "take 20 pkt' = take 20 pkt" "take 20 ?z = take 20 pkt"
    using len assms(2) lz by (simp_all add: p' take_patch_high)
  have same: "ip_src x = ip_src y \<and> ip_dst x = ip_dst y \<and> ip_p x = ip_p y" if "take 20 x = take 20 y" for x y
  proof -
    have "take 4 (drop i x) = take 4 (drop i y)" if "i \<le> 16" for i
    proof -
      have "take 4 (drop i z) = take 4 (drop i (take 20 z))" for z :: bytes
        using that by (simp add: drop_take min_def)
      then show ?thesis using \<open>take 20 x = take 20 y\<close> by metis
    qed
    moreover have "x ! 9 = y ! 9" using that nth_take [of 9 20 x] nth_take [of 9 20 y] by simp
    ultimately show ?thesis by (simp add: ip_src_def ip_dst_def ip_p_def)
  qed
  show src: "ip_src pkt' = ip_src pkt" and dst: "ip_dst pkt' = ip_dst pkt" and pr: "ip_p pkt' = ip_p pkt"
    using same [OF t(1)] by simp_all
  have src': "ip_src ?z = ip_src pkt" and dst': "ip_dst ?z = ip_dst pkt" and pr': "ip_p ?z = ip_p pkt"
    using same [OF t(2)] by simp_all
  show "pkt' ! k = pkt ! k" if "k < length pkt" "k \<noteq> off" "k \<noteq> off + 1"
    using that len lz by (auto simp: p' nth_patch)
  have n: "unat ?n = length pkt - 20" using assms(4) by (simp add: unat_of_nat)
  let ?pre = "take (off - 20) (drop 20 pkt)" and ?post = "drop (off + 2) pkt"
  let ?pad = "if (length pkt - 20) mod 2 \<noteq> 0 then [0] else [] :: bytes"
  let ?h = "pseudo_hdr (ip_src pkt) (ip_dst pkt) (ip_p pkt) ?n"
  have dz: "drop 20 ?z = ?pre @ [0, 0] @ ?post"
    using patch_split [of off "[0, 0]" pkt 20] len assms(2) by simp
  have dp: "drop 20 pkt' = ?pre @ st16 w @ ?post"
    using patch_split [of off "st16 w" ?z 20] len lz assms(2) dz
    by (simp add: p' drop_patch_low)
  have el: "length (ip_src pkt) = 4" "length (ip_dst pkt) = 4"
    using len assms(2) by (simp_all add: ip_src_def ip_dst_def)
  obtain m where m: "off = 20 + 2 * m"
  proof -
    from assms(3) obtain q where "off = 2 * q" by (rule evenE)
    with assms(2) have "off = 20 + 2 * (q - 10)" by simp
    then show thesis by (rule that)
  qed
  obtain r where r: "length pkt = off + 2 + r" using len le_iff_add by blast
  have par: "even (length pkt - 20) \<longleftrightarrow> even r" by (simp add: r m)
  have ev1: "even (length (?h @ ?pre))" using el by (simp add: pseudo_hdr_def be16_def r m)
  have ev2: "even (length (?post @ ?pad))"
    using par by (simp add: r mod_2_eq_odd)
  have u: "udp_tcp_cksum (drop 20 x) (of_nat (length x - 20)) a b p =
      cksum (pseudo_hdr a b p ?n @ drop 20 x @ ?pad)" if "length x = length pkt" for x a b p
  proof -
    have le: "length (drop 20 x) = unat ?n" using that n by simp
    show ?thesis unfolding udp_tcp_cksum_def that using le by (simp only: n Let_def take_all less_irrefl if_False order_refl)
  qed
  have "cksum ((?h @ ?pre) @ [0, 0] @ (?post @ ?pad)) = Inr w"
    using trans [OF u [OF lz, symmetric] w] unfolding src' dst' pr' dz by (simp only: append_assoc)
  from cksum_stored [OF ev1 ev2 this]
  have "cksum (?h @ drop 20 pkt' @ ?pad) = Inr 0" unfolding dp by (simp only: append_assoc)
  then show "udp_tcp_cksum (drop 20 pkt') ?n (ip_src pkt') (ip_dst pkt') (ip_p pkt') = Inr 0"
    using u [OF l'] unfolding l' src dst pr by simp
qed

text \<open>The checksum is always computed over an even number of bytes.\<close>

lemma even_pseudo_pkt:
  assumes "length a = 4" and "length b = 4"
  shows "even (length (pseudo_hdr a b p n @ x @ (if length x mod 2 \<noteq> 0 then [0] else [])))"
  using assms by (simp add: pseudo_hdr_def be16_def mod_2_eq_odd)

lemma set_check_returns:
  assumes "off + 2 \<le> length pkt" and "20 \<le> off" and "length pkt < 2 ^ 16"
  shows "\<exists>pkt'. set_check off pkt = Inr pkt'"
proof -
  let ?z = "patch off [0, 0] pkt"
  have lz: "length ?z = length pkt" using assms(1) by simp
  have el: "length (ip_src ?z) = 4" "length (ip_dst ?z) = 4"
    using lz assms(1,2) by (simp_all add: ip_src_def ip_dst_def)
  have n: "unat (of_nat (length ?z - 20) :: u16) = length (drop 20 ?z)"
    using assms(3) lz by (simp add: unat_of_nat)
  have "\<exists>w. udp_tcp_cksum (drop 20 ?z) (of_nat (length ?z - 20)) (ip_src ?z) (ip_dst ?z) (ip_p ?z) = Inr w"
    unfolding udp_tcp_cksum_def n Let_def take_all [OF order_refl]
    using cksum_even [OF even_pseudo_pkt [OF el]] by (simp only: less_irrefl if_False) blast
  then show ?thesis using assms(1) by (auto simp: set_check_def Let_def fault_simps)
qed

section \<open>What the proxy promises\<close>

text \<open>
  The fields of an IPv4 packet as RFC 791, 768 and 793 define them, independent of the offsets of the
  code: the header length in words in the low half of the first byte, the total length, the fragment
  flag and offset, and the transport segment that begins after the header, options included.
\<close>

definition header_len :: "bytes \<Rightarrow> nat" where
  "header_len pkt = 4 * unat (pkt ! 0 AND 15)"

definition segment :: "bytes \<Rightarrow> bytes" where
  "segment pkt = drop (header_len pkt) pkt"

text \<open>A whole IPv4 packet, no fragment, with a complete UDP or TCP header and consistent lengths.\<close>

definition whole_packet :: "bytes \<Rightarrow> bool" where
  "whole_packet pkt \<longleftrightarrow>
     20 \<le> length pkt \<and> ip_v pkt = 4 \<and> 20 \<le> header_len pkt \<and>
     unat (rd16 (pkt ! 2) (pkt ! 3)) = length pkt \<and> pkt ! 6 AND 0x3F = 0 \<and> pkt ! 7 = 0 \<and>
     (ip_p pkt = PROTO_UDP \<and> 8 \<le> length (segment pkt) \<and>
        unat (rd16 (segment pkt ! 4) (segment pkt ! 5)) = length (segment pkt) \<or>
      ip_p pkt = PROTO_TCP \<and> 20 \<le> length (segment pkt))"

lemma unat_u16_lt: "unat (w :: u16) < 65536"
proof -
  have "unat w < 2 ^ LENGTH(16)" by (rule unsigned_less)
  then show ?thesis by simp
qed

lemma whole_packet_short: "whole_packet pkt \<Longrightarrow> length pkt < 2 ^ 16"
  using unat_u16_lt [of "rd16 (pkt ! 2) (pkt ! 3)"] by (simp add: whole_packet_def)

text \<open>The offset of the transport checksum, and the test of a receiver.\<close>

definition check_offset :: "bytes \<Rightarrow> nat" where
  "check_offset pkt = header_len pkt + (if ip_p pkt = PROTO_UDP then 6 else 16)"

definition checksum_ok :: "bytes \<Rightarrow> bool" where
  "checksum_ok pkt \<longleftrightarrow>
     rfc1071 (pseudo_hdr (ip_src pkt) (ip_dst pkt) (ip_p pkt) (of_nat (length (segment pkt))) @ segment pkt) = 0"

text \<open>
  The packet \<open>pkt'\<close> is \<open>pkt\<close> sent on to the address \<open>a\<close> as if it came from its old destination; the IP
  checksum is left zero for the kernel.
\<close>

definition redirected :: "bytes \<Rightarrow> bytes \<Rightarrow> bytes \<Rightarrow> bool" where
  "redirected a pkt pkt' \<longleftrightarrow>
    length pkt' = length pkt \<and> ip_src pkt' = ip_dst pkt \<and> ip_dst pkt' = a \<and>
    pkt' ! 10 = 0 \<and> pkt' ! 11 = 0 \<and>
    (\<forall>k < length pkt. (k < 10 \<or> 20 \<le> k) \<and> k \<noteq> check_offset pkt \<and> k \<noteq> check_offset pkt + 1 \<longrightarrow>
       pkt' ! k = pkt ! k) \<and>
    checksum_ok pkt'"

text \<open>A packet that was redirected is again a whole packet.\<close>

lemma redirected_whole:
  assumes "whole_packet pkt" and "redirected a pkt pkt'"
  shows "whole_packet pkt'" "header_len pkt' = header_len pkt" "ip_p pkt' = ip_p pkt"
proof -
  let ?h = "header_len pkt"
  have len: "20 \<le> length pkt" "length pkt' = length pkt" "20 \<le> ?h"
    using assms by (simp_all add: whole_packet_def redirected_def)
  have same: "pkt' ! k = pkt ! k" if "k < length pkt" "k < 10 \<or> 20 \<le> k" "k \<noteq> check_offset pkt" "k \<noteq> check_offset pkt + 1" for k
    using that assms(2) by (simp add: redirected_def)
  have c: "?h + 6 \<le> check_offset pkt" by (simp add: check_offset_def)
  have low: "pkt' ! k = pkt ! k" if "k < 10" for k using same [of k] that len c by simp
  show h: "header_len pkt' = ?h" and p: "ip_p pkt' = ip_p pkt"
    by (simp_all add: header_len_def ip_p_def low)
  have seg: "length (segment pkt') = length (segment pkt)" by (simp add: segment_def h len)
  have "segment pkt' ! k = segment pkt ! k" if "k < 6" "8 \<le> length (segment pkt)" for k
    using same [of "?h + k"] that c len h by (simp add: segment_def)
  then show "whole_packet pkt'"
    using assms(1) len seg h p by (auto simp: whole_packet_def ip_v_def low)
qed

lemma rewrite_redirects:
  assumes "whole_packet pkt" and "header_len pkt = 20"
    and "inet_pton4 N (as_v4_str target) = Some a" and "length a = 4"
  shows "\<exists>pkt'. rewrite_packet N target pkt = Inr pkt' \<and> redirected a pkt pkt'"
proof -
  let ?r = "rewrite_ip a pkt" and ?c = "check_offset pkt"
  have c: "20 \<le> ?c" "even ?c" by (simp_all add: check_offset_def assms(2))
  have "length pkt < 2 ^ 16" by (rule whole_packet_short [OF assms(1)])
  moreover have "?c + 2 \<le> length pkt"
    using assms(1,2) by (auto simp: whole_packet_def check_offset_def segment_def)
  ultimately have l: "20 \<le> length pkt" "?c + 2 \<le> length pkt" "length pkt < 2 ^ 16"
    using assms(1) by (simp_all add: whole_packet_def)
  note f = rewrite_ip_fields [OF l(1) assms(4)]
  have lr: "length ?r < 2 ^ 16" "?c + 2 \<le> length ?r" using f(1) l by simp_all
  obtain pkt' where sc: "set_check ?c ?r = Inr pkt'" using set_check_returns [OF lr(2) c(1) lr(1)] by blast
  have rw: "rewrite_packet N target pkt = Inr pkt'"
    using assms(1-3) l f(4) sc
    by (auto simp: rewrite_packet_def Let_def addr_set_str_def whole_packet_def check_offset_def
        PROTO_UDP_def PROTO_TCP_def PROTO_ICMP_def split: if_splits)
  note v = set_check_valid [OF sc c lr(1)]
  have z: "?r ! 10 = 0" "?r ! 11 = 0"
    using l assms(4) by (simp_all add: rewrite_ip_def nth_patch ip_dst_def)
  have zero: "pkt' ! 10 = 0" "pkt' ! 11 = 0"
    using v(5) [of 10] v(5) [of 11] z f(1) l c(1) by simp_all
  have same: "\<forall>k < length pkt. (k < 10 \<or> 20 \<le> k) \<and> k \<noteq> ?c \<and> k \<noteq> ?c + 1 \<longrightarrow> pkt' ! k = pkt ! k"
    using v(5) f(1,5) by simp
  have "0 < length pkt" using l(1) by linarith
  then have "pkt' ! 0 = pkt ! 0" using same [rule_format, of 0] c(1) by simp
  then have "segment pkt' = drop 20 pkt'" using assms(2) by (simp add: segment_def header_len_def)
  moreover have "unat (of_nat (length pkt - 20) :: u16) = length pkt - 20" using l(3) by (simp add: unat_of_nat)
  moreover have "length (ip_src pkt') = 4" "length (ip_dst pkt') = 4"
    using v(1) f(1) l(1) by (simp_all add: ip_src_def ip_dst_def)
  ultimately have "checksum_ok pkt'"
    using udp_tcp_cksum_zero [OF v(6)] v(1) f(1) by (simp add: checksum_ok_def)
  then show ?thesis using v(1-3) f(1-3) rw zero same by (simp add: redirected_def)
qed

text \<open>
  C13.  Every captured packet that is a whole IPv4 packet without IP options, not a fragment, and
  holds a UDP or TCP segment with a complete header is sent on as a valid packet of the same length:
  its source is the captured packet's destination, its destination the target server, every byte
  outside the addresses and the two checksums is the captured one, the IP checksum is left zero for
  the kernel, and the transport checksum is one a receiver accepts (RFC 1071 over the pseudo header and
  the segment that begins after the packet's header).
\<close>

theorem rewritten_packet_valid:
  assumes "whole_packet pkt" and "header_len pkt = 20"
    and "inet_pton4 N (as_v4_str target) = Some a" and "length a = 4"
  shows "\<exists>pkt'. rewrite_packet N target pkt = Inr pkt' \<and> redirected a pkt pkt' \<and> whole_packet pkt'"
  using rewrite_redirects [OF assms] redirected_whole [OF assms(1)] by blast

definition demo_inet :: inet where
  "demo_inet = \<lparr>inet_pton4 = (\<lambda>s. if s = ''10.1.1.3'' then Some [10, 1, 1, 3] else None),
     inet_pton6 = (\<lambda>s. if s = ''::1'' then Some (replicate 15 0 @ [1]) else None),
     inet_ntop4 = (\<lambda>a. None), inet_ntop6 = (\<lambda>a. None)\<rparr>"

definition demo_target :: addr_set where
  "demo_target = \<lparr>as_port = 53, as_v4_str = ''10.1.1.3'', as_v6_str = ''::1'',
     as_v4_addr = Sockaddr_in 53 [10, 1, 1, 3], as_v6_addr = Sockaddr_in6 53 (replicate 15 0 @ [1])\<rparr>"

definition demo_packet :: bytes where
  "demo_packet = [69, 0, 0, 31, 0, 1, 0, 0, 64, 17, 9, 9, 10, 1, 1, 2, 198, 41, 0, 4,
     200, 0, 0, 53, 0, 11, 7, 7, 1, 2, 3]"

lemma demo_packet_facts: "whole_packet demo_packet" "header_len demo_packet = 20" "length demo_packet = 31"
  by code_simp+

theorem rewritten_packet_valid_witness:
  "\<exists>pkt'. rewrite_packet demo_inet demo_target demo_packet = Inr pkt' \<and>
     redirected [10, 1, 1, 3] demo_packet pkt' \<and> whole_packet pkt' \<and>
     ip_src pkt' = [198, 41, 0, 4] \<and> pkt' ! 30 = 3"
proof -
  have h: "inet_pton4 demo_inet (as_v4_str demo_target) = Some [10, 1, 1, 3]" "length [10, 1, 1, 3 :: byte] = 4"
    "ip_dst demo_packet = [198, 41, 0, 4]" "demo_packet ! 30 = 3" "check_offset demo_packet = 26"
    by code_simp+
  from rewritten_packet_valid [OF demo_packet_facts(1,2) h(1,2)] obtain p where
    p: "rewrite_packet demo_inet demo_target demo_packet = Inr p" "redirected [10, 1, 1, 3] demo_packet p" "whole_packet p"
    by blast
  then have "ip_src p = [198, 41, 0, 4]" "p ! 30 = 3"
    using h demo_packet_facts(3) by (simp_all add: redirected_def)
  with p show ?thesis by blast
qed

text \<open>
  With IP options the code still takes the transport header to begin at offset 20.  For a UDP packet
  the checksum of the segment stays what it was, although the addresses it covers have changed; with
  one word of options the new checksum overwrites the destination port.
\<close>

lemma options_keep_stale_checksum:
  assumes "whole_packet pkt" and "ip_p pkt = PROTO_UDP" and "20 < header_len pkt"
    and "inet_pton4 N (as_v4_str target) = Some a" and "length a = 4"
  shows "\<exists>pkt'. rewrite_packet N target pkt = Inr pkt' \<and>
    pkt' ! check_offset pkt = pkt ! check_offset pkt \<and> pkt' ! (check_offset pkt + 1) = pkt ! (check_offset pkt + 1)"
proof -
  let ?r = "rewrite_ip a pkt"
  have h: "24 \<le> header_len pkt" using assms(3) by (simp add: header_len_def)
  have "length pkt < 2 ^ 16" by (rule whole_packet_short [OF assms(1)])
  moreover have "header_len pkt + 8 \<le> length pkt"
    using assms(1,2) by (auto simp: whole_packet_def segment_def PROTO_UDP_def PROTO_TCP_def)
  ultimately have l: "20 \<le> length pkt" "26 + 2 \<le> length pkt" "length pkt < 2 ^ 16" "check_offset pkt + 2 \<le> length pkt"
    "30 \<le> check_offset pkt"
    using h assms(2) by (simp_all add: check_offset_def)
  note f = rewrite_ip_fields [OF l(1) assms(5)]
  have lr: "length ?r < 2 ^ 16" "26 + 2 \<le> length ?r" using f(1) l by simp_all
  obtain pkt' where sc: "set_check 26 ?r = Inr pkt'" using set_check_returns [OF lr(2) _ lr(1)] by auto
  have "rewrite_packet N target pkt = Inr pkt'"
    using assms(1,2,4) l f(4) sc
    by (simp add: rewrite_packet_def Let_def addr_set_str_def whole_packet_def PROTO_UDP_def PROTO_TCP_def
        PROTO_ICMP_def)
  moreover have "pkt' ! k = pkt ! k" if "k < length pkt" "30 \<le> k" for k
    using set_check_valid(5) [OF sc _ _ lr(1), of k] f(1,5) that by simp
  ultimately show ?thesis using l by auto
qed

definition options_packet :: bytes where
  "options_packet = [70, 0, 0, 36, 0, 1, 0, 0, 64, 17, 9, 9, 10, 1, 1, 2, 198, 41, 0, 4, 1, 1, 1, 0,
     200, 0, 0, 53, 0, 12, 7, 7, 1, 2, 3, 4]"

lemma options_overwrite_port:
  "whole_packet options_packet \<and> header_len options_packet = 24 \<and>
   (\<exists>pkt'. rewrite_packet demo_inet demo_target options_packet = Inr pkt' \<and>
      take 2 (drop 26 options_packet) = [0, 53] \<and> take 2 (drop 26 pkt') \<noteq> [0, 53])"
proof -
  let ?r = "rewrite_ip [10, 1, 1, 3] options_packet"
  have o: "whole_packet options_packet" "header_len options_packet = 24"
    "take 2 (drop 26 options_packet) = [0, 53]" "length options_packet = 36"
    "ip_v options_packet = 4" "inet_pton4 demo_inet (as_v4_str demo_target) = Some [10, 1, 1, 3]"
    by code_simp+
  have q: "?r = [70, 0, 0, 36, 0, 1, 0, 0, 64, 17, 0, 0, 198, 41, 0, 4, 10, 1, 1, 3, 1, 1, 1, 0,
      200, 0, 0, 53, 0, 12, 7, 7, 1, 2, 3, 4]"
    by code_simp
  have "unat (rfc1071_sum (pseudo_hdr (ip_src ?r) (ip_dst ?r) (ip_p ?r) 16 @ drop 20 ?r)) \<noteq> 65535"
    unfolding q by (simp add: ip_src_def ip_dst_def ip_p_def pseudo_hdr_def be16_def rd16_def oc_add_def)
  moreover have "length ?r = 36" "ip_p ?r = 17" "take 2 (drop 26 ?r) = [0, 53]"
    "length (ip_src ?r) = 4" "length (ip_dst ?r) = 4"
    unfolding q by code_simp+
  ultimately have r: "length ?r = 36" "ip_p ?r = 17" "take 2 (drop 26 ?r) = [0, 53]"
    "unat (rfc1071_sum (pseudo_hdr (ip_src ?r) (ip_dst ?r) (ip_p ?r) 16 @ drop 20 ?r)) \<noteq> 65535"
    "length (ip_src ?r) = 4" "length (ip_dst ?r) = 4"
    by blast+
  obtain p where sc: "set_check 26 ?r = Inr p" using set_check_returns [of 26 ?r] r(1) by auto
  have rw: "rewrite_packet demo_inet demo_target options_packet = Inr p"
    using o r(2) sc by (simp add: rewrite_packet_def Let_def addr_set_str_def PROTO_UDP_def PROTO_TCP_def PROTO_ICMP_def)
  note v = set_check_valid [OF sc]
  have "take 2 (drop 26 p) \<noteq> [0, 53]"
  proof
    assume a: "take 2 (drop 26 p) = [0, 53]"
    have b: "p ! k = ?r ! k" if "k < 36" for k
    proof (cases "k = 26 \<or> k = 27")
      case True
      have "take 2 (drop 26 p) ! (k - 26) = take 2 (drop 26 ?r) ! (k - 26)" using a r(3) by simp
      with True v(1) r(1) show ?thesis by auto
    next
      case False
      with that v(5) r(1) show ?thesis by simp
    qed
    have "p = ?r" using v(1) r(1) b by (intro nth_equalityI) simp_all
    with v(6) r(1) have "udp_tcp_cksum (drop 20 ?r) 16 (ip_src ?r) (ip_dst ?r) (ip_p ?r) = Inr 0" by simp
    from udp_tcp_cksum_zero [OF this _ r(5,6)] r(1)
    have "unat (rfc1071 (pseudo_hdr (ip_src ?r) (ip_dst ?r) (ip_p ?r) 16 @ drop 20 ?r)) = 0" by simp
    with r(4) show False using unat_u16_lt [of "rfc1071_sum (pseudo_hdr (ip_src ?r) (ip_dst ?r) (ip_p ?r) 16 @ drop 20 ?r)"]
      by (simp add: rfc1071_def unat_not16)
  qed
  then show ?thesis using o(1-3) rw by auto
qed

end
