(* ===== verification/Proxy_Threads.thy ===== *)
theory Proxy_Threads
  imports Proxy "HOL-Library.Multiset"
begin

text \<open>
  The threads of the proxy (\<^verbatim>\<open>safe_queue.cc\<close>; \<^verbatim>\<open>read_packet\<close>, \<^verbatim>\<open>process_packet\<close> and \<^verbatim>\<open>start\<close> of
  \<^verbatim>\<open>proxy.cc\<close>): one thread reads packets from the tunnel and pushes them on a queue, \<open>n\<close> threads
  pop and send them.  A step is one atomic action of one thread: a critical section of the
  queue's mutex (which ends with \<^verbatim>\<open>unlock\<close> or with \<^verbatim>\<open>cv.wait\<close>, which releases it), a
  \<^verbatim>\<open>notify_one\<close>, a read or a send.  Which waiter a notification wakes is part of the action, and
  waiters may wake spuriously.

  The theorems: packets leave the queue in the order they entered it and none is lost or sent
  twice; no wake-up is lost, so once reading pauses every schedule ends and has sent all
  packets.  With a bounded queue, which the class offers and the proxy does not use, all
  threads can end up waiting.
\<close>

section \<open>Threads and their queue\<close>

text \<open>Where the reading thread is, and where a sending thread is.\<close>

datatype reader_pc = Reading | Push_lock bytes | Push_wait bytes | Push_notify

datatype worker_pc = Pop_lock | Pop_wait | Pop_notify bytes | Processing bytes

text \<open>
  \<open>sq_read\<close> and \<open>sq_popped\<close> are the history of the packets read and popped, \<open>sq_sent\<close> the packets
  handed to the raw sockets, each with the address given to \<^verbatim>\<open>sendto\<close>; \<open>sq_ended\<close> is set when a thread ends the process.
\<close>

record threads =
  sq_max_len :: u32
  sq_q :: "bytes list"
  sq_reader :: reader_pc
  sq_workers :: "worker_pc list"
  sq_read :: "bytes list"
  sq_popped :: "bytes list"
  sq_sent :: "(bytes \<times> sockaddr) list"
  sq_ended :: "fault option"

definition safe_queue_new :: "int \<Rightarrow> u32" where
  "safe_queue_new m = of_int m"

definition proxy_start :: "u32 \<Rightarrow> proxy \<Rightarrow> threads" where
  "proxy_start m p = \<lparr>sq_max_len = m, sq_q = [], sq_reader = Reading,
     sq_workers = replicate (nat (px_num_threads p)) Pop_lock,
     sq_read = [], sq_popped = [], sq_sent = [], sq_ended = None\<rparr>"

text \<open>A thread that waits on the condition variable.\<close>

datatype waiter = Nobody | The_reader | A_worker nat

definition waiting :: "threads \<Rightarrow> bool" where
  "waiting s \<longleftrightarrow> (case sq_reader s of Push_wait x \<Rightarrow> True | _ \<Rightarrow> False) \<or> Pop_wait \<in> set (sq_workers s)"

text \<open>\<^verbatim>\<open>cv.notify_one()\<close> with the waiter it wakes; without waiters it has no effect.\<close>

definition notify_one :: "waiter \<Rightarrow> threads \<Rightarrow> threads option" where
  "notify_one w s =
     (case w of
        Nobody \<Rightarrow> if waiting s then None else Some s
      | The_reader \<Rightarrow> (case sq_reader s of Push_wait x \<Rightarrow> Some (s\<lparr>sq_reader := Push_lock x\<rparr>) | _ \<Rightarrow> None)
      | A_worker j \<Rightarrow>
          if j < length (sq_workers s) \<and> sq_workers s ! j = Pop_wait
          then Some (s\<lparr>sq_workers := (sq_workers s)[j := Pop_lock]\<rparr>) else None)"

text \<open>The critical sections of \<^verbatim>\<open>push\<close> and \<^verbatim>\<open>pop\<close>: the loop test, then the operation or the wait.\<close>

definition push_locked :: "bytes \<Rightarrow> threads \<Rightarrow> threads" where
  "push_locked x s =
     (if unat (sq_max_len s) \<le> length (sq_q s) then s\<lparr>sq_reader := Push_wait x\<rparr>
      else s\<lparr>sq_q := sq_q s @ [x], sq_reader := Push_notify\<rparr>)"

definition pop_locked :: "nat \<Rightarrow> threads \<Rightarrow> threads" where
  "pop_locked i s =
     (case sq_q s of
        [] \<Rightarrow> s\<lparr>sq_workers := (sq_workers s)[i := Pop_wait]\<rparr>
      | x # q \<Rightarrow> s\<lparr>sq_q := q, sq_popped := sq_popped s @ [x],
                   sq_workers := (sq_workers s)[i := Pop_notify x]\<rparr>)"

section \<open>Steps\<close>

text \<open>
  \<open>Read\<close>: the result of reading the tunnel, \<open>None\<close> for a negative length; the buffer holds
  \<open>BUF_LEN\<close> bytes.  \<open>Sent i r\<close>: thread \<open>i\<close> sends its packet and the system call returns \<open>r\<close>.
\<close>

datatype act =
    Read "bytes option"
  | Push_enter
  | Push_done waiter
  | Pop_enter nat
  | Pop_done nat waiter
  | Sent nat int
  | Spurious waiter

definition read_packet :: "bytes option \<Rightarrow> threads \<Rightarrow> threads option" where
  "read_packet r s =
     (if sq_reader s \<noteq> Reading then None
      else case r of
        None \<Rightarrow> Some (s\<lparr>sq_ended := Some (Exit 1 ''reading tunnel, abort!'')\<rparr>)
      | Some x \<Rightarrow> if length x \<le> BUF_LEN
                  then Some (s\<lparr>sq_read := sq_read s @ [x], sq_reader := Push_lock x\<rparr>) else None)"

definition push_enter :: "threads \<Rightarrow> threads option" where
  "push_enter s = (case sq_reader s of Push_lock x \<Rightarrow> Some (push_locked x s) | _ \<Rightarrow> None)"

definition push_done :: "waiter \<Rightarrow> threads \<Rightarrow> threads option" where
  "push_done w s = (if sq_reader s = Push_notify then notify_one w (s\<lparr>sq_reader := Reading\<rparr>) else None)"

definition pop_enter :: "nat \<Rightarrow> threads \<Rightarrow> threads option" where
  "pop_enter i s =
     (if i < length (sq_workers s) \<and> sq_workers s ! i = Pop_lock then Some (pop_locked i s) else None)"

definition pop_done :: "nat \<Rightarrow> waiter \<Rightarrow> threads \<Rightarrow> threads option" where
  "pop_done i w s =
     (if i < length (sq_workers s)
      then (case sq_workers s ! i of
              Pop_notify x \<Rightarrow> notify_one w (s\<lparr>sq_workers := (sq_workers s)[i := Processing x]\<rparr>)
            | _ \<Rightarrow> None)
      else None)"

definition process_packet :: "inet \<Rightarrow> addr_set \<Rightarrow> nat \<Rightarrow> int \<Rightarrow> threads \<Rightarrow> threads option" where
  "process_packet N target i r s =
     (if i < length (sq_workers s)
      then (case sq_workers s ! i of
              Processing x \<Rightarrow>
                Some (case process_packet_helper N target r x of
                        Inl e \<Rightarrow> s\<lparr>sq_ended := Some e\<rparr>
                      | Inr p \<Rightarrow> s\<lparr>sq_sent := sq_sent s @ [p],
                                   sq_workers := (sq_workers s)[i := Pop_lock]\<rparr>)
            | _ \<Rightarrow> None)
      else None)"

definition px_step :: "inet \<Rightarrow> addr_set \<Rightarrow> act \<Rightarrow> threads \<Rightarrow> threads option" where
  "px_step N target a s =
     (if sq_ended s \<noteq> None then None
      else case a of
        Read r \<Rightarrow> read_packet r s
      | Push_enter \<Rightarrow> push_enter s
      | Push_done w \<Rightarrow> push_done w s
      | Pop_enter i \<Rightarrow> pop_enter i s
      | Pop_done i w \<Rightarrow> pop_done i w s
      | Sent i r \<Rightarrow> process_packet N target i r s
      | Spurious w \<Rightarrow> if w = Nobody then None else notify_one w s)"

fun px_run :: "inet \<Rightarrow> addr_set \<Rightarrow> act list \<Rightarrow> threads \<Rightarrow> threads option" where
  "px_run N target [] s = Some s"
| "px_run N target (a # as) s = Option.bind (px_step N target a s) (px_run N target as)"

inductive px_reach :: "inet \<Rightarrow> addr_set \<Rightarrow> threads \<Rightarrow> threads \<Rightarrow> bool"
  for N target s\<^sub>0 where
  px_init: "px_reach N target s\<^sub>0 s\<^sub>0"
| px_next: "px_reach N target s\<^sub>0 s \<Longrightarrow> px_step N target a s = Some s' \<Longrightarrow> px_reach N target s\<^sub>0 s'"

text \<open>
  What a successful send hands to the raw socket: the rewritten packet and the address of the target.
\<close>

abbreviation outgoing :: "inet \<Rightarrow> addr_set \<Rightarrow> bytes \<Rightarrow> (bytes \<times> sockaddr) result" where
  "outgoing N target \<equiv> process_packet_helper N target 0"

lemma process_packet_helper_outgoing:
  "process_packet_helper N target r x = Inr p \<Longrightarrow> outgoing N target x = Inr p"
  by (auto simp: process_packet_helper_def fault_simps split: if_split_asm sum.split_asm)

text \<open>The effect of a step, by the branch the thread takes.\<close>

lemma px_step_cases [consumes 1, case_names read fail push full pushed pop empty popped send crash spurious]:
  assumes "px_step N target a s = Some s'"
  obtains
    (read) x where "a = Read (Some x)" "sq_reader s = Reading" "length x \<le> BUF_LEN"
      "s' = s\<lparr>sq_read := sq_read s @ [x], sq_reader := Push_lock x\<rparr>"
  | (fail) e where "a = Read None" "sq_reader s = Reading" "s' = s\<lparr>sq_ended := Some e\<rparr>"
  | (push) x where "a = Push_enter" "sq_reader s = Push_lock x" "length (sq_q s) < unat (sq_max_len s)"
      "s' = s\<lparr>sq_q := sq_q s @ [x], sq_reader := Push_notify\<rparr>"
  | (full) x where "a = Push_enter" "sq_reader s = Push_lock x" "unat (sq_max_len s) \<le> length (sq_q s)"
      "s' = s\<lparr>sq_reader := Push_wait x\<rparr>"
  | (pushed) w where "a = Push_done w" "sq_reader s = Push_notify"
      "notify_one w (s\<lparr>sq_reader := Reading\<rparr>) = Some s'"
  | (pop) i x q where "a = Pop_enter i" "i < length (sq_workers s)" "sq_workers s ! i = Pop_lock" "sq_q s = x # q"
      "s' = s\<lparr>sq_q := q, sq_popped := sq_popped s @ [x], sq_workers := (sq_workers s)[i := Pop_notify x]\<rparr>"
  | (empty) i where "a = Pop_enter i" "i < length (sq_workers s)" "sq_workers s ! i = Pop_lock" "sq_q s = []"
      "s' = s\<lparr>sq_workers := (sq_workers s)[i := Pop_wait]\<rparr>"
  | (popped) i w x where "a = Pop_done i w" "i < length (sq_workers s)" "sq_workers s ! i = Pop_notify x"
      "notify_one w (s\<lparr>sq_workers := (sq_workers s)[i := Processing x]\<rparr>) = Some s'"
  | (send) i r x p where "a = Sent i r" "i < length (sq_workers s)" "sq_workers s ! i = Processing x"
      "outgoing N target x = Inr p"
      "s' = s\<lparr>sq_sent := sq_sent s @ [p], sq_workers := (sq_workers s)[i := Pop_lock]\<rparr>"
  | (crash) i r x e where "a = Sent i r" "i < length (sq_workers s)" "sq_workers s ! i = Processing x"
      "process_packet_helper N target r x = Inl e" "s' = s\<lparr>sq_ended := Some e\<rparr>"
  | (spurious) w where "a = Spurious w" "notify_one w s = Some s'"
proof (cases a)
  case (Read r)
  with assms show thesis
    by (auto simp: px_step_def read_packet_def split: if_split_asm option.split_asm intro: read fail)
next
  case Push_enter
  with assms show thesis
    by (auto simp: px_step_def push_enter_def push_locked_def split: if_split_asm reader_pc.split_asm intro: push full)
next
  case (Push_done w)
  with assms show thesis by (auto simp: px_step_def push_done_def split: if_split_asm intro: pushed)
next
  case (Pop_enter i)
  with assms show thesis
    by (auto simp: px_step_def pop_enter_def pop_locked_def split: if_split_asm list.split_asm intro: pop empty)
next
  case (Pop_done i w)
  with assms show thesis
    by (auto simp: px_step_def pop_done_def split: if_split_asm worker_pc.split_asm intro: popped)
next
  case (Sent i r)
  with assms show thesis
    by (auto simp: px_step_def process_packet_def split: if_split_asm worker_pc.split_asm sum.split_asm
        intro: send [OF _ _ _ process_packet_helper_outgoing] crash)
next
  case (Spurious w)
  with assms show thesis by (auto simp: px_step_def split: if_split_asm intro: spurious)
qed

section \<open>Invariants\<close>

fun pending :: "reader_pc \<Rightarrow> bytes list" where
  "pending (Push_lock x) = [x]"
| "pending (Push_wait x) = [x]"
| "pending pc = []"

fun held :: "worker_pc \<Rightarrow> bytes list" where
  "held (Pop_notify x) = [x]"
| "held (Processing x) = [x]"
| "held pc = []"

definition in_hand :: "threads \<Rightarrow> bytes list" where
  "in_hand s = concat (map held (sq_workers s))"

definition fifo_inv :: "threads \<Rightarrow> bool" where
  "fifo_inv s \<longleftrightarrow> sq_read s = sq_popped s @ sq_q s @ pending (sq_reader s)"

definition sent_inv :: "inet \<Rightarrow> addr_set \<Rightarrow> threads \<Rightarrow> bool" where
  "sent_inv N target s \<longleftrightarrow>
     mset (map (outgoing N target) (sq_popped s)) =
     mset (map Inr (sq_sent s)) + mset (map (outgoing N target) (in_hand s))"

definition order_inv :: "inet \<Rightarrow> addr_set \<Rightarrow> threads \<Rightarrow> bool" where
  "order_inv N target s \<longleftrightarrow> (length (sq_workers s) = 1 \<longrightarrow>
     map (outgoing N target) (sq_popped s) = map Inr (sq_sent s) @ map (outgoing N target) (in_hand s))"

definition wake_inv :: "threads \<Rightarrow> bool" where
  "wake_inv s \<longleftrightarrow> (sq_q s \<noteq> [] \<longrightarrow> sq_reader s = Push_notify \<or> (\<exists>w \<in> set (sq_workers s). w \<noteq> Pop_wait))"

definition room_inv :: "threads \<Rightarrow> bool" where
  "room_inv s \<longleftrightarrow> (length (sq_read s) \<le> unat (sq_max_len s) \<longrightarrow> (\<forall>x. sq_reader s \<noteq> Push_wait x))"

lemmas step_defs = px_step_def read_packet_def push_enter_def push_done_def pop_enter_def pop_done_def
  process_packet_def push_locked_def pop_locked_def notify_one_def

lemmas step_splits = if_split_asm option.split_asm reader_pc.split_asm worker_pc.split_asm waiter.split_asm
  act.split_asm list.split_asm sum.split_asm

lemma mset_concat_update:
  "i < length ws \<Longrightarrow>
   mset (concat (map h (ws[i := w]))) + mset (h (ws ! i)) = mset (concat (map h ws)) + mset (h w)"
proof (induction ws arbitrary: i)
  case (Cons a ws)
  then show ?case by (cases i) (auto simp: ac_simps)
qed simp

lemma in_hand_update:
  assumes "i < length (sq_workers s)" and "sq_workers s' = (sq_workers s)[i := w]"
  shows "mset (in_hand s') + mset (held (sq_workers s ! i)) = mset (in_hand s) + mset (held w)"
  using mset_concat_update [OF assms(1), of held w] assms(2) by (simp add: in_hand_def)

lemma in_hand_update_rw:
  assumes "i < length (sq_workers s)" and "sq_workers s' = (sq_workers s)[i := w]"
  shows "mset (map f (in_hand s')) + mset (map f (held (sq_workers s ! i))) = mset (map f (in_hand s)) + mset (map f (held w))"
  using arg_cong [OF in_hand_update [OF assms], where f = "image_mset f"] by simp

lemma step_fifo: "px_step N target a s = Some s' \<Longrightarrow> fifo_inv s \<Longrightarrow> fifo_inv s'"
  by (auto simp: step_defs fifo_inv_def split: step_splits)

lemma step_room: "px_step N target a s = Some s' \<Longrightarrow> fifo_inv s \<Longrightarrow> room_inv s \<Longrightarrow> room_inv s'"
  by (auto simp: step_defs fifo_inv_def room_inv_def split: step_splits)

lemma step_read_grows:
  "px_step N target a s = Some s' \<Longrightarrow>
   sq_max_len s' = sq_max_len s \<and> length (sq_workers s') = length (sq_workers s)"
  by (auto simp: step_defs split: step_splits)

lemma awake_update [intro]: "i < length ws \<Longrightarrow> w \<noteq> Pop_wait \<Longrightarrow> \<exists>w \<in> set (ws[i := w]). w \<noteq> Pop_wait"
  by (meson set_update_memI)

lemma asleep_update [dest]: "\<forall>w \<in> set (ws[i := v]). w = Pop_wait \<Longrightarrow> i < length ws \<Longrightarrow> v = Pop_wait"
  by (meson set_update_memI)

lemma notify_awake:
  assumes "notify_one w s = Some s'" and "sq_workers s \<noteq> []" and "sq_reader s = Reading"
  shows "\<exists>w \<in> set (sq_workers s'). w \<noteq> Pop_wait"
proof (cases w)
  case Nobody
  then have "s' = s" "Pop_wait \<notin> set (sq_workers s)"
    using assms(1) by (auto simp: notify_one_def waiting_def split: if_split_asm)
  then show ?thesis using assms(2) by (cases "sq_workers s") auto
next
  case The_reader
  then show ?thesis using assms(1,3) by (simp add: notify_one_def)
next
  case (A_worker j)
  then show ?thesis using assms(1) by (auto simp: notify_one_def split: if_split_asm)
qed

lemma notify_keeps_awake:
  assumes "notify_one w s = Some s'" and "\<exists>w \<in> set (sq_workers s). w \<noteq> Pop_wait"
  shows "\<exists>w \<in> set (sq_workers s'). w \<noteq> Pop_wait"
  using assms by (cases w) (auto simp: notify_one_def split: if_split_asm reader_pc.split_asm)

lemma notify_frame:
  assumes "notify_one w s = Some s'"
  shows "sq_q s' = sq_q s \<and> sq_popped s' = sq_popped s \<and> sq_sent s' = sq_sent s \<and> in_hand s' = in_hand s \<and>
    length (sq_workers s') = length (sq_workers s) \<and> (sq_reader s = Push_notify \<longrightarrow> sq_reader s' = Push_notify)"
proof -
  have "concat (map held (ws[j := Pop_lock])) = concat (map held ws)" if "j < length ws" "ws ! j = Pop_wait" for j ws
    using that by (metis held.simps(3,4) list_update_id map_update)
  then show ?thesis
    using assms by (cases w) (auto simp: notify_one_def in_hand_def split: if_split_asm reader_pc.split_asm)
qed

lemma step_wake:
  assumes "px_step N target a s = Some s'" and "sq_workers s \<noteq> []" and "wake_inv s"
  shows "wake_inv s'"
  using assms(1)
proof (cases rule: px_step_cases)
  case (pushed w)
  from notify_awake [OF pushed(3)] assms(2) show ?thesis by (simp add: wake_inv_def)
next
  case (popped i w x)
  have "\<exists>w \<in> set ((sq_workers s)[i := Processing x]). w \<noteq> Pop_wait" using popped(2) by (rule awake_update) simp
  with notify_keeps_awake [OF popped(4)] show ?thesis by (simp add: wake_inv_def)
next
  case (spurious w)
  with notify_frame [OF spurious(2)] notify_keeps_awake [OF spurious(2)] assms(3) show ?thesis
    by (auto simp: wake_inv_def)
qed (use assms(3) in \<open>auto simp: wake_inv_def\<close>)

lemma step_sent:
  assumes "px_step N target a s = Some s'" and "sent_inv N target s"
  shows "sent_inv N target s'"
  using assms(1)
proof (cases rule: px_step_cases)
  case (pushed w)
  from notify_frame [OF pushed(3)] assms(2) show ?thesis by (simp add: sent_inv_def in_hand_def)
next
  case (popped i w x)
  let ?s = "s\<lparr>sq_workers := (sq_workers s)[i := Processing x]\<rparr>"
  have "mset (map (outgoing N target) (in_hand ?s)) = mset (map (outgoing N target) (in_hand s))"
    using in_hand_update_rw [OF popped(2), of ?s "Processing x" "outgoing N target"] popped(3) by simp
  with notify_frame [OF popped(4)] assms(2) show ?thesis by (simp add: sent_inv_def)
next
  case (spurious w)
  from notify_frame [OF spurious(2)] assms(2) show ?thesis by (simp add: sent_inv_def)
next
  case (send i r x p)
  then have "sq_workers s' = (sq_workers s)[i := Pop_lock]" by simp
  from in_hand_update_rw [OF send(2) this, of "outgoing N target"] send(3,4)
  have "mset (map (outgoing N target) (in_hand s)) =
      mset (map (outgoing N target) (in_hand s')) + {#Inr p#}" by simp
  with send(5) assms(2) show ?thesis by (simp add: sent_inv_def)
next
  case (pop i x q)
  then have "sq_workers s' = (sq_workers s)[i := Pop_notify x]" by simp
  from in_hand_update_rw [OF pop(2) this, of "outgoing N target"] pop(3,5) assms(2)
  show ?thesis by (simp add: sent_inv_def)
next
  case (empty i)
  then have "sq_workers s' = (sq_workers s)[i := Pop_wait]" by simp
  from in_hand_update_rw [OF empty(2) this, of "outgoing N target"] empty(3,5) assms(2)
  show ?thesis by (simp add: sent_inv_def)
qed (use assms(2) in \<open>auto simp: sent_inv_def in_hand_def\<close>)

lemma one_worker:
  assumes "length ws = 1" and "i < length ws"
  shows "concat (map held (ws[i := w])) = held w" and "concat (map held ws) = held (ws ! i)"
proof -
  from assms(1) obtain v where "ws = [v]" by (cases ws) auto
  with assms(2) show "concat (map held (ws[i := w])) = held w" "concat (map held ws) = held (ws ! i)" by simp_all
qed

lemma step_order:
  assumes "px_step N target a s = Some s'" and "order_inv N target s"
  shows "order_inv N target s'"
  using assms(1)
proof (cases rule: px_step_cases)
  case (pushed w)
  from notify_frame [OF pushed(3)] assms(2) show ?thesis by (simp add: order_inv_def in_hand_def)
next
  case (popped i w x)
  have "map held ((sq_workers s)[i := Processing x]) = map held (sq_workers s)"
    using popped(3) by (metis held.simps(1,2) list_update_id map_update)
  with notify_frame [OF popped(4)] assms(2) show ?thesis by (simp add: order_inv_def in_hand_def)
next
  case (spurious w)
  from notify_frame [OF spurious(2)] assms(2) show ?thesis by (simp add: order_inv_def)
next
  case (send i r x p)
  then show ?thesis using assms(2) one_worker [OF _ send(2)] by (simp add: order_inv_def in_hand_def)
next
  case (pop i x q)
  then show ?thesis using assms(2) one_worker [OF _ pop(2)] by (simp add: order_inv_def in_hand_def)
next
  case (empty i)
  then show ?thesis using assms(2) one_worker [OF _ empty(2)] by (simp add: order_inv_def in_hand_def)
qed (use assms(2) in \<open>auto simp: order_inv_def in_hand_def\<close>)

section \<open>Order and completeness\<close>

definition px_inv :: "inet \<Rightarrow> addr_set \<Rightarrow> threads \<Rightarrow> bool" where
  "px_inv N target s \<longleftrightarrow> fifo_inv s \<and> room_inv s \<and> sent_inv N target s \<and> order_inv N target s \<and>
     wake_inv s \<and> sq_workers s \<noteq> []"

lemma px_inv_start: "1 \<le> px_num_threads p \<Longrightarrow> px_inv N target (proxy_start m p)"
  by (simp add: px_inv_def proxy_start_def fifo_inv_def room_inv_def sent_inv_def order_inv_def wake_inv_def
      in_hand_def map_replicate_const)

lemma px_inv_step: "px_step N target a s = Some s' \<Longrightarrow> px_inv N target s \<Longrightarrow> px_inv N target s'"
  unfolding px_inv_def
  by (metis length_0_conv step_fifo step_order step_read_grows step_room step_sent step_wake)

lemma px_reach_inv: "px_reach N target s\<^sub>0 s \<Longrightarrow> px_inv N target s\<^sub>0 \<Longrightarrow>
  px_inv N target s \<and> sq_max_len s = sq_max_len s\<^sub>0 \<and> length (sq_workers s) = length (sq_workers s\<^sub>0)"
proof (induction rule: px_reach.induct)
  case (px_next s a s')
  with step_read_grows [OF px_next(2)] px_inv_step [OF px_next(2)] show ?case by simp
qed simp

lemma px_run_reach: "px_reach N target s\<^sub>0 s \<Longrightarrow> px_run N target as s = Some s' \<Longrightarrow> px_reach N target s\<^sub>0 s'"
  by (induction as arbitrary: s) (auto simp: bind_eq_Some_conv intro: px_next)

text \<open>
  C12.  In every interleaving of the reading thread and the sending threads, with spurious wake-ups
  and any choice of the thread a notification wakes, packets leave the queue in the order
  they were read, the packets handed to the sockets are the rewritings of packets popped, each sent to the target's address,
  none lost and none sent twice: the popped ones are those sent and those a thread holds.  With
  one sending thread they are sent in the order they were read.
\<close>

theorem packets_in_order_none_lost:
  assumes "1 \<le> px_num_threads p" and "px_reach N target (proxy_start m p) s"
  shows "sq_read s = sq_popped s @ sq_q s @ pending (sq_reader s) \<and>
    mset (map (outgoing N target) (sq_popped s)) =
      mset (map Inr (sq_sent s)) + mset (map (outgoing N target) (in_hand s)) \<and>
    (px_num_threads p = 1 \<longrightarrow>
      map (outgoing N target) (sq_popped s) =
      map Inr (sq_sent s) @ map (outgoing N target) (in_hand s))"
  using px_reach_inv [OF assms(2) px_inv_start [OF assms(1)]]
  by (simp add: px_inv_def fifo_inv_def sent_inv_def order_inv_def proxy_start_def)

section \<open>Progress\<close>

text \<open>The steps of the threads other than reading a new packet and waking without cause.\<close>

fun internal :: "act \<Rightarrow> bool" where
  "internal (Read r) = False"
| "internal (Spurious w) = False"
| "internal a = True"

fun reader_work :: "reader_pc \<Rightarrow> nat" where
  "reader_work Reading = 0"
| "reader_work (Push_lock x) = 7"
| "reader_work (Push_wait x) = 6"
| "reader_work Push_notify = 2"

fun worker_work :: "worker_pc \<Rightarrow> nat" where
  "worker_work Pop_wait = 0"
| "worker_work Pop_lock = 1"
| "worker_work (Pop_notify x) = 4"
| "worker_work (Processing x) = 2"

text \<open>A bound on the number of internal steps that are left.\<close>

definition work :: "threads \<Rightarrow> nat" where
  "work s = (if sq_ended s = None then 1 else 0) + 4 * length (sq_q s) + reader_work (sq_reader s) +
     sum_list (map worker_work (sq_workers s))"

lemma worker_work_update:
  "i < length ws \<Longrightarrow>
   sum_list (map worker_work (ws[i := w])) + worker_work (ws ! i) = sum_list (map worker_work ws) + worker_work w"
proof (induction ws arbitrary: i)
  case (Cons a ws)
  then show ?case by (cases i) auto
qed simp

lemma notify_work: "notify_one w s = Some s' \<Longrightarrow> work s' \<le> work s + 1"
proof (cases w)
  case (A_worker j)
  assume "notify_one w s = Some s'"
  with A_worker have "j < length (sq_workers s)" "sq_workers s ! j = Pop_wait"
    "s' = s\<lparr>sq_workers := (sq_workers s)[j := Pop_lock]\<rparr>"
    by (auto simp: notify_one_def split: if_split_asm)
  then show ?thesis using worker_work_update [of j "sq_workers s" Pop_lock] by (simp add: work_def)
qed (auto simp: notify_one_def work_def split: if_split_asm reader_pc.split_asm)

lemma step_work:
  assumes "px_step N target a s = Some s'" and "internal a"
  shows "work s' < work s"
proof -
  have e: "sq_ended s = None" using assms(1) by (auto simp: px_step_def split: if_split_asm)
  from assms(1) show ?thesis
  proof (cases rule: px_step_cases)
    case (pushed w)
    with notify_work [OF pushed(3)] show ?thesis by (simp add: work_def)
  next
    case (popped i w x)
    with notify_work [OF popped(4)] worker_work_update [OF popped(2), of "Processing x"]
    show ?thesis by (simp add: work_def)
  next
    case (send i r x p)
    with worker_work_update [OF send(2), of Pop_lock] show ?thesis by (simp add: work_def)
  next
    case (pop i x q)
    with worker_work_update [OF pop(2), of "Pop_notify x"] show ?thesis by (simp add: work_def)
  next
    case (empty i)
    with worker_work_update [OF empty(2), of Pop_wait] show ?thesis by (simp add: work_def)
  qed (use assms(2) e in \<open>auto simp: work_def\<close>)
qed

lemma run_work: "px_run N target as s = Some s' \<Longrightarrow> list_all internal as \<Longrightarrow> length as + work s' \<le> work s"
proof (induction as arbitrary: s)
  case (Cons a as)
  from Cons.prems(1) obtain u where u: "px_step N target a s = Some u" "px_run N target as u = Some s'"
    by (auto simp: bind_eq_Some_conv)
  show ?case using Cons.IH [OF u(2)] step_work [OF u(1)] Cons.prems(2) by simp
qed simp

lemma run_read: "px_run N target as s = Some s' \<Longrightarrow> list_all internal as \<Longrightarrow> sq_read s' = sq_read s"
proof (induction as arbitrary: s)
  case (Cons a as)
  from Cons.prems(1) obtain u where u: "px_step N target a s = Some u" "px_run N target as u = Some s'"
    by (auto simp: bind_eq_Some_conv)
  have "sq_read u = sq_read s"
    using u(1) Cons.prems(2) by (auto simp: step_defs split: step_splits)
  then show ?case using Cons.IH [OF u(2)] Cons.prems(2) by simp
qed simp

lemma notify_enabled: "\<exists>w s'. notify_one w s = Some s'"
proof (cases "waiting s")
  case False
  then have "notify_one Nobody s = Some s" by (simp add: notify_one_def)
  then show ?thesis by blast
next
  case True
  then consider x where "sq_reader s = Push_wait x" | j where "j < length (sq_workers s)" "sq_workers s ! j = Pop_wait"
    by (auto simp: waiting_def in_set_conv_nth split: reader_pc.split_asm)
  then show ?thesis
  proof cases
    case 1
    then have "notify_one The_reader s = Some (s\<lparr>sq_reader := Push_lock x\<rparr>)" by (simp add: notify_one_def)
    then show ?thesis by blast
  next
    case 2
    then have "notify_one (A_worker j) s = Some (s\<lparr>sq_workers := (sq_workers s)[j := Pop_lock]\<rparr>)"
      by (simp add: notify_one_def)
    then show ?thesis by blast
  qed
qed

definition stuck :: "inet \<Rightarrow> addr_set \<Rightarrow> threads \<Rightarrow> bool" where
  "stuck N target s \<longleftrightarrow> (\<forall>a. internal a \<longrightarrow> px_step N target a s = None)"

text \<open>A process in which no thread can step has all sending threads waiting, the reader reading or waiting.\<close>

lemma stuck_waiting:
  assumes "stuck N target s" and e: "sq_ended s = None"
  shows "(\<forall>w \<in> set (sq_workers s). w = Pop_wait) \<and> (sq_reader s = Reading \<or> (\<exists>x. sq_reader s = Push_wait x))"
proof
  have no: "px_step N target a s = None" if "internal a" for a using assms(1) that by (simp add: stuck_def)
  show "\<forall>w \<in> set (sq_workers s). w = Pop_wait"
  proof
    fix w assume "w \<in> set (sq_workers s)"
    then obtain i where i: "i < length (sq_workers s)" "sq_workers s ! i = w" by (auto simp: in_set_conv_nth)
    show "w = Pop_wait"
    proof (cases w)
      case Pop_lock
      then show ?thesis using no [of "Pop_enter i"] i e by (simp add: px_step_def pop_enter_def)
    next
      case (Pop_notify x)
      obtain v s' where "notify_one v (s\<lparr>sq_workers := (sq_workers s)[i := Processing x]\<rparr>) = Some s'"
        using notify_enabled by blast
      then show ?thesis using no [of "Pop_done i v"] i e Pop_notify by (simp add: px_step_def pop_done_def)
    next
      case (Processing x)
      then show ?thesis using no [of "Sent i 0"] i e by (simp add: px_step_def process_packet_def)
    qed
  qed
  obtain v s' where n: "notify_one v (s\<lparr>sq_reader := Reading\<rparr>) = Some s'" using notify_enabled by blast
  show "sq_reader s = Reading \<or> (\<exists>x. sq_reader s = Push_wait x)"
    using no [of Push_enter] no [of "Push_done v"] n e
    by (cases "sq_reader s") (simp_all add: px_step_def push_enter_def push_done_def)
qed

text \<open>The proxy's \<^verbatim>\<open>-1\<close> is the largest length an \<^verbatim>\<open>unsigned int\<close> can bound.\<close>

lemma unat_unlimited: "unat (safe_queue_new (-1)) = 2 ^ 32 - 1"
  by (simp add: safe_queue_new_def unsigned_minus_1_eq_mask mask_eq_exp_minus_1)

lemma stuck_all_sent:
  assumes "stuck N target s" and "sq_ended s = None" and "px_inv N target s"
    and "length (sq_read s) \<le> unat (sq_max_len s)"
  shows "sq_q s = [] \<and> sq_reader s = Reading \<and>
    mset (map Inr (sq_sent s)) = mset (map (outgoing N target) (sq_read s))"
proof -
  note w = stuck_waiting [OF assms(1,2)]
  then have r: "sq_reader s = Reading" using assms(3,4) by (auto simp: px_inv_def room_inv_def)
  then have q: "sq_q s = []" using w assms(3) by (auto simp: px_inv_def wake_inv_def)
  have "in_hand s = []" using w by (auto simp: in_hand_def)
  with r q assms(3) show ?thesis by (simp add: px_inv_def fifo_inv_def sent_inv_def)
qed

text \<open>
  C11.  No wake-up is lost.  Take any state the proxy can reach, with its unlimited queue
  and at least one sending thread, and let no further packet be read: whatever the schedule and
  whichever waiter each notification wakes, the threads take at most \<open>work s\<close> further steps, and
  when none can step any more and the process was not ended by an error, the queue is empty, the
  reader is back at the tunnel and every packet read so far has been rewritten and sent to the target's address exactly
  once.
\<close>

theorem backlog_is_sent:
  assumes "1 \<le> px_num_threads p" and "px_reach N target (proxy_start (safe_queue_new (-1)) p) s"
    and "length (sq_read s) < 2 ^ 32"
    and "list_all internal as" and "px_run N target as s = Some s'"
  shows "length as \<le> work s \<and>
    (stuck N target s' \<and> sq_ended s' = None \<longrightarrow>
       sq_q s' = [] \<and> sq_reader s' = Reading \<and> sq_read s' = sq_read s \<and>
       mset (map Inr (sq_sent s')) = mset (map (outgoing N target) (sq_read s)))"
proof -
  have i: "px_inv N target s'" "sq_max_len s' = safe_queue_new (-1)"
    using px_reach_inv [OF px_run_reach [OF assms(2,5)] px_inv_start [OF assms(1)]]
    by (simp_all add: proxy_start_def)
  have r: "sq_read s' = sq_read s" using assms(4,5) run_read by blast
  have m: "unat (sq_max_len s') = 2 ^ 32 - 1" by (simp add: i(2) unat_unlimited)
  have "length as \<le> work s" using run_work [OF assms(5,4)] by simp
  with stuck_all_sent [of N target s'] i(1) r m assms(3) show ?thesis by simp
qed

section \<open>Instances\<close>

definition demo_proxy :: "int \<Rightarrow> proxy" where
  "demo_proxy n = \<lparr>px_aut_addr = demo_target, px_rec_addr = demo_target, px_target_addr = demo_target,
     px_num_threads = n, px_tun_name = ''dnstun'', px_proxy_type = ''recursive''\<rparr>"

text \<open>An ICMP packet with the sequence number \<open>i\<close> in its last byte.\<close>

definition ping :: "byte \<Rightarrow> bytes" where
  "ping i = [69, 0, 0, 21, 0, 1, 0, 0, 64, 1, 9, 9, 10, 1, 1, 2, 198, 41, 0, 4, i]"

definition pong :: "byte \<Rightarrow> bytes" where
  "pong i = [69, 0, 0, 21, 0, 1, 0, 0, 64, 1, 0, 0, 198, 41, 0, 4, 10, 1, 1, 3, i]"

lemma rewrite_ping: "rewrite_packet demo_inet demo_target (ping i) = Inr (pong i)"
  by (simp add: rewrite_packet_def ping_def pong_def ip_v_def rewrite_ip_def patch_def ip_dst_def ip_p_def
      demo_inet_def demo_target_def addr_set_str_def PROTO_ICMP_def)

lemma process_ping: "0 \<le> r \<Longrightarrow> process_packet_helper demo_inet demo_target r (ping i) =
    Inr (pong i, as_v4_addr demo_target)"
  by (simp add: process_packet_helper_def rewrite_ping fault_simps addr_set_addr_def)

lemma length_ping: "length (ping i) = 21"
  by (simp add: ping_def)

lemma two_threads: "replicate 2 x = [x, x]" "i < Suc (Suc 0) \<Longrightarrow> [x, x] ! i = x"
  by (auto simp: numeral_2_eq_2 less_Suc_eq)

lemmas run_simps = step_defs waiting_def demo_proxy_def proxy_start_def process_ping BUF_LEN_def length_ping two_threads

text \<open>Two packets, two sending threads; the second packet is sent first.\<close>

definition overtaking :: "act list" where
  "overtaking = [Read (Some (ping 1)), Push_enter, Push_done Nobody, Read (Some (ping 2)), Push_enter,
     Push_done Nobody, Pop_enter 0, Pop_done 0 Nobody, Pop_enter 1, Pop_done 1 Nobody, Sent 1 21]"

definition overtaken :: threads where
  "overtaken = (proxy_start (safe_queue_new (-1)) (demo_proxy 2))\<lparr>
     sq_workers := [Processing (ping 1), Pop_lock], sq_read := [ping 1, ping 2],
     sq_popped := [ping 1, ping 2], sq_sent := [(pong 2, as_v4_addr demo_target)]\<rparr>"

lemma overtaking_run:
  "px_run demo_inet demo_target overtaking (proxy_start (safe_queue_new (-1)) (demo_proxy 2)) = Some overtaken"
  by (simp add: overtaking_def overtaken_def run_simps unat_unlimited)

lemma overtaken_reach:
  "px_reach demo_inet demo_target (proxy_start (safe_queue_new (-1)) (demo_proxy 2)) overtaken"
  using px_run_reach [OF px_init overtaking_run] .

theorem packets_in_order_none_lost_witness:
  "sq_sent overtaken = [(pong 2, as_v4_addr demo_target)] \<and> sq_popped overtaken = [ping 1, ping 2] \<and>
   mset (map (outgoing demo_inet demo_target) (sq_popped overtaken)) =
     mset (map Inr (sq_sent overtaken)) + mset (map (outgoing demo_inet demo_target) (in_hand overtaken))"
  using packets_in_order_none_lost [OF _ overtaken_reach] by (simp add: demo_proxy_def overtaken_def)

text \<open>The rest of that run: both threads finish and wait.\<close>

definition drain :: "act list" where
  "drain = [Pop_enter 1, Sent 0 21, Pop_enter 0]"

definition drained :: threads where
  "drained = overtaken\<lparr>sq_workers := [Pop_wait, Pop_wait], sq_sent := [(pong 2, as_v4_addr demo_target), (pong 1, as_v4_addr demo_target)]\<rparr>"

lemma drain_run: "px_run demo_inet demo_target drain overtaken = Some drained"
  by (simp add: drain_def drained_def overtaken_def run_simps)

lemma drained_stuck: "stuck demo_inet demo_target drained"
  unfolding stuck_def
proof (intro allI impI)
  fix a assume "internal a"
  then show "px_step demo_inet demo_target a drained = None"
    by (cases a) (auto simp: drained_def overtaken_def run_simps)
qed

theorem backlog_is_sent_witness:
  "length drain \<le> work overtaken \<and> sq_q drained = [] \<and> sq_reader drained = Reading \<and>
   mset (map Inr (sq_sent drained)) = mset (map (outgoing demo_inet demo_target) (sq_read overtaken))"
proof -
  have "sq_ended drained = None" by (simp add: drained_def overtaken_def proxy_start_def)
  with backlog_is_sent [OF _ overtaken_reach _ _ drain_run] drained_stuck show ?thesis
    by (simp add: demo_proxy_def drain_def overtaken_def)
qed

section \<open>A bounded queue\<close>

definition bounded_run :: "act list" where
  "bounded_run = [Pop_enter 0, Pop_enter 1, Read (Some (ping 1)), Push_enter, Push_done (A_worker 0),
     Read (Some (ping 2)), Push_enter, Pop_enter 0, Pop_done 0 (A_worker 1), Pop_enter 1, Sent 0 21, Pop_enter 0]"

definition bounded_end :: threads where
  "bounded_end = (proxy_start (safe_queue_new 1) (demo_proxy 2))\<lparr>sq_reader := Push_wait (ping 2),
     sq_workers := [Pop_wait, Pop_wait], sq_read := [ping 1, ping 2], sq_popped := [ping 1],
     sq_sent := [(pong 1, as_v4_addr demo_target)]\<rparr>"

lemma bounded_run_ends:
  "px_run demo_inet demo_target bounded_run (proxy_start (safe_queue_new 1) (demo_proxy 2)) = Some bounded_end"
  by (simp add: bounded_run_def bounded_end_def run_simps safe_queue_new_def)

text \<open>
  C35.  The queue class has one condition variable for readers and writers and wakes one waiter at
  a time.  With a length limit (here 1) and two sending threads there is a run in which a
  notification meant for the full queue's writer wakes another sending thread: afterwards the
  queue is empty, the reader waits for room and both sending threads wait for packets, and
  no thread can do anything but wake up without cause.  The proxy creates its queue with
  \<^verbatim>\<open>-1\<close>, which avoids this.
\<close>

theorem bounded_queue_can_deadlock:
  "\<exists>s. px_reach demo_inet demo_target (proxy_start (safe_queue_new 1) (demo_proxy 2)) s \<and>
     sq_q s = [] \<and> sq_ended s = None \<and> (\<exists>x. sq_reader s = Push_wait x) \<and>
     stuck demo_inet demo_target s \<and> (\<forall>r. px_step demo_inet demo_target (Read r) s = None)"
proof (intro exI conjI allI)
  show "px_reach demo_inet demo_target (proxy_start (safe_queue_new 1) (demo_proxy 2)) bounded_end"
    using px_run_reach [OF px_init bounded_run_ends] .
  have "px_step demo_inet demo_target a bounded_end = None" if "internal a" for a
    using that by (cases a) (auto simp: bounded_end_def run_simps)
  then show "stuck demo_inet demo_target bounded_end" by (simp add: stuck_def)
qed (simp_all add: bounded_end_def proxy_start_def px_step_def read_packet_def)

end
