(* ===== verification/Proxy_Main.thy ===== *)
theory Proxy_Main
  imports Proxy_Threads
begin

text \<open>
  The main function of the proxy (\<^verbatim>\<open>main.cc\<close>): flags with validators, the proxy object and its
  threads.  The flag library runs every validator and exits when one fails.  The queue of the proxy
  is unlimited (\<^verbatim>\<open>safe_queue\<close> with the default limit -1).
\<close>

definition ValidateProxyType :: "string \<Rightarrow> bool" where
  "ValidateProxyType p = (if p = [] \<or> p \<noteq> ''recursive'' \<and> p \<noteq> ''authoritative'' then False else True)"

definition ValidateTunName :: "string \<Rightarrow> bool" where
  "ValidateTunName s = (if s = [] then False else True)"

definition ValidateAddress :: "inet \<Rightarrow> string \<Rightarrow> bool" where
  "ValidateAddress N a = (if a = [] \<or> \<not> ipv4_addr N a \<and> \<not> ipv6_addr N a then False else True)"

definition ValidateNumThreads :: "int \<Rightarrow> bool" where
  "ValidateNumThreads n = (if n < 1 then False else True)"

record proxy_flags =
  pf_proxy_type :: string
  pf_tun_name :: string
  pf_auth_addr :: string
  pf_rec_addr :: string
  pf_num_threads :: int
  pf_dry_run :: bool

definition default_proxy_flags :: proxy_flags where
  "default_proxy_flags = \<lparr>pf_proxy_type = ''recursive'', pf_tun_name = ''dnstun'', pf_auth_addr = [],
     pf_rec_addr = [], pf_num_threads = 1, pf_dry_run = False\<rparr>"

definition parse_proxy_flags :: "inet \<Rightarrow> proxy_flags \<Rightarrow> proxy_flags result" where
  "parse_proxy_flags N fl =
     (if ValidateProxyType (pf_proxy_type fl) \<and> ValidateTunName (pf_tun_name fl) \<and>
         ValidateAddress N (pf_auth_addr fl) \<and> ValidateAddress N (pf_rec_addr fl) \<and>
         ValidateNumThreads (pf_num_threads fl)
      then Inr fl else Inl (Exit 1 ''ParseCommandLineFlags''))"

text \<open>\<open>None\<close>: a dry run, which only constructs the object.\<close>

definition proxy_main :: "inet \<Rightarrow> proxy_flags \<Rightarrow> (proxy \<times> threads option) result" where
  "proxy_main N fl0 =
     bindE (parse_proxy_flags N fl0) (\<lambda>fl.
     bindE (DNSReplayProxy_new N (pf_tun_name fl) (pf_auth_addr fl) (pf_rec_addr fl) (pf_proxy_type fl)
              (pf_num_threads fl)) (\<lambda>p.
       Inr (p, if pf_dry_run fl then None else Some (proxy_start (safe_queue_new (-1)) p))))"

text \<open>
  The proxy starts for all flags that pass the validators and name IPv4 addresses, with one
  processing thread per requested thread, and rewrites to the server its type names.
\<close>

lemma proxy_main_starts:
  assumes "parse_proxy_flags N fl = Inr fl" and "ipv4_addr N (pf_auth_addr fl)" and "ipv4_addr N (pf_rec_addr fl)"
    and "ipv6_addr N ''::1''" and "\<not> pf_dry_run fl"
  shows "\<exists>p t. proxy_main N fl = Inr (p, Some t) \<and> length (sq_workers t) = nat (pf_num_threads fl) \<and>
    as_v4_str (px_target_addr p) =
      (if pf_proxy_type fl = ''recursive'' then pf_auth_addr fl else pf_rec_addr fl)"
proof -
  have "\<exists>A. addr_set_new N a ''::1'' 53 = Inr A \<and> as_v4_str A = a" if "ipv4_addr N a" for a
    using that assms(4) by (auto simp: addr_set_new_def ip_s2b_def ipv4_addr_def ipv6_addr_def)
  then obtain A R where "addr_set_new N (pf_auth_addr fl) ''::1'' 53 = Inr A" "as_v4_str A = pf_auth_addr fl"
    "addr_set_new N (pf_rec_addr fl) ''::1'' 53 = Inr R" "as_v4_str R = pf_rec_addr fl"
    using assms(2,3) by metis
  with assms(1,5) show ?thesis
    by (auto simp: proxy_main_def parse_proxy_flags_def DNSReplayProxy_new_def proxy_start_def
        ValidateProxyType_def ValidateTunName_def ValidateNumThreads_def fault_simps split: if_splits)
qed

text \<open>An IPv6 address passes the validator and ends the program in the constructor.\<close>

lemma proxy_main_ipv6:
  assumes "parse_proxy_flags N fl = Inr fl" and "\<not> ipv4_addr N (pf_auth_addr fl)"
  shows "proxy_main N fl = Inl (Exit 1 ''not a valid IPv4 address!'')"
  using assms
  by (auto simp: proxy_main_def parse_proxy_flags_def DNSReplayProxy_new_def addr_set_new_def
      ValidateProxyType_def ValidateTunName_def ValidateNumThreads_def split: if_splits)

end
