(* ===== verification/Manager_Life.thy ===== *)
theory Manager_Life
  imports Manager
begin

text \<open>
  The life of the manager object: \<^verbatim>\<open>start\<close>, the destructor and the clean-up
  (\<^verbatim>\<open>manager.cc\<close>).  In local mode \<^verbatim>\<open>start\<close> runs two threads on the same object without a lock,
  one that reads the input file and one that runs the event loop.  Their steps interleave in
  any order here: a step of the reading thread is one turn of its loop, a step of the event
  thread is the set-up, a callback or the clean-up.  The lemmas show that the two threads touch
  different fields, with one exception: the event thread closes descriptors when it releases
  bufferevents, and the reading thread cannot write to a closed one.  So every interleaving gives what the
  two threads give one by one, or ends in such a write.
\<close>

section \<open>The two threads\<close>

datatype read_phase = Starting | Reading input_source | Read_done
datatype loop_phase = Before_loop | Dispatching | Loop_done

text \<open>
  The object, the local variables of the reading thread (the times it paces with and the number
  of messages read, which indexes the identifiers drawn for text input) and where each thread is.
\<close>

record 'r local_state =
  lo_mgr :: "'r manager"
  lo_pace :: "'r pace_state"
  lo_k :: nat
  lo_read :: read_phase
  lo_loop :: loop_phase

definition local_start :: "'r dbl \<Rightarrow> 'r manager \<Rightarrow> 'r local_state" where
  "local_start F m = \<lparr>lo_mgr = m, lo_pace = pace_init F, lo_k = 0, lo_read = Starting,
     lo_loop = Before_loop\<rparr>"

text \<open>
  One turn of \<^verbatim>\<open>read_input_file\<close>.  \<open>None\<close>: there is no step, because the thread has ended
  or the wait does not end.
\<close>

definition read_step ::
    "'r dbl \<Rightarrow> pb \<Rightarrow> 'p ldns \<Rightarrow> (nat \<Rightarrow> u16) \<Rightarrow> write_ret \<Rightarrow> (nat \<Rightarrow> 'r) \<Rightarrow> 'r local_state \<Rightarrow>
     ('r local_state result) option" where
  "read_step F c L rnd wr now s =
     (case lo_read s of
        Starting \<Rightarrow>
          Some (if mg_input_file (lo_mgr s) = [] then Inl (Exit 1 ''input file is invalid'')
            else if input_src_map (mg_input_format (lo_mgr s)) = None
            then Inl (Exit 1 ''input format is invalid'')
            else case mg_ins (lo_mgr s) of
                   None \<Rightarrow> Inl (Undefined ''ins is NULL'')
                 | Some ins \<Rightarrow> Inr (s\<lparr>lo_read := Reading ins\<rparr>))
      | Reading ins \<Rightarrow>
          (case get c L (rnd (lo_k s)) ins of
             Inl e \<Rightarrow> Some (Inl e)
           | Inr (None, ins') \<Rightarrow>
               Some (Inr (s\<lparr>lo_mgr := (lo_mgr s)\<lparr>mg_ins := Some ins'\<rparr>, lo_read := Read_done\<rparr>))
           | Inr (Some msg, ins') \<Rightarrow>
               map_option (\<lambda>r. bindE r (\<lambda>st.
                   Inr (s\<lparr>lo_mgr := rs_mgr st, lo_pace := rs_pace st, lo_k := Suc (lo_k s),
                          lo_read := Reading ins'\<rparr>)))
                 (input_msg F c wr now \<lparr>rs_mgr = lo_mgr s, rs_pace = lo_pace s\<rparr> msg))
      | Read_done \<Rightarrow> None)"

text \<open>
  The event thread in local mode: the parts of \<^verbatim>\<open>main_event_loop\<close> before, in and after the
  dispatch loop.  The only bufferevents are those of the workers.
\<close>

datatype loop_step = Loop_setup | Worker_read nat bytes | Worker_event nat u16 | Loop_end

fun worker_event :: "loop_step \<Rightarrow> mgr_event list" where
  "worker_event (Worker_read b d) = [Client_read b d]"
| "worker_event (Worker_event b w) = [Client_event b w]"
| "worker_event _ = []"

definition loop_setup :: "'r manager \<Rightarrow> 'r manager" where
  "loop_setup m = (let (cs, m1) = setup_bevs (mg_client_vec m) m in m1\<lparr>mg_client_vec := cs\<rparr>)"

definition loop_cleanup :: "'r manager \<Rightarrow> 'r manager result" where
  "loop_cleanup m =
     bindE (foldE (\<lambda>m clt. free_opt (ct_bev clt) m) m (mg_client_vec m)) (\<lambda>m'.
       Inr (m'\<lparr>mg_client_vec := map (\<lambda>clt. clt\<lparr>ct_bev := None\<rparr>) (mg_client_vec m'),
               mg_out_open := False\<rparr>))"

fun loop_act :: "loop_step \<Rightarrow> loop_phase \<times> 'r manager \<Rightarrow> ((loop_phase \<times> 'r manager) result) option" where
  "loop_act Loop_setup (Before_loop, m) = Some (Inr (Dispatching, loop_setup m))"
| "loop_act (Worker_read b d) (Dispatching, m) =
     (if b \<in> set (mg_live m) then Some (Inr (Dispatching, read_client_cb m d)) else None)"
| "loop_act (Worker_event b w) (Dispatching, m) =
     (if b \<in> set (mg_live m)
      then Some (bindE (buf_ev_cb b w m) (\<lambda>m'. Inr (Dispatching, m'))) else None)"
| "loop_act Loop_end (Dispatching, m) =
     Some (bindE (loop_cleanup m) (\<lambda>m'. Inr (Loop_done, m')))"
| "loop_act _ _ = None"

text \<open>A schedule: \<open>None\<close> is a step of the reading thread.\<close>

definition local_step ::
    "'r dbl \<Rightarrow> pb \<Rightarrow> 'p ldns \<Rightarrow> (nat \<Rightarrow> u16) \<Rightarrow> write_ret \<Rightarrow> (nat \<Rightarrow> 'r) \<Rightarrow> loop_step option \<Rightarrow>
     'r local_state \<Rightarrow> ('r local_state result) option" where
  "local_step F c L rnd wr now t s =
     (case t of
        None \<Rightarrow> read_step F c L rnd wr now s
      | Some a \<Rightarrow>
          map_option (\<lambda>r. bindE r (\<lambda>(p, m). Inr (s\<lparr>lo_mgr := m, lo_loop := p\<rparr>)))
            (loop_act a (lo_loop s, lo_mgr s)))"

fun local_exec ::
    "'r dbl \<Rightarrow> pb \<Rightarrow> 'p ldns \<Rightarrow> (nat \<Rightarrow> u16) \<Rightarrow> write_ret \<Rightarrow> (nat \<Rightarrow> 'r) \<Rightarrow> loop_step option list \<Rightarrow>
     'r local_state \<Rightarrow> ('r local_state result) option" where
  "local_exec F c L rnd wr now [] s = Some (Inr s)"
| "local_exec F c L rnd wr now (t # ts) s =
     (case local_step F c L rnd wr now t s of
        None \<Rightarrow> None
      | Some (Inl e) \<Rightarrow> Some (Inl e)
      | Some (Inr s') \<Rightarrow> local_exec F c L rnd wr now ts s')"

text \<open>
  \<^verbatim>\<open>start\<close>: in distributed mode the event loop, otherwise both threads until both have ended.
  \<open>ok\<close> and \<open>evs\<close> are the events of the distributed mode, \<open>ts\<close> is the schedule of the local mode;
  \<open>None\<close>: not all threads have ended with \<open>ts\<close>.
\<close>

definition Manager_start ::
    "'r dbl \<Rightarrow> pb \<Rightarrow> 'p ldns \<Rightarrow> (nat \<Rightarrow> u16) \<Rightarrow> write_ret \<Rightarrow> (nat \<Rightarrow> 'r) \<Rightarrow> bool \<Rightarrow> mgr_event list \<Rightarrow>
     loop_step option list \<Rightarrow> 'r manager \<Rightarrow> ('r manager result) option" where
  "Manager_start F c L rnd wr now ok evs ts m =
     (if mg_dist m then Some (main_event_loop c wr ok evs m)
      else case local_exec F c L rnd wr now ts (local_start F m) of
             None \<Rightarrow> None
           | Some (Inl e) \<Rightarrow> Some (Inl e)
           | Some (Inr s) \<Rightarrow>
               if lo_read s = Read_done \<and> lo_loop s = Loop_done then Some (Inr (lo_mgr s)) else None)"

section \<open>Clean-up\<close>

text \<open>\<^verbatim>\<open>clean_up\<close>: the workers' bufferevents that are set, the records, the input and the output.\<close>

definition clean_up :: "'r manager \<Rightarrow> 'r manager result" where
  "clean_up m =
     bindE (foldE (\<lambda>m clt. case ct_bev clt of None \<Rightarrow> Inr m | Some b \<Rightarrow> bev_free b m) m
              (mg_client_vec m)) (\<lambda>m'.
       Inr (m'\<lparr>mg_ins := map_option InputSource_destroy (mg_ins m'), mg_out_open := False\<rparr>))"

definition Manager_destroy :: "'r manager \<Rightarrow> 'r manager result" where
  "Manager_destroy m = clean_up m"

text \<open>The signals sent by \<^verbatim>\<open>terminate_clients\<close>; the outcome of \<^verbatim>\<open>kill\<close> is only logged.\<close>

definition SIGTERM :: int where "SIGTERM = 15"

definition terminate_clients :: "'r manager \<Rightarrow> (int \<times> int) list" where
  "terminate_clients m = map (\<lambda>pid. (pid, SIGTERM)) (mg_client_pid m)"

text \<open>\<^verbatim>\<open>log_err\<close> and \<^verbatim>\<open>log_errx\<close>: the signals sent, and how the process ends.\<close>

definition log_err :: "'r manager \<Rightarrow> string \<Rightarrow> (int \<times> int) list \<times> fault" where
  "log_err m msg = (terminate_clients m,
     case clean_up m of Inl e \<Rightarrow> e | Inr _ \<Rightarrow> Exit 1 msg)"

section \<open>The threads touch different fields\<close>

text \<open>The fields the event thread uses taken from \<open>e\<close>, all others from \<open>m\<close>.\<close>

definition put_loop :: "'r manager \<Rightarrow> 'r manager \<Rightarrow> 'r manager" where
  "put_loop e m = m\<lparr>mg_client_vec := mg_client_vec e, mg_live := mg_live e,
     mg_next_bev := mg_next_bev e, mg_bev_fd := mg_bev_fd e, mg_closed := mg_closed e,
     mg_out_open := mg_out_open e, mg_out_text := mg_out_text e,
     mg_stdout := mg_stdout e, mg_output_file := mg_output_file e\<rparr>"

lemma put_loop_sel [simp]:
  "mg_client_vec (put_loop e m) = mg_client_vec e" "mg_live (put_loop e m) = mg_live e"
  "mg_next_bev (put_loop e m) = mg_next_bev e" "mg_out_open (put_loop e m) = mg_out_open e"
  "mg_out_text (put_loop e m) = mg_out_text e" "mg_stdout (put_loop e m) = mg_stdout e"
  "mg_writes (put_loop e m) = mg_writes m" "mg_ins (put_loop e m) = mg_ins m"
  "mg_input_file (put_loop e m) = mg_input_file m" "mg_input_format (put_loop e m) = mg_input_format m"
  "mg_client_fd (put_loop e m) = mg_client_fd m" "mg_client_src2fd (put_loop e m) = mg_client_src2fd m"
  "mg_done_sync_time (put_loop e m) = mg_done_sync_time m" "mg_trace_limit (put_loop e m) = mg_trace_limit m"
  "mg_output_file (put_loop e m) = mg_output_file e" "mg_dist (put_loop e m) = mg_dist m"
  "mg_bev_fd (put_loop e m) = mg_bev_fd e" "mg_closed (put_loop e m) = mg_closed e"
  by (simp_all add: put_loop_def)

lemma put_loop_same [simp]: "put_loop m m = m" by (simp add: put_loop_def)

text \<open>
  What the reading thread does on its own it does beside the event thread as well, except that
  its writes fail on the descriptors which the event thread has closed.  \<open>or_closed\<close> relates the
  outcome of a function alone, \<open>y\<close>, with the outcome beside an event thread in state \<open>e\<close>, \<open>x\<close>.
\<close>

abbreviation write_err :: fault where "write_err \<equiv> Exit 1 ''fail to write socket''"

definition or_closed :: "'r manager \<Rightarrow> ('a \<Rightarrow> 'b) \<Rightarrow> 'a result \<Rightarrow> 'b result \<Rightarrow> bool" where
  "or_closed e f y x \<longleftrightarrow> x = map_sum id f y \<or> mg_closed e \<noteq> [] \<and> x = Inl write_err"

abbreviation opens :: "'r manager \<Rightarrow> 'r manager \<Rightarrow> bool" where
  "opens e m \<equiv> set (mg_closed m) \<subseteq> set (mg_closed e)"

lemma or_closedI [intro]: "x = map_sum id f y \<Longrightarrow> or_closed e f y x"
  by (simp add: or_closed_def)

lemma or_closed_bindE:
  assumes "or_closed e f y x" and "\<And>a. y = Inr a \<Longrightarrow> or_closed e g (k a) (h (f a))"
  shows "or_closed e g (bindE y k) (bindE x h)"
  using assms by (cases y) (auto simp: or_closed_def)

lemma write_client_put:
  "opens e m \<Longrightarrow> or_closed e (put_loop e) (write_client wr d m fd) (write_client wr d (put_loop e m) fd)"
  by (cases "write_frame wr fd d (mg_writes m)")
     (auto simp: or_closed_def write_client_def put_loop_def)

lemma write_client_closed: "write_client wr d m fd = Inr m' \<Longrightarrow> mg_closed m' = mg_closed m"
  by (auto simp: write_client_def fault_simps split: if_splits)

lemma broadcast_put:
  assumes "opens e m"
  shows "or_closed e (put_loop e) (broadcast wr m d) (broadcast wr (put_loop e m) d)"
proof -
  have "or_closed e (put_loop e) (foldE (write_client wr d) m fds) (foldE (write_client wr d) (put_loop e m) fds)"
    for fds
    using assms
  proof (induction fds arbitrary: m)
    case (Cons fd fds)
    show ?case
      unfolding foldE.simps
      by (rule or_closed_bindE [OF write_client_put [OF Cons.prems]])
         (use Cons in \<open>simp add: write_client_closed\<close>)
  qed auto
  then show ?thesis by (simp add: broadcast_def)
qed

lemma broadcast_closed: "broadcast wr m d = Inr m' \<Longrightarrow> mg_closed m' = mg_closed m"
  unfolding broadcast_def
  by (rule foldE_invariant [where P = "\<lambda>t. mg_closed t = mg_closed m"]) (auto dest: write_client_closed)

lemma rand_client_fd_put:
  "rand_client_fd (put_loop e m) ip =
   map_sum id (map_prod id (put_loop e)) (rand_client_fd m ip)"
  by (auto simp: rand_client_fd_def draw_fd_def put_loop_def Let_def split: option.splits prod.splits)

lemma forward_put:
  assumes "opens e m"
  shows "or_closed e (put_loop e) (forward wr m ip d) (forward wr (put_loop e m) ip d)"
  unfolding forward_def
proof (rule or_closed_bindE [where f = "map_prod id (put_loop e)"])
  fix r assume "rand_client_fd m (c_str ip) = Inr r"
  then have "opens e (snd r)" using assms by (cases r) (simp add: rand_client_fd_frame(8))
  then show "or_closed e (put_loop e)
      ((\<lambda>(fd, m'). bindE (require (fd \<noteq> -1) (Assertion ''fd != -1'')) (\<lambda>_. write_client wr d m' fd)) r)
      ((\<lambda>(fd, m'). bindE (require (fd \<noteq> -1) (Assertion ''fd != -1'')) (\<lambda>_. write_client wr d m' fd))
        (map_prod id (put_loop e) r))"
    using write_client_put [of "snd r" e wr d "fst r"] by (auto simp: split_beta require_def)
qed (simp add: rand_client_fd_put or_closedI)

lemma forward_closed: "forward wr m ip d = Inr m' \<Longrightarrow> mg_closed m' = mg_closed m"
  by (auto simp: forward_def fault_simps rand_client_fd_frame(8) dest!: write_client_closed)

lemma pace_msg_put: "pace_msg F (put_loop e m) q = map_prod id (put_loop e) (pace_msg F m q)"
  by (simp add: pace_msg_def put_loop_def Let_def)

lemma pace_msg_closed: "pace_msg F m q = (q', m') \<Longrightarrow> mg_closed m' = mg_closed m"
  by (auto simp: pace_msg_def Let_def split: if_splits)

lemma sync_clients_put:
  assumes "opens e m"
  shows "or_closed e (put_loop e) (sync_clients c wr m q) (sync_clients c wr (put_loop e m) q)"
proof -
  have "(put_loop e m)\<lparr>mg_done_sync_time := True\<rparr> = put_loop e (m\<lparr>mg_done_sync_time := True\<rparr>)"
    by (simp add: put_loop_def)
  with broadcast_put [of "m\<lparr>mg_done_sync_time := True\<rparr>" e wr] assms show ?thesis
    by (cases "serialize c (set_sync_time True q)") (auto simp: sync_clients_def)
qed

lemma sync_clients_closed: "sync_clients c wr m q = Inr m' \<Longrightarrow> mg_closed m' = mg_closed m"
  by (auto simp: sync_clients_def fault_simps dest!: broadcast_closed split: if_splits)

text \<open>The same for functions that may wait for ever.\<close>

definition step_or_closed ::
    "'r manager \<Rightarrow> ('a \<Rightarrow> 'b) \<Rightarrow> 'a result option \<Rightarrow> 'b result option \<Rightarrow> bool" where
  "step_or_closed e f y x \<longleftrightarrow>
     x = map_option (map_sum id f) y \<or> mg_closed e \<noteq> [] \<and> x = Some (Inl write_err)"

lemma step_or_closedI [intro]: "x = map_option (map_sum id f) y \<Longrightarrow> step_or_closed e f y x"
  by (simp add: step_or_closed_def)

lemma step_or_closed_Some: "or_closed e f y x \<Longrightarrow> step_or_closed e f (Some y) (Some x)"
  by (auto simp: step_or_closed_def or_closed_def)

definition put_rs :: "'r manager \<Rightarrow> 'r reader_state \<Rightarrow> 'r reader_state" where
  "put_rs e st = st\<lparr>rs_mgr := put_loop e (rs_mgr st)\<rparr>"

lemma input_msg_put:
  assumes "opens e (rs_mgr st)"
  shows "step_or_closed e (put_rs e) (input_msg F c wr now st q) (input_msg F c wr now (put_rs e st) q)"
proof (cases "raw q = []")
  case True
  then show ?thesis by (auto simp: input_msg_def)
next
  case False
  obtain q1 m1 where p: "pace_msg F (rs_mgr st) q = (q1, m1)" by fastforce
  have o1: "opens e m1" using assms pace_msg_closed [OF p] by simp
  from sync_clients_put [OF o1, of c wr q1]
  consider (same) "sync_clients c wr (put_loop e m1) q1 = map_sum id (put_loop e) (sync_clients c wr m1 q1)"
    | (closed) "mg_closed e \<noteq> []" "sync_clients c wr (put_loop e m1) q1 = Inl write_err"
    by (auto simp: or_closed_def)
  then show ?thesis
  proof cases
    case closed
    then show ?thesis
      using False by (simp add: step_or_closed_def input_msg_def put_rs_def pace_msg_put p)
  next
    case same
    show ?thesis
    proof (cases "sync_clients c wr m1 q1")
      case (Inl x)
      with same False show ?thesis
        by (intro step_or_closedI) (simp add: input_msg_def put_rs_def pace_msg_put p)
    next
      case (Inr m2)
      let ?w = "limit_wait F now (dbl_less F (dbl_of_int F 0) (mg_trace_limit m2)) (mg_trace_limit m2)
        (trace_ts F (seconds q1) (microseconds q1)) (rs_pace st)"
      have o2: "opens e m2" using o1 sync_clients_closed [OF Inr] by simp
      show ?thesis
      proof (cases ?w)
        case None
        with Inr same False show ?thesis
          by (intro step_or_closedI) (simp add: input_msg_def put_rs_def pace_msg_put p)
      next
        case (Some ps)
        have "or_closed e (put_rs e)
          (bindE (serialize c (set_sync_time False q1)) (\<lambda>s.
             bindE (forward wr m2 (src_ip q1) s) (\<lambda>m3. Inr \<lparr>rs_mgr = m3, rs_pace = ps\<rparr>)))
          (bindE (serialize c (set_sync_time False q1)) (\<lambda>s.
             bindE (forward wr (put_loop e m2) (src_ip q1) s) (\<lambda>m3. Inr \<lparr>rs_mgr = m3, rs_pace = ps\<rparr>)))"
          by (rule or_closed_bindE [where f = id], simp add: or_closedI sum.map_id0, simp only: id_apply)
             (rule or_closed_bindE [OF forward_put [OF o2]], auto simp: put_rs_def)
        from step_or_closed_Some [OF this] Inr same Some False show ?thesis
          by (simp add: input_msg_def put_rs_def pace_msg_put p)
      qed
    qed
  qed
qed

lemma input_msg_closed:
  assumes "input_msg F c wr now st q = Some (Inr st')"
  shows "mg_closed (rs_mgr st') = mg_closed (rs_mgr st)"
proof -
  obtain q1 m1 where p: "pace_msg F (rs_mgr st) q = (q1, m1)" by fastforce
  then show ?thesis
    using assms pace_msg_closed [OF p]
    by (auto simp: input_msg_def fault_simps dest!: sync_clients_closed forward_closed
        split: if_splits sum.splits option.splits)
qed

definition put_lo :: "'r manager \<Rightarrow> 'r local_state \<Rightarrow> 'r local_state" where
  "put_lo e s = s\<lparr>lo_mgr := put_loop e (lo_mgr s)\<rparr>"

lemma put_lo_sel [simp]:
  "lo_mgr (put_lo e s) = put_loop e (lo_mgr s)" "lo_pace (put_lo e s) = lo_pace s"
  "lo_k (put_lo e s) = lo_k s" "lo_read (put_lo e s) = lo_read s" "lo_loop (put_lo e s) = lo_loop s"
  by (simp_all add: put_lo_def)

lemma read_step_put:
  assumes "opens e (lo_mgr s)"
  shows "step_or_closed e (put_lo e) (read_step F c L rnd wr now s) (read_step F c L rnd wr now (put_lo e s))"
proof (cases "lo_read s")
  case Starting
  then show ?thesis
    by (intro step_or_closedI) (simp add: read_step_def put_lo_def split: option.splits)
next
  case (Reading ins)
  show ?thesis
  proof (cases "get c L (rnd (lo_k s)) ins")
    case (Inl x)
    with Reading show ?thesis by (intro step_or_closedI) (simp add: read_step_def)
  next
    case (Inr r)
    obtain q ins' where r: "r = (q, ins')" by fastforce
    show ?thesis
    proof (cases q)
      case None
      with Reading Inr r show ?thesis
        by (intro step_or_closedI) (simp add: read_step_def put_lo_def put_loop_def)
    next
      case (Some msg)
      let ?st = "\<lparr>rs_mgr = lo_mgr s, rs_pace = lo_pace s\<rparr>"
      have "put_rs e ?st = \<lparr>rs_mgr = put_loop e (lo_mgr s), rs_pace = lo_pace s\<rparr>"
        by (simp add: put_rs_def)
      with input_msg_put [where e = e and st = ?st and F = F and c = c and wr = wr and now = now and q = msg] assms Reading Inr r Some show ?thesis
        by (cases "input_msg F c wr now ?st msg"; cases "the (input_msg F c wr now ?st msg)")
           (auto simp: step_or_closed_def read_step_def put_rs_def put_lo_def)
    qed
  qed
qed (auto simp: read_step_def)

lemma read_step_closed:
  "read_step F c L rnd wr now s = Some (Inr s') \<Longrightarrow> mg_closed (lo_mgr s') = mg_closed (lo_mgr s)"
  by (auto simp: read_step_def fault_simps dest!: input_msg_closed
      split: read_phase.splits if_splits option.splits sum.splits)

text \<open>The event thread works on its own fields only.\<close>

lemma setup_bevs_put:
  "setup_bevs cs (put_loop e m) = map_prod id (\<lambda>e'. put_loop e' m) (setup_bevs cs e)"
proof (induction cs arbitrary: e)
  case (Cons clt cs)
  have "bev_new fd (put_loop e m) = map_prod id (\<lambda>e'. put_loop e' m) (bev_new fd e)" for fd
    by (simp add: bev_new_def put_loop_def)
  with Cons show ?case by (simp add: split_beta)
qed simp

lemma bev_free_put: "bev_free b (put_loop e m) = map_sum id (\<lambda>e'. put_loop e' m) (bev_free b e)"
  by (cases "mg_bev_fd e b") (simp_all add: bev_free_def put_loop_def)

lemma free_all_put:
  "foldE (\<lambda>m clt. free_opt (ct_bev clt) m) (put_loop e m) cs =
   map_sum id (\<lambda>e'. put_loop e' m) (foldE (\<lambda>m clt. free_opt (ct_bev clt) m) e cs)"
proof (induction cs arbitrary: e)
  case (Cons clt cs)
  have "free_opt b (put_loop e m) = map_sum id (\<lambda>e'. put_loop e' m) (free_opt b e)" for b
    by (cases b) (simp_all add: bev_free_put)
  with Cons show ?case by (cases "free_opt (ct_bev clt) e") simp_all
qed simp

lemma loop_setup_put: "loop_setup (put_loop e m) = put_loop (loop_setup e) m"
  by (simp add: loop_setup_def setup_bevs_put split_beta) (simp add: put_loop_def)

lemma loop_cleanup_put: "loop_cleanup (put_loop e m) = map_sum id (\<lambda>e'. put_loop e' m) (loop_cleanup e)"
  by (cases "foldE (\<lambda>m clt. free_opt (ct_bev clt) m) e (mg_client_vec e)")
     (simp_all add: loop_cleanup_def free_all_put, simp add: put_loop_def)

lemma read_client_cb_put: "read_client_cb (put_loop e m) d = put_loop (read_client_cb e d) m"
  by (simp add: read_client_cb_def put_loop_def)

lemma loop_act_put:
  "loop_act a (p, put_loop e m) =
   map_option (map_sum id (\<lambda>(p', e'). (p', put_loop e' m))) (loop_act a (p, e))"
  by (cases "(a, (p, e))" rule: loop_act.cases)
     (auto simp: loop_setup_put loop_cleanup_put read_client_cb_put buf_ev_cb_def bev_free_put bindE_def
       split: sum.splits)

section \<open>Interleavings\<close>

text \<open>The steps of one thread in a schedule.\<close>

abbreviation reader_steps :: "loop_step option list \<Rightarrow> loop_step option list" where
  "reader_steps \<equiv> filter (\<lambda>t. t = None)"

abbreviation loop_steps :: "loop_step option list \<Rightarrow> loop_step option list" where
  "loop_steps \<equiv> filter (\<lambda>t. t \<noteq> None)"

text \<open>Both threads put together again.\<close>

definition join_threads :: "'r local_state \<Rightarrow> 'r local_state \<Rightarrow> 'r local_state" where
  "join_threads r l = r\<lparr>lo_mgr := put_loop (lo_mgr l) (lo_mgr r), lo_loop := lo_loop l\<rparr>"

lemma join_threads_same [simp]: "join_threads s s = s" by (simp add: join_threads_def)

lemma local_step_reader:
  assumes "opens (lo_mgr l) (lo_mgr r)"
  shows "step_or_closed (lo_mgr l) (\<lambda>r'. join_threads r' l)
     (local_step F c L rnd wr now None r) (local_step F c L rnd wr now None (join_threads r l))"
proof -
  have j: "join_threads x l = put_lo (lo_mgr l) (x\<lparr>lo_loop := lo_loop l\<rparr>)" for x
    by (simp add: join_threads_def put_lo_def)
  have p: "read_step F c L rnd wr now (r\<lparr>lo_loop := lo_loop l\<rparr>) =
      map_option (map_sum id (\<lambda>y. y\<lparr>lo_loop := lo_loop l\<rparr>)) (read_step F c L rnd wr now r)"
    by (auto simp: read_step_def bindE_def option.map_comp o_def intro!: option.map_cong
        split: read_phase.splits sum.splits option.splits)
  from read_step_put [where s = "r\<lparr>lo_loop := lo_loop l\<rparr>" and e = "lo_mgr l" and F = F and c = c
      and L = L and rnd = rnd and wr = wr and now = now] assms
  show ?thesis
    by (simp add: step_or_closed_def local_step_def j p option.map_comp sum.map_comp o_def id_def)
qed

lemma local_step_reader_cases:
  assumes "local_step F c L rnd wr now None (join_threads r l) = Some y" and "opens (lo_mgr l) (lo_mgr r)"
  obtains r1 where "local_step F c L rnd wr now None r = Some (Inr r1)" "y = Inr (join_threads r1 l)"
      "opens (lo_mgr l) (lo_mgr r1)"
    | x where "local_step F c L rnd wr now None r = Some (Inl x)" "y = Inl x"
    | "y = Inl write_err" "mg_closed (lo_mgr l) \<noteq> []"
proof -
  have "local_step F c L rnd wr now None r = Some (Inr r1) \<Longrightarrow> opens (lo_mgr l) (lo_mgr r1)" for r1
    using read_step_closed assms(2) by (fastforce simp: local_step_def)
  moreover note local_step_reader [OF assms(2), of F c L rnd wr now, unfolded step_or_closed_def assms(1)]
  ultimately show thesis
    using that by (cases "local_step F c L rnd wr now None r"; cases "the (local_step F c L rnd wr now None r)") auto
qed

lemma local_step_loop:
  "local_step F c L rnd wr now (Some a) (join_threads r l) =
   map_option (map_sum id (join_threads r)) (local_step F c L rnd wr now (Some a) l)"
  by (cases "loop_act a (lo_loop l, lo_mgr l)")
     (auto simp: local_step_def join_threads_def loop_act_put bindE_def split: sum.splits)

lemma local_exec_Cons:
  "local_exec F c L rnd wr now (t # ts) s = Some y \<longleftrightarrow>
   (\<exists>x. local_step F c L rnd wr now t s = Some (Inl x) \<and> y = Inl x) \<or>
   (\<exists>s1. local_step F c L rnd wr now t s = Some (Inr s1) \<and>
      local_exec F c L rnd wr now ts s1 = Some y)"
  by (auto split: option.splits sum.splits)

lemma map_sum_eq:
  "map_sum f g x = Inr b \<longleftrightarrow> (\<exists>a. x = Inr a \<and> b = g a)"
  "map_sum f g x = Inl d \<longleftrightarrow> (\<exists>a. x = Inl a \<and> d = f a)"
  by (cases x; auto)+

lemmas exec_simps = local_exec_Cons local_step_loop map_sum_eq

lemma bev_free_closed: "bev_free b m = Inr m' \<Longrightarrow> set (mg_closed m) \<subseteq> set (mg_closed m')"
  by (auto simp: bev_free_def split: if_splits option.splits)

lemma free_all_closed:
  assumes "foldE (\<lambda>m clt. free_opt (ct_bev clt) m) m cs = Inr m'"
  shows "set (mg_closed m) \<subseteq> set (mg_closed m')"
  using assms
proof (induction cs arbitrary: m)
  case (Cons clt cs)
  then obtain b m1 where "ct_bev clt = Some b" "bev_free b m = Inr m1"
    "foldE (\<lambda>m clt. free_opt (ct_bev clt) m) m1 cs = Inr m'"
    by (cases "ct_bev clt") (auto simp: fault_simps)
  with Cons.IH [of m1] bev_free_closed [of b m m1] show ?case by simp
qed simp

lemma loop_setup_closed: "mg_closed (loop_setup m) = mg_closed m"
proof -
  obtain cs m1 where "setup_bevs (mg_client_vec m) m = (cs, m1)" by fastforce
  with setup_bevs_spec [OF this] show ?thesis by (simp add: loop_setup_def)
qed

text \<open>The steps of the event thread that close a worker's descriptor.\<close>

fun closes_worker :: "loop_step option \<Rightarrow> bool" where
  "closes_worker (Some (Worker_event b w)) \<longleftrightarrow> w AND BEV_EVENT_CONNECTED = 0 \<and>
     w AND (BEV_EVENT_EOF OR BEV_EVENT_ERROR OR BEV_EVENT_TIMEOUT) \<noteq> 0"
| "closes_worker (Some Loop_end) \<longleftrightarrow> True"
| "closes_worker _ \<longleftrightarrow> False"

lemma loop_act_closed:
  assumes "loop_act a (p, m) = Some (Inr (p', m'))"
  shows "set (mg_closed m) \<subseteq> set (mg_closed m')"
    and "\<not> closes_worker (Some a) \<Longrightarrow> mg_closed m' = mg_closed m"
proof -
  have cb: "mg_closed (read_client_cb x d) = mg_closed x" for x :: "'a manager" and d
    by (simp add: read_client_cb_def)
  have ev: "buf_ev_cb b w x = Inr x' \<Longrightarrow> set (mg_closed x) \<subseteq> set (mg_closed x')" for b w
    and x x' :: "'a manager"
    using bev_free_closed by (auto simp: buf_ev_cb_def split: if_splits)
  have cl: "loop_cleanup x = Inr x' \<Longrightarrow> set (mg_closed x) \<subseteq> set (mg_closed x')" for x x' :: "'a manager"
    by (auto simp: loop_cleanup_def fault_simps dest: subsetD [OF free_all_closed])
  show "set (mg_closed m) \<subseteq> set (mg_closed m')"
    using assms
    by (cases "(a, (p, m))" rule: loop_act.cases)
       (auto simp: loop_setup_closed cb fault_simps dest: subsetD [OF ev] subsetD [OF cl] split: if_splits)
  show "\<not> closes_worker (Some a) \<Longrightarrow> mg_closed m' = mg_closed m"
    using assms
    by (cases "(a, (p, m))" rule: loop_act.cases)
       (auto simp: loop_setup_closed cb buf_ev_cb_def split: if_splits)
qed

lemma local_step_act:
  "local_step F c L rnd wr now (Some a) l = Some (Inr l') \<Longrightarrow>
   loop_act a (lo_loop l, lo_mgr l) = Some (Inr (lo_loop l', lo_mgr l'))"
  by (auto simp: local_step_def fault_simps)

lemmas loop_step_closed = loop_act_closed(1) [OF local_step_act]

lemma interleaving_splits_opens:
  assumes "local_exec F c L rnd wr now ts (join_threads r l) = Some (Inr s)"
    and "opens (lo_mgr l) (lo_mgr r)"
  shows "\<exists>r' l'. local_exec F c L rnd wr now (reader_steps ts) r = Some (Inr r') \<and>
     local_exec F c L rnd wr now (loop_steps ts) l = Some (Inr l') \<and> s = join_threads r' l' \<and>
     opens (lo_mgr l') (lo_mgr r')"
  using assms
proof (induction ts arbitrary: r l)
  case Nil
  then show ?case by auto
next
  case (Cons t ts)
  show ?case
  proof (cases t)
    case None
    with Cons.prems(1) obtain s1 where s1: "local_step F c L rnd wr now None (join_threads r l) = Some (Inr s1)"
      "local_exec F c L rnd wr now ts s1 = Some (Inr s)"
      by (auto simp: exec_simps simp del: local_exec.simps)
    from s1(1) Cons.prems(2) obtain r1 where "local_step F c L rnd wr now None r = Some (Inr r1)"
      "s1 = join_threads r1 l" "opens (lo_mgr l) (lo_mgr r1)"
      by (rule local_step_reader_cases) auto
    with Cons.IH [of r1 l] None s1(2) show ?thesis by auto
  next
    case (Some a)
    with Cons.prems obtain l1 where l1: "local_step F c L rnd wr now (Some a) l = Some (Inr l1)"
      "local_exec F c L rnd wr now ts (join_threads r l1) = Some (Inr s)"
      by (auto simp: exec_simps simp del: local_exec.simps)
    then have "opens (lo_mgr l1) (lo_mgr r)" using loop_step_closed [OF l1(1)] Cons.prems(2) by blast
    with Cons.IH [of r l1] Some l1 show ?thesis by auto
  qed
qed

lemma interleaving_splits:
  assumes "local_exec F c L rnd wr now ts s0 = Some (Inr s)"
  obtains r l where "local_exec F c L rnd wr now (reader_steps ts) s0 = Some (Inr r)"
    "local_exec F c L rnd wr now (loop_steps ts) s0 = Some (Inr l)" "s = join_threads r l"
    "opens (lo_mgr l) (lo_mgr r)"
  using interleaving_splits_opens [of F c L rnd wr now ts s0 s0 s] assms by auto

text \<open>
  A failure of an interleaving is the failure of one thread on its own, or of a write of the
  reading thread after the event thread has closed a descriptor.
\<close>

definition write_after_close ::
    "'r dbl \<Rightarrow> pb \<Rightarrow> 'p ldns \<Rightarrow> (nat \<Rightarrow> u16) \<Rightarrow> write_ret \<Rightarrow> (nat \<Rightarrow> 'r) \<Rightarrow> loop_step option list \<Rightarrow>
     'r local_state \<Rightarrow> bool" where
  "write_after_close F c L rnd wr now ts s0 \<longleftrightarrow>
     (\<exists>us vs s. ts = us @ None # vs \<and> local_exec F c L rnd wr now us s0 = Some (Inr s) \<and>
        mg_closed (lo_mgr s) \<noteq> [] \<and>
        local_step F c L rnd wr now None s = Some (Inl write_err))"

lemma write_after_close_Cons:
  assumes "local_step F c L rnd wr now t s = Some (Inr s1)" and "write_after_close F c L rnd wr now ts s1"
  shows "write_after_close F c L rnd wr now (t # ts) s"
proof -
  obtain us vs s2 where us: "ts = us @ None # vs" "local_exec F c L rnd wr now us s1 = Some (Inr s2)"
    "mg_closed (lo_mgr s2) \<noteq> []" "local_step F c L rnd wr now None s2 = Some (Inl write_err)"
    using assms(2) by (auto simp: write_after_close_def)
  have "local_exec F c L rnd wr now (t # us) s = Some (Inr s2)" using assms(1) us(2) by simp
  with us show ?thesis unfolding write_after_close_def by (metis append_Cons)
qed

lemma interleaving_fails:
  assumes "local_exec F c L rnd wr now ts (join_threads r l) = Some (Inl x)"
    and "opens (lo_mgr l) (lo_mgr r)"
  shows "local_exec F c L rnd wr now (reader_steps ts) r = Some (Inl x) \<or>
     local_exec F c L rnd wr now (loop_steps ts) l = Some (Inl x) \<or>
     x = write_err \<and> write_after_close F c L rnd wr now ts (join_threads r l)"
  using assms
proof (induction ts arbitrary: r l)
  case Nil
  then show ?case by simp
next
  case (Cons t ts)
  show ?case
  proof (cases t)
    case None
    from Cons.prems(1) None obtain y where y: "local_step F c L rnd wr now None (join_threads r l) = Some y"
      by (auto simp: local_exec_Cons simp del: local_exec.simps)
    from y Cons.prems(2) show ?thesis
    proof (cases rule: local_step_reader_cases)
      case (1 r1)
      with y Cons.prems(1) None have "local_exec F c L rnd wr now ts (join_threads r1 l) = Some (Inl x)" by simp
      from Cons.IH [OF this 1(3)] 1 y None show ?thesis by (auto intro: write_after_close_Cons)
    next
      case (2 x')
      with y Cons.prems(1) None show ?thesis by simp
    next
      case 3
      then have "write_after_close F c L rnd wr now (None # ts) (join_threads r l)"
        unfolding write_after_close_def using y
        by (intro exI [of _ "[]"] exI [of _ ts] exI [of _ "join_threads r l"]) (simp add: join_threads_def)
      moreover have "x = write_err" using 3 y Cons.prems(1) None by simp
      ultimately show ?thesis using None by simp
    qed
  next
    case (Some a)
    from Cons.prems(1) Some consider
        "local_step F c L rnd wr now (Some a) l = Some (Inl x)"
      | l1 where "local_step F c L rnd wr now (Some a) l = Some (Inr l1)"
          "local_exec F c L rnd wr now ts (join_threads r l1) = Some (Inl x)"
      by (auto simp: exec_simps simp del: local_exec.simps)
    then show ?thesis
    proof cases
      case 1
      with Some show ?thesis by simp
    next
      case 2
      have "opens (lo_mgr l1) (lo_mgr r)" using loop_step_closed [OF 2(1)] Cons.prems(2) by blast
      from Cons.IH [OF 2(2) this] 2(1) Some show ?thesis
        by (auto intro!: write_after_close_Cons simp: local_step_loop)
    qed
  qed
qed

text \<open>The reading thread on its own is \<open>read_input_file\<close>.\<close>

lemma reading_alone:
  assumes "local_exec F c L rnd wr now (replicate n None) s = Some (Inr s')"
    and "lo_read s = Reading ins" and "lo_read s' = Read_done"
  shows "\<exists>ps. input_loop F c L rnd wr now (lo_k s) ins \<lparr>rs_mgr = lo_mgr s, rs_pace = lo_pace s\<rparr> =
     Some (Inr \<lparr>rs_mgr = lo_mgr s', rs_pace = ps\<rparr>)"
  using assms
proof (induction n arbitrary: s ins)
  case 0
  then show ?case by simp
next
  case (Suc n)
  then obtain s1 where s1: "read_step F c L rnd wr now s = Some (Inr s1)"
    "local_exec F c L rnd wr now (replicate n None) s1 = Some (Inr s')"
    by (auto simp: local_step_def split: option.splits sum.splits)
  obtain q ins' where g: "get c L (rnd (lo_k s)) ins = Inr (q, ins')"
    using s1(1) Suc.prems(2) by (auto simp: read_step_def split: sum.splits)
  show ?case
  proof (cases q)
    case None
    with s1 g Suc.prems(2) have "s1 = s\<lparr>lo_mgr := (lo_mgr s)\<lparr>mg_ins := Some ins'\<rparr>, lo_read := Read_done\<rparr>"
      by (simp add: read_step_def)
    moreover from this s1(2) have "s' = s1"
      by (cases n) (auto simp: local_step_def read_step_def)
    ultimately show ?thesis using g None by (subst input_loop.simps) simp
  next
    case (Some msg)
    then obtain st where "input_msg F c wr now \<lparr>rs_mgr = lo_mgr s, rs_pace = lo_pace s\<rparr> msg = Some (Inr st)"
      "s1 = s\<lparr>lo_mgr := rs_mgr st, lo_pace := rs_pace st, lo_k := Suc (lo_k s), lo_read := Reading ins'\<rparr>"
      using s1(1) g Suc.prems(2) by (auto simp: read_step_def fault_simps)
    with Suc.IH [OF s1(2), of ins'] Suc.prems(3) g Some show ?thesis
      by (cases st) (subst input_loop.simps, simp)
  qed
qed

lemma reader_alone:
  assumes "local_exec F c L rnd wr now (reader_steps ts) (local_start F m) = Some (Inr s)"
    and "lo_read s = Read_done"
  shows "read_input_file F c L rnd wr now m = Some (Inr (lo_mgr s))"
proof -
  have "reader_steps ts = replicate (length (reader_steps ts)) None"
    by (induction ts) auto
  moreover from this have "length (reader_steps ts) \<noteq> 0"
    using assms by (auto simp: local_start_def)
  ultimately obtain n where n: "reader_steps ts = None # replicate n None"
    by (metis not0_implies_Suc replicate_Suc)
  obtain ins where m: "mg_input_file m \<noteq> []" "input_src_map (mg_input_format m) \<noteq> None"
    "mg_ins m = Some ins"
    "local_exec F c L rnd wr now (replicate n None) ((local_start F m)\<lparr>lo_read := Reading ins\<rparr>) = Some (Inr s)"
    using assms(1) unfolding n
    by (auto simp: local_exec_Cons local_step_def read_step_def local_start_def
        simp del: local_exec.simps split: if_splits option.splits)
  from reading_alone [OF m(4), of ins] assms(2) obtain ps where
    "input_loop F c L rnd wr now 0 ins \<lparr>rs_mgr = m, rs_pace = pace_init F\<rparr> =
     Some (Inr \<lparr>rs_mgr = lo_mgr s, rs_pace = ps\<rparr>)"
    by (auto simp: local_start_def)
  with m show ?thesis by (simp add: read_input_file_def)
qed

text \<open>The event thread on its own is \<open>main_event_loop\<close> with the events of the schedule.\<close>

definition worker_events :: "loop_step option list \<Rightarrow> mgr_event list" where
  "worker_events ts = concat (map (\<lambda>t. case t of None \<Rightarrow> [] | Some a \<Rightarrow> worker_event a) ts)"

lemma dispatching_alone:
  assumes "local_exec F c L rnd wr now ts s = Some (Inr s')" and "\<forall>t \<in> set ts. t \<noteq> None"
    and "lo_loop s = Dispatching" and "lo_loop s' = Loop_done"
  shows "bindE (foldE (mgr_handle c wr) (lo_mgr s) (worker_events ts)) loop_cleanup = Inr (lo_mgr s')"
  using assms
proof (induction ts arbitrary: s)
  case Nil
  then show ?case by simp
next
  case (Cons t ts)
  then obtain a s1 where t: "t = Some a" and st: "local_step F c L rnd wr now (Some a) s = Some (Inr s1)"
    and ex: "local_exec F c L rnd wr now ts s1 = Some (Inr s')"
    by (auto simp: local_exec_Cons simp del: local_exec.simps)
  show ?case
  proof (cases "a = Loop_end")
    case True
    with st Cons.prems(3) have c: "loop_cleanup (lo_mgr s) = Inr (lo_mgr s1)" "lo_loop s1 = Loop_done"
      by (auto simp: local_step_def fault_simps)
    have "ts = []"
    proof (rule ccontr)
      assume "ts \<noteq> []"
      then obtain a' ts' where "ts = Some a' # ts'" using Cons.prems(2) by (cases ts) auto
      with ex c(2) show False by (cases a') (auto simp: local_step_def)
    qed
    with ex c t True show ?thesis by (simp add: worker_events_def)
  next
    case False
    with st Cons.prems(3) have "\<exists>ev. worker_event a = [ev] \<and>
        mgr_handle c wr (lo_mgr s) ev = Inr (lo_mgr s1) \<and> lo_loop s1 = Dispatching"
      by (cases a) (auto simp: local_step_def fault_simps split: if_splits)
    with Cons.IH [OF ex] Cons.prems(2,4) t show ?thesis by (auto simp: worker_events_def)
  qed
qed

lemma worker_event_keeps_dist:
  assumes "ev \<in> set (worker_events ts)" and "mgr_handle c wr m ev = Inr m'"
  shows "mg_dist m' = mg_dist m"
proof -
  obtain a where "ev \<in> set (worker_event a)" using assms(1) by (auto simp: worker_events_def split: option.splits)
  with assms(2) show ?thesis
    by (cases a) (auto simp: read_client_cb_def buf_ev_cb_def bev_free_def split: if_splits)
qed

lemma worker_events_keep_dist:
  assumes "foldE (mgr_handle c wr) m (worker_events ts) = Inr m'"
  shows "mg_dist m' = mg_dist m"
  by (rule foldE_invariant [OF assms, where P = "\<lambda>t. mg_dist t = mg_dist m"])
     (auto dest: worker_event_keeps_dist)

lemma loop_alone:
  assumes "local_exec F c L rnd wr now (loop_steps ts) (local_start F m) = Some (Inr s)"
    and "lo_loop s = Loop_done" and "\<not> mg_dist m"
  shows "main_event_loop c wr ok (worker_events ts) m = Inr (lo_mgr s)"
proof -
  have ne: "loop_steps ts \<noteq> []" using assms(1,2) by (auto simp: local_start_def)
  then obtain t ts' where ts': "loop_steps ts = t # ts'" by (cases "loop_steps ts") auto
  then have "t \<in> set (loop_steps ts)" by simp
  then obtain a where a: "t = Some a" by auto
  with assms(1) ts' have "a = Loop_setup" and
    ex: "local_exec F c L rnd wr now ts' ((local_start F m)\<lparr>lo_mgr := loop_setup m, lo_loop := Dispatching\<rparr>)
      = Some (Inr s)"
    by (cases a; simp add: local_step_def local_start_def)+
  have "set ts' \<subseteq> set (loop_steps ts)" using ts' by auto
  then have "\<forall>t \<in> set ts'. t \<noteq> None" by auto
  from dispatching_alone [OF ex this] assms(2)
  have d: "bindE (foldE (mgr_handle c wr) (loop_setup m) (worker_events ts')) loop_cleanup = Inr (lo_mgr s)"
    by simp
  have "worker_events ts = worker_events (loop_steps ts)"
    by (induction ts) (auto simp: worker_events_def)
  then have ev: "worker_events ts = worker_events ts'"
    using ts' a \<open>a = Loop_setup\<close> by (simp add: worker_events_def)
  obtain cs m1 where s: "setup_bevs (mg_client_vec m) m = (cs, m1)" by fastforce
  then have dist: "\<not> mg_dist (loop_setup m)" "\<not> mg_dist m1"
    using setup_bevs_spec [OF s] assms(3) by (auto simp: loop_setup_def)
  from d obtain m4 where "foldE (mgr_handle c wr) (loop_setup m) (worker_events ts) = Inr m4"
    "loop_cleanup m4 = Inr (lo_mgr s)"
    by (auto simp: ev bindE_eq_Inr)
  with dist s worker_events_keep_dist [OF this(1)] show ?thesis
    by (simp add: main_event_loop_def loop_setup_def loop_cleanup_def)
qed

text \<open>From any state the reading thread can be run to its end, whatever the other thread did.\<close>

lemma reading_prefix:
  assumes "local_exec F c L rnd wr now (replicate n None) s = Some (Inr s')"
    and "lo_read s = Reading ins" and "lo_read s' = Reading ins'"
  shows "input_loop F c L rnd wr now (lo_k s) ins \<lparr>rs_mgr = lo_mgr s, rs_pace = lo_pace s\<rparr> =
     input_loop F c L rnd wr now (lo_k s') ins' \<lparr>rs_mgr = lo_mgr s', rs_pace = lo_pace s'\<rparr>"
  using assms
proof (induction n arbitrary: s ins)
  case 0
  then show ?case by simp
next
  case (Suc n)
  then obtain s1 where s1: "read_step F c L rnd wr now s = Some (Inr s1)"
    "local_exec F c L rnd wr now (replicate n None) s1 = Some (Inr s')"
    by (auto simp: local_exec_Cons local_step_def simp del: local_exec.simps)
  obtain q ins1 where g: "get c L (rnd (lo_k s)) ins = Inr (q, ins1)"
    using s1(1) Suc.prems(2) by (auto simp: read_step_def split: sum.splits)
  have "q \<noteq> None"
  proof
    assume "q = None"
    with s1 g Suc.prems(2) have "lo_read s1 = Read_done" by (auto simp: read_step_def)
    with s1(2) have "s' = s1" by (cases n) (auto simp: local_step_def read_step_def)
    with \<open>lo_read s1 = Read_done\<close> Suc.prems(3) show False by simp
  qed
  then obtain msg st where "q = Some msg"
    "input_msg F c wr now \<lparr>rs_mgr = lo_mgr s, rs_pace = lo_pace s\<rparr> msg = Some (Inr st)"
    "s1 = s\<lparr>lo_mgr := rs_mgr st, lo_pace := rs_pace st, lo_k := Suc (lo_k s), lo_read := Reading ins1\<rparr>"
    using s1(1) g Suc.prems(2) by (auto simp: read_step_def fault_simps)
  with Suc.IH [OF s1(2), of ins1] Suc.prems(3) g show ?case
    by (cases st) (subst input_loop.simps, simp)
qed

lemma reading_finishes:
  assumes "input_loop F c L rnd wr now k ins st = Some (Inr st')"
    and "lo_k s = k" "lo_read s = Reading ins" "lo_mgr s = rs_mgr st" "lo_pace s = rs_pace st"
  shows "\<exists>n s'. local_exec F c L rnd wr now (replicate n None) s = Some (Inr s') \<and>
     lo_read s' = Read_done"
  using assms
proof (induction F c L rnd wr now k ins st arbitrary: s rule: input_loop.induct)
  case (1 F c L rnd wr now k ins st)
  have st: "\<lparr>rs_mgr = lo_mgr s, rs_pace = lo_pace s\<rparr> = st" using 1(5,6) by simp
  from "1.prems"(1) obtain q ins1 where g: "get c L (rnd k) ins = Inr (q, ins1)"
    by (subst (asm) input_loop.simps) (auto split: sum.splits)
  show ?case
  proof (cases q)
    case None
    with g "1.prems" have "local_exec F c L rnd wr now (replicate 1 None) s =
        Some (Inr (s\<lparr>lo_mgr := (lo_mgr s)\<lparr>mg_ins := Some ins1\<rparr>, lo_read := Read_done\<rparr>))"
      by (simp add: local_step_def read_step_def)
    then show ?thesis by - (intro exI conjI, assumption, simp)
  next
    case (Some msg)
    with g "1.prems"(1) obtain st1 where i: "input_msg F c wr now st msg = Some (Inr st1)"
      "input_loop F c L rnd wr now (Suc k) ins1 st1 = Some (Inr st')"
      by (subst (asm) input_loop.simps) (auto split: option.splits sum.splits)
    let ?s = "s\<lparr>lo_mgr := rs_mgr st1, lo_pace := rs_pace st1, lo_k := Suc k, lo_read := Reading ins1\<rparr>"
    have "local_step F c L rnd wr now None s = Some (Inr ?s)"
      using g Some i(1) "1.prems"(2,3) st by (simp add: local_step_def read_step_def)
    moreover obtain n s' where "local_exec F c L rnd wr now (replicate n None) ?s = Some (Inr s')"
      "lo_read s' = Read_done"
      using "1.IH" [OF g refl Some i(1) refl i(2), of ?s] by auto
    ultimately have "local_exec F c L rnd wr now (replicate (Suc n) None) s = Some (Inr s')" by simp
    with \<open>lo_read s' = Read_done\<close> show ?thesis by blast
  qed
qed

lemma local_exec_append:
  "local_exec F c L rnd wr now (ts @ us) s =
   (case local_exec F c L rnd wr now ts s of
      None \<Rightarrow> None | Some (Inl e) \<Rightarrow> Some (Inl e) | Some (Inr s') \<Rightarrow> local_exec F c L rnd wr now us s')"
  by (induction ts arbitrary: s) (auto split: option.splits sum.splits)

lemma started_stays:
  assumes "local_exec F c L rnd wr now (replicate n None) s = Some (Inr s')" and "lo_read s \<noteq> Starting"
  shows "lo_read s' \<noteq> Starting"
  using assms
proof (induction n arbitrary: s)
  case (Suc n)
  have "read_step F c L rnd wr now s = Some (Inr s1) \<Longrightarrow> lo_read s1 \<noteq> Starting" for s1
    by (auto simp: read_step_def fault_simps split: read_phase.splits if_splits sum.splits option.splits)
  with Suc show ?case
    by (auto simp: local_exec_Cons local_step_def simp del: local_exec.simps)
qed simp

lemma reader_alone_finishes:
  assumes "local_exec F c L rnd wr now (replicate k None) (local_start F m) = Some (Inr r)"
    and "read_input_file F c L rnd wr now m = Some (Inr m')"
  shows "\<exists>n r'. local_exec F c L rnd wr now (replicate n None) r = Some (Inr r') \<and> lo_read r' = Read_done"
proof -
  obtain ins st where i: "mg_input_file m \<noteq> []" "input_src_map (mg_input_format m) \<noteq> None"
    "mg_ins m = Some ins" "input_loop F c L rnd wr now 0 ins \<lparr>rs_mgr = m, rs_pace = pace_init F\<rparr> =
      Some (Inr st)"
    using assms(2) by (auto simp: read_input_file_def fault_simps split: if_splits option.splits)
  let ?s1 = "(local_start F m)\<lparr>lo_read := Reading ins\<rparr>"
  have first: "local_step F c L rnd wr now None (local_start F m) = Some (Inr ?s1)"
    using i(1-3) by (auto simp: local_step_def read_step_def local_start_def)
  show ?thesis
  proof (cases k)
    case 0
    with assms(1) have "r = local_start F m" by simp
    moreover obtain n r' where "local_exec F c L rnd wr now (replicate n None) ?s1 = Some (Inr r')"
      "lo_read r' = Read_done"
      using reading_finishes [OF i(4), of ?s1] by (auto simp: local_start_def)
    ultimately have "local_exec F c L rnd wr now (replicate (Suc n) None) r = Some (Inr r')"
      using first by simp
    with \<open>lo_read r' = Read_done\<close> show ?thesis by blast
  next
    case (Suc n)
    with assms(1) first have ex: "local_exec F c L rnd wr now (replicate n None) ?s1 = Some (Inr r)" by simp
    show ?thesis
    proof (cases "lo_read r")
      case Starting
      with started_stays [OF ex] show ?thesis by simp
    next
      case (Reading ins')
      with reading_prefix [OF ex] i(4) have "input_loop F c L rnd wr now (lo_k r) ins'
          \<lparr>rs_mgr = lo_mgr r, rs_pace = lo_pace r\<rparr> = Some (Inr st)"
        by (simp add: local_start_def)
      from reading_finishes [OF this, of r] Reading show ?thesis by simp
    next
      case Read_done
      then show ?thesis by (intro exI [of _ 0] exI [of _ r]) simp
    qed
  qed
qed

text \<open>Beside the event thread it comes to the same end, or to a write that fails.\<close>

lemma reader_exec_join:
  assumes "local_exec F c L rnd wr now (replicate n None) x = Some (Inr y)" and "opens (lo_mgr l) (lo_mgr x)"
  shows "local_exec F c L rnd wr now (replicate n None) (join_threads x l) = Some (Inr (join_threads y l)) \<or>
     mg_closed (lo_mgr l) \<noteq> [] \<and>
     local_exec F c L rnd wr now (replicate n None) (join_threads x l) = Some (Inl write_err)"
  using assms
proof (induction n arbitrary: x)
  case 0
  then show ?case by simp
next
  case (Suc n)
  from Suc.prems(1) obtain x1 where x1: "local_step F c L rnd wr now None x = Some (Inr x1)"
    "local_exec F c L rnd wr now (replicate n None) x1 = Some (Inr y)"
    by (auto simp: local_exec_Cons simp del: local_exec.simps)
  have "opens (lo_mgr l) (lo_mgr x1)"
    using x1(1) read_step_closed Suc.prems(2) by (fastforce simp: local_step_def)
  note IH = Suc.IH [OF x1(2) this]
  have "local_step F c L rnd wr now None (join_threads x l) = Some (Inr (join_threads x1 l)) \<or>
      mg_closed (lo_mgr l) \<noteq> [] \<and> local_step F c L rnd wr now None (join_threads x l) = Some (Inl write_err)"
    using local_step_reader [OF Suc.prems(2), of F c L rnd wr now] x1(1) by (simp add: step_or_closed_def)
  with IH show ?case by auto
qed

lemma reader_can_finish:
  assumes "local_exec F c L rnd wr now ts (local_start F m) = Some (Inr s)"
    and "read_input_file F c L rnd wr now m = Some (Inr m')"
  shows "\<exists>n. (\<exists>r. local_exec F c L rnd wr now (replicate n None) s = Some (Inr (join_threads r s)) \<and>
        lo_read r = Read_done \<and> lo_mgr r = m') \<or>
     mg_closed (lo_mgr s) \<noteq> [] \<and>
     local_exec F c L rnd wr now (replicate n None) s = Some (Inl write_err)"
proof -
  let ?s0 = "local_start F m"
  from assms(1) obtain r l where r: "local_exec F c L rnd wr now (reader_steps ts) ?s0 = Some (Inr r)"
    and s: "s = join_threads r l" and op: "opens (lo_mgr l) (lo_mgr r)"
    by (rule interleaving_splits)
  have "reader_steps ts = replicate (length (reader_steps ts)) None" by (induction ts) auto
  then obtain n r' where r': "local_exec F c L rnd wr now (replicate n None) r = Some (Inr r')"
    "lo_read r' = Read_done"
    using reader_alone_finishes [OF _ assms(2)] r by metis
  have "local_exec F c L rnd wr now (reader_steps (ts @ replicate n None)) ?s0 = Some (Inr r')"
    using r r'(1) by (simp add: local_exec_append)
  from reader_alone [OF this r'(2)] assms(2) have "lo_mgr r' = m'" by simp
  moreover have "join_threads r' l = join_threads r' s" "mg_closed (lo_mgr s) = mg_closed (lo_mgr l)"
    by (simp_all add: s join_threads_def put_loop_def)
  ultimately show ?thesis using reader_exec_join [OF r'(1) op] r'(2) s by metis
qed

text \<open>A thread that fails on its own is a call that fails.\<close>

lemma reading_fails:
  assumes "local_exec F c L rnd wr now (replicate n None) s = Some (Inl x)" and "lo_read s = Reading ins"
  shows "input_loop F c L rnd wr now (lo_k s) ins \<lparr>rs_mgr = lo_mgr s, rs_pace = lo_pace s\<rparr> = Some (Inl x)"
  using assms
proof (induction n arbitrary: s ins)
  case 0
  then show ?case by simp
next
  case (Suc n)
  show ?case
  proof (cases "get c L (rnd (lo_k s)) ins")
    case (Inl e)
    with Suc.prems show ?thesis by (subst input_loop.simps) (simp add: local_step_def read_step_def)
  next
    case (Inr g)
    obtain q ins' where g: "g = (q, ins')" by fastforce
    show ?thesis
    proof (cases q)
      case None
      with Inr g Suc.prems show ?thesis
        by (cases n) (auto simp: local_step_def read_step_def)
    next
      case (Some msg)
      let ?i = "input_msg F c wr now \<lparr>rs_mgr = lo_mgr s, rs_pace = lo_pace s\<rparr> msg"
      have st: "local_step F c L rnd wr now None s = map_option (\<lambda>r. bindE r (\<lambda>st.
          Inr (s\<lparr>lo_mgr := rs_mgr st, lo_pace := rs_pace st, lo_k := Suc (lo_k s),
                 lo_read := Reading ins'\<rparr>))) ?i"
        using Inr g Some Suc.prems(2) by (simp add: local_step_def read_step_def)
      from Suc.prems(1) st consider "?i = Some (Inl x)"
        | st1 where "?i = Some (Inr st1)" "local_exec F c L rnd wr now (replicate n None)
            (s\<lparr>lo_mgr := rs_mgr st1, lo_pace := rs_pace st1, lo_k := Suc (lo_k s), lo_read := Reading ins'\<rparr>) =
            Some (Inl x)"
        by (cases ?i; cases "the ?i") auto
      then show ?thesis
      proof cases
        case 1
        with Inr g Some show ?thesis by (subst input_loop.simps) simp
      next
        case 2
        from Suc.IH [OF 2(2), of ins'] 2(1) Inr g Some show ?thesis
          by (cases st1) (subst input_loop.simps, simp)
      qed
    qed
  qed
qed

lemma reader_alone_fails:
  assumes "local_exec F c L rnd wr now (reader_steps ts) (local_start F m) = Some (Inl x)"
  shows "read_input_file F c L rnd wr now m = Some (Inl x)"
proof -
  have "reader_steps ts = replicate (length (reader_steps ts)) None" by (induction ts) auto
  moreover from this have "length (reader_steps ts) \<noteq> 0" using assms by auto
  ultimately obtain n where n: "reader_steps ts = None # replicate n None"
    by (metis not0_implies_Suc replicate_Suc)
  show ?thesis
  proof (cases "mg_input_file m = [] \<or> input_src_map (mg_input_format m) = None \<or> mg_ins m = None")
    case True
    with assms show ?thesis
      unfolding n by (auto simp: local_step_def read_step_def local_start_def read_input_file_def)
  next
    case False
    then obtain ins where ins: "mg_ins m = Some ins" by auto
    with assms False have "local_exec F c L rnd wr now (replicate n None)
        ((local_start F m)\<lparr>lo_read := Reading ins\<rparr>) = Some (Inl x)"
      unfolding n by (auto simp: local_step_def read_step_def local_start_def)
    from reading_fails [OF this] have
      "input_loop F c L rnd wr now 0 ins \<lparr>rs_mgr = m, rs_pace = pace_init F\<rparr> = Some (Inl x)"
      by (simp add: local_start_def)
    with False ins show ?thesis by (auto simp: read_input_file_def)
  qed
qed

lemma worker_events_simps [simp]:
  "worker_events [] = []" "worker_events (None # ts) = worker_events ts"
  "worker_events (Some a # ts) = worker_event a @ worker_events ts"
  by (simp_all add: worker_events_def)

lemma dispatching_fails:
  assumes "local_exec F c L rnd wr now ts s = Some (Inl x)" and "\<forall>t \<in> set ts. t \<noteq> None"
    and "lo_loop s = Dispatching"
  shows "\<exists>k. bindE (foldE (mgr_handle c wr) (lo_mgr s) (take k (worker_events ts))) loop_cleanup = Inl x"
  using assms
proof (induction ts arbitrary: s)
  case Nil
  then show ?case by simp
next
  case (Cons t ts)
  then obtain a where t: "t = Some a" by auto
  from Cons.prems(1) t consider "local_step F c L rnd wr now (Some a) s = Some (Inl x)"
    | s1 where "local_step F c L rnd wr now (Some a) s = Some (Inr s1)"
        "local_exec F c L rnd wr now ts s1 = Some (Inl x)"
    by (auto simp: local_exec_Cons simp del: local_exec.simps)
  then show ?case
  proof cases
    case 1
    with Cons.prems(3) have "(worker_event a = [] \<and> loop_cleanup (lo_mgr s) = Inl x) \<or>
        (\<exists>ev. worker_event a = [ev] \<and> mgr_handle c wr (lo_mgr s) ev = Inl x)"
      by (cases a) (auto simp: local_step_def fault_simps split: if_splits)
    then show ?thesis
    proof
      assume "worker_event a = [] \<and> loop_cleanup (lo_mgr s) = Inl x"
      with t show ?thesis by (intro exI [of _ 0]) simp
    next
      assume "\<exists>ev. worker_event a = [ev] \<and> mgr_handle c wr (lo_mgr s) ev = Inl x"
      with t show ?thesis by (intro exI [of _ "Suc 0"]) auto
    qed
  next
    case 2
    have "a \<noteq> Loop_end"
    proof
      assume "a = Loop_end"
      with 2(1) Cons.prems(3) have "lo_loop s1 = Loop_done" by (auto simp: local_step_def fault_simps)
      with 2(2) Cons.prems(2) show False
      proof (cases ts)
        case (Cons t' ts')
        with Cons.prems(2) obtain a' where "t' = Some a'" by auto
        with Cons 2(2) \<open>lo_loop s1 = Loop_done\<close> show False by (cases a') (auto simp: local_step_def)
      qed simp
    qed
    with 2(1) Cons.prems(3) have "\<exists>ev. worker_event a = [ev] \<and>
        mgr_handle c wr (lo_mgr s) ev = Inr (lo_mgr s1) \<and> lo_loop s1 = Dispatching"
      by (cases a) (auto simp: local_step_def fault_simps split: if_splits)
    moreover from this Cons.IH [OF 2(2)] Cons.prems(2) obtain k where
      "bindE (foldE (mgr_handle c wr) (lo_mgr s1) (take k (worker_events ts))) loop_cleanup = Inl x" by auto
    ultimately show ?thesis using t by (intro exI [of _ "Suc k"]) auto
  qed
qed

lemma loop_alone_fails:
  assumes "local_exec F c L rnd wr now (loop_steps ts) (local_start F m) = Some (Inl x)" and "\<not> mg_dist m"
  shows "\<exists>k. main_event_loop c wr ok (take k (worker_events ts)) m = Inl x"
proof -
  have ev: "worker_events (loop_steps ts) = worker_events ts"
    by (induction ts) auto
  have some: "\<forall>t \<in> set (loop_steps ts). t \<noteq> None" by auto
  have "loop_steps ts \<noteq> []" using assms(1) by (metis local_exec.simps(1) option.inject sum.distinct(2))
  then obtain t ts' where ts': "loop_steps ts = t # ts'" by (cases "loop_steps ts") auto
  with some have "t \<noteq> None" by (metis list.set_intros(1))
  then obtain a where a: "t = Some a" by auto
  with assms(1) ts' have su: "a = Loop_setup" and
    ex: "local_exec F c L rnd wr now ts' ((local_start F m)\<lparr>lo_mgr := loop_setup m, lo_loop := Dispatching\<rparr>)
      = Some (Inl x)"
    by (cases a; simp add: local_step_def local_start_def)+
  have "\<forall>t \<in> set ts'. t \<noteq> None" using some unfolding ts' by simp
  from dispatching_fails [OF ex this] obtain k where
    k: "bindE (foldE (mgr_handle c wr) (loop_setup m) (take k (worker_events ts'))) loop_cleanup = Inl x"
    by auto
  have te: "worker_events ts = worker_events ts'" using ev ts' a su by simp
  obtain cs m1 where s: "setup_bevs (mg_client_vec m) m = (cs, m1)" by fastforce
  then have dist: "\<not> mg_dist (loop_setup m)" "\<not> mg_dist m1" "loop_setup m = m1\<lparr>mg_client_vec := cs\<rparr>"
    using setup_bevs_spec [OF s] assms(2) by (auto simp: loop_setup_def)
  show ?thesis
  proof (cases "foldE (mgr_handle c wr) (loop_setup m) (take k (worker_events ts'))")
    case (Inl e)
    with k dist s te show ?thesis by (intro exI [of _ k]) (simp add: main_event_loop_def)
  next
    case (Inr m4)
    have "set (take k (worker_events ts')) \<subseteq> set (worker_events ts')" by (rule set_take_subset)
    then have "mg_dist m4 = mg_dist (loop_setup m)"
      by (intro foldE_invariant [OF Inr, where P = "\<lambda>t. mg_dist t = mg_dist (loop_setup m)"])
         (auto dest!: subsetD worker_event_keeps_dist)
    with k Inr dist s te show ?thesis
      by (intro exI [of _ k]) (simp add: main_event_loop_def loop_cleanup_def)
  qed
qed

text \<open>Two workers, an output file and one message to read.\<close>

definition life_msg :: dnsmsg where
  "life_msg = new_DNSMsg\<lparr>f_raw := Some [1], f_src_ip := Some ''a''\<rparr>"

definition life_pb :: pb where
  "life_pb = table_pb [life_msg, set_sync_time True life_msg, set_sync_time False life_msg]"

definition life_mgr :: "int manager" where
  "life_mgr = foldl add_client
     (Manager_fields int_dbl (Some (raw_source (frame32 [0]))) (\<lambda>k. k) 2 False ''f'' ''raw'' ''o''
        [5, 7] [105, 107] False 0 (-1)) [(0, 5, 105), (1, 7, 107)]"

definition life_wr :: write_ret where
  "life_wr = (\<lambda>n bs. Some (length bs))"

definition life_sched :: "loop_step option list" where
  "life_sched = [None, Some Loop_setup, None, Some (Worker_read 1 [49, 10, 0]), None, Some Loop_end]"

lemma life_run:
  "\<exists>m'. Manager_start int_dbl life_pb header_ldns (\<lambda>_. 0) life_wr int True [] life_sched life_mgr =
     Some (Inr m')"
proof -
  have "(case Manager_start int_dbl life_pb header_ldns (\<lambda>_. 0) life_wr int True [] life_sched life_mgr of
      Some (Inr _) \<Rightarrow> True | _ \<Rightarrow> False)"
    by code_simp
  then show ?thesis by (auto split: option.splits sum.splits)
qed



text \<open>
  The interference is real: when a worker closes its end before the first message is read, the
  reading thread writes to a descriptor that is closed and the process ends.
\<close>

lemma closed_worker_stops_reader:
  "Manager_start int_dbl life_pb header_ldns (\<lambda>_. 0) life_wr int True []
     [None, Some Loop_setup, Some (Worker_event 0 BEV_EVENT_EOF), None] life_mgr =
   Some (Inl (Exit 1 ''fail to write socket''))"
proof -
  have "(case Manager_start int_dbl life_pb header_ldns (\<lambda>_. 0) life_wr int True []
     [None, Some Loop_setup, Some (Worker_event 0 BEV_EVENT_EOF), None] life_mgr of
      Some (Inl (Exit k e)) \<Rightarrow> k = 1 \<and> e = ''fail to write socket'' | _ \<Rightarrow> False)"
    by code_simp
  then show ?thesis by (auto split: option.splits sum.splits fault.splits)
qed

text \<open>As long as no worker has closed and the loop has not ended, no descriptor is closed.\<close>

lemma nothing_closed:
  assumes "local_exec F c L rnd wr now ts s = Some (Inr s')" and "\<forall>t \<in> set ts. \<not> closes_worker t"
  shows "mg_closed (lo_mgr s') = mg_closed (lo_mgr s)"
  using assms
proof (induction ts arbitrary: s)
  case Nil
  then show ?case by simp
next
  case (Cons t ts)
  from Cons.prems(1) obtain s1 where s1: "local_step F c L rnd wr now t s = Some (Inr s1)"
    "local_exec F c L rnd wr now ts s1 = Some (Inr s')"
    by (auto simp: local_exec_Cons simp del: local_exec.simps)
  have "mg_closed (lo_mgr s1) = mg_closed (lo_mgr s)"
  proof (cases t)
    case None
    with s1(1) show ?thesis by (simp add: local_step_def read_step_closed)
  next
    case (Some a)
    with loop_act_closed(2) [OF local_step_act] s1(1) Cons.prems(2) show ?thesis by fastforce
  qed
  with Cons.IH [OF s1(2)] Cons.prems(2) show ?case by simp
qed



section \<open>Releasing what was allocated\<close>

lemma free_all_live:
  assumes "foldE (\<lambda>m clt. free_opt (ct_bev clt) m) m cs = Inr m'"
  shows "Some ` set (mg_live m') = Some ` set (mg_live m) - ct_bev ` set cs \<and>
     mg_client_vec m' = mg_client_vec m"
  using assms
proof (induction cs arbitrary: m)
  case (Cons clt cs)
  then obtain b m1 where b: "ct_bev clt = Some b" "bev_free b m = Inr m1"
    "foldE (\<lambda>m clt. free_opt (ct_bev clt) m) m1 cs = Inr m'"
    by (cases "ct_bev clt") (auto simp: fault_simps)
  then have "mg_live m1 = removeAll b (mg_live m)" "b \<in> set (mg_live m)"
    "mg_client_vec m1 = mg_client_vec m"
    by (auto simp: bev_free_def split: if_splits)
  with Cons.IH [OF b(3)] b(1) show ?case by auto
qed simp

lemma worker_events_live:
  assumes "foldE (mgr_handle c wr) m (worker_events ts) = Inr m'"
  shows "set (mg_live m') \<subseteq> set (mg_live m) \<and> mg_client_vec m' = mg_client_vec m"
proof -
  have "set (mg_live t') \<subseteq> set (mg_live t) \<and> mg_client_vec t' = mg_client_vec t"
    if "ev \<in> set (worker_event a)" "mgr_handle c wr t ev = Inr t'" for a ev and t t' :: "'a manager"
    using that by (cases a) (auto simp: read_client_cb_def buf_ev_cb_def bev_free_def split: if_splits)
  then show ?thesis
    by (intro foldE_invariant [OF assms, where P = "\<lambda>t. set (mg_live t) \<subseteq> set (mg_live m) \<and>
          mg_client_vec t = mg_client_vec m"])
       (fastforce simp: worker_events_def split: option.splits)+
qed

lemma local_loop_releases:
  assumes "main_event_loop c wr ok (worker_events ts) m = Inr e" and "\<not> mg_dist m" and "mg_live m = []"
  shows "mg_live e = [] \<and> \<not> mg_out_open e \<and> (\<forall>clt \<in> set (mg_client_vec e). ct_bev clt = None)"
proof -
  obtain cs m1 where s: "setup_bevs (mg_client_vec m) m = (cs, m1)" by fastforce
  note sp = setup_bevs_spec [OF s]
  from assms(1) s sp assms(2) obtain m4 where
    h: "foldE (mgr_handle c wr) (m1\<lparr>mg_client_vec := cs\<rparr>) (worker_events ts) = Inr m4"
    and r: "bindE (if mg_dist m4 then free_opt (mg_com_bev m4) m4 else Inr m4) (\<lambda>m5.
         bindE (foldE (\<lambda>m clt. free_opt (ct_bev clt) m) m5 (mg_client_vec m5)) (\<lambda>m6.
         Inr (m6\<lparr>mg_client_vec := map (\<lambda>clt. clt\<lparr>ct_bev := None\<rparr>) (mg_client_vec m6),
                 mg_out_open := False\<rparr>))) = Inr e"
    by (auto simp: main_event_loop_def bindE_eq_Inr)
  have "\<not> mg_dist m4" using worker_events_keep_dist [OF h] sp assms(2) by simp
  with r obtain m6 where f: "foldE (\<lambda>m clt. free_opt (ct_bev clt) m) m4 (mg_client_vec m4) = Inr m6"
    and e: "e = m6\<lparr>mg_client_vec := map (\<lambda>clt. clt\<lparr>ct_bev := None\<rparr>) (mg_client_vec m6), mg_out_open := False\<rparr>"
    by (auto simp: bindE_eq_Inr)
  have "ct_bev ` set cs = Some ` {mg_next_bev m..<mg_next_bev m + length (mg_client_vec m)}"
    using arg_cong [OF conjunct1 [OF sp], of set] by simp
  then have "ct_bev ` set cs = Some ` set (mg_live m1)" using sp assms(3) by simp
  moreover note worker_events_live [OF h] free_all_live [OF f]
  ultimately have "Some ` set (mg_live m6) = {}" by auto
  then show ?thesis by (auto simp: e)
qed

lemma clean_up_released:
  assumes "\<forall>clt \<in> set (mg_client_vec m). ct_bev clt = None"
  shows "clean_up m = Inr (m\<lparr>mg_ins := map_option InputSource_destroy (mg_ins m), mg_out_open := False\<rparr>)"
proof -
  have "\<forall>clt \<in> set cs. ct_bev clt = None \<Longrightarrow>
      foldE (\<lambda>m clt. case ct_bev clt of None \<Rightarrow> Inr m | Some b \<Rightarrow> bev_free b m) m cs = Inr m" for cs
    by (induction cs) auto
  from this [OF assms] show ?thesis by (simp add: clean_up_def)
qed

text \<open>
  C16.  A manager that has run in local mode is destroyed without freeing anything twice, and
  every bufferevent allocated during the run was released, the output file closed and the input
  closed, in every interleaving of the two threads.
\<close>

theorem local_life_releases_everything:
  assumes "\<not> mg_dist m" and "mg_live m = []"
    and "Manager_start F c L rnd wr now ok evs ts m = Some (Inr m')"
  shows "\<exists>m''. Manager_destroy m' = Inr m'' \<and> mg_live m'' = [] \<and> \<not> mg_out_open m'' \<and>
     mg_ins m'' = map_option InputSource_destroy (mg_ins m') \<and> mg_out_text m'' = mg_out_text m'"
proof -
  obtain s where s: "local_exec F c L rnd wr now ts (local_start F m) = Some (Inr s)"
    "lo_loop s = Loop_done" "m' = lo_mgr s"
    using assms(1,3) by (auto simp: Manager_start_def split: option.splits sum.splits if_splits)
  obtain r l where l: "local_exec F c L rnd wr now (loop_steps ts) (local_start F m) = Some (Inr l)"
    "s = join_threads r l"
    using interleaving_splits [OF s(1)] by metis
  have "main_event_loop c wr ok (worker_events ts) m = Inr (lo_mgr l)"
    using loop_alone [OF l(1)] s(2) l(2) assms(1) by (simp add: join_threads_def)
  from local_loop_releases [OF this assms(1,2)]
  have "mg_live m' = [] \<and> (\<forall>clt \<in> set (mg_client_vec m'). ct_bev clt = None)"
    using s(3) l(2) by (simp add: join_threads_def)
  then show ?thesis using clean_up_released [of m'] by (simp add: Manager_destroy_def)
qed

theorem local_life_releases_everything_witness:
  "\<exists>m' m''. Manager_start int_dbl life_pb header_ldns (\<lambda>_. 0) life_wr int True [] life_sched life_mgr =
       Some (Inr m') \<and> Manager_destroy m' = Inr m'' \<and> mg_live m'' = [] \<and> \<not> mg_out_open m'' \<and>
     mg_ins m'' = map_option InputSource_destroy (mg_ins m') \<and> mg_out_text m'' = mg_out_text m'"
proof -
  have d: "\<not> mg_dist life_mgr" "mg_live life_mgr = []"
    by (simp_all add: life_mgr_def add_client_def Manager_fields_def)
  obtain m' where m': "Manager_start int_dbl life_pb header_ldns (\<lambda>_. 0) life_wr int True [] life_sched
      life_mgr = Some (Inr m')"
    using life_run by blast
  from local_life_releases_everything [OF d m'] m' show ?thesis by blast
qed

text \<open>
  A fatal error signals every worker once, and ends the process with the message unless a
  worker's bufferevent was freed before: then the clean-up frees it again.
\<close>

lemma fatal_error_terminates_workers:
  "map fst (fst (log_err m msg)) = mg_client_pid m \<and>
   ((\<forall>clt \<in> set (mg_client_vec m). ct_bev clt = None) \<longrightarrow> snd (log_err m msg) = Exit 1 msg)"
  by (auto simp: log_err_def terminate_clients_def clean_up_released comp_def)

end
