(* ===== verification/Manager_Events.thy ===== *)
theory Manager_Events
  imports Manager
begin

text \<open>
  The manager of a client in distributed mode reads from the controller and from its workers.  The
  reports of the workers, which it prints, may arrive at any point between the reads of the
  controller's connection; the lemma \<open>com_reads_among_reports\<close> says that they make no difference to
  what the workers are sent.
\<close>

text \<open>Printing a report is a bystander of the routing.\<close>

interpretation report: bystander "\<lambda>m. read_client_cb m d" for d
  by unfold_locales (simp_all add: read_client_cb_def)

text \<open>The events: reads of the controller's connection \<open>bev\<close>, and reports.\<close>

fun com_or_report :: "nat \<Rightarrow> mgr_event \<Rightarrow> bool" where
  "com_or_report bev (Com_read b d) \<longleftrightarrow> b = bev"
| "com_or_report bev (Client_read b d) \<longleftrightarrow> True"
| "com_or_report bev ev \<longleftrightarrow> False"

fun com_data :: "mgr_event \<Rightarrow> bytes list" where
  "com_data (Com_read b d) = [d]"
| "com_data ev = []"

abbreviation com_reads :: "mgr_event list \<Rightarrow> bytes list" where
  "com_reads evs \<equiv> concat (map com_data evs)"

text \<open>What both kinds of events leave alone.\<close>

lemma com_msg_live: "com_msg c wr m p = Inr m' \<Longrightarrow> mg_live m' = mg_live m"
proof -
  have w: "write_client wr d s fd = Inr s' \<Longrightarrow> mg_live s' = mg_live s" for d fd
    and s s' :: "'a manager"
    by (auto simp: write_client_def fault_simps split: if_splits)
  have "broadcast wr s d = Inr s' \<Longrightarrow> mg_live s' = mg_live s" for d and s s' :: "'a manager"
    unfolding broadcast_def
    by (rule foldE_invariant [where P = "\<lambda>t. mg_live t = mg_live s"]) (auto dest: w)
  moreover have "rand_client_fd s ip = Inr (fd, s') \<Longrightarrow> mg_live s' = mg_live s" for ip fd and s s' :: "'a manager"
    by (auto simp: rand_client_fd_def draw_fd_def Let_def fault_simps split: if_splits option.splits prod.splits)
  then have "forward wr s ip d = Inr s' \<Longrightarrow> mg_live s' = mg_live s" for d ip
    and s s' :: "'a manager"
    by (auto simp: forward_def fault_simps dest!: w)
  moreover assume "com_msg c wr m p = Inr m'"
  ultimately show ?thesis by (fastforce simp: com_msg_def Let_def split: if_splits)
qed

lemma com_read_frame:
  assumes "com_read_cb c wr m bev d = Inr m'"
  shows "mg_live m' = mg_live m \<and> mg_com_bev m' = mg_com_bev m"
proof -
  obtain m1 b where "com_loop c wr (mg_com_msg_buffer m @ d) m = Inr (m1, b)" and m': "m' = m1\<lparr>mg_com_msg_buffer := b\<rparr>"
    using assms by (auto simp: com_read_cb_def fault_simps)
  then obtain ps where "foldE (com_msg c wr) m ps = Inr m1"
    unfolding mgr_loop.loop_foldE by (auto simp: fault_simps)
  then have "mg_live m1 = mg_live m \<and> mg_com_bev m1 = mg_com_bev m"
    by (rule foldE_invariant [where P = "\<lambda>t. mg_live t = mg_live m \<and> mg_com_bev t = mg_com_bev m"])
       (auto dest: com_msg_live com_msg_bev)
  then show ?thesis by (simp add: m')
qed

lemma report_frame [simp]:
  "mg_live (read_client_cb m d) = mg_live m" "mg_com_bev (read_client_cb m d) = mg_com_bev m"
  "mg_com_msg_buffer (read_client_cb m d) = mg_com_msg_buffer m"
  "(read_client_cb m d)\<lparr>mg_com_msg_buffer := b\<rparr> = read_client_cb (m\<lparr>mg_com_msg_buffer := b\<rparr>) d"
  by (simp_all add: read_client_cb_def)

lemma com_read_report:
  "com_read_cb c wr (read_client_cb m d) bev x = bindE (com_read_cb c wr m bev x) (\<lambda>m'. Inr (read_client_cb m' d))"
  by (simp add: com_read_cb_def report.com_loop_by bindE_assoc case_prod_beta)

lemma com_reads_report:
  "foldE (\<lambda>m x. com_read_cb c wr m bev x) (read_client_cb m d) xs =
   bindE (foldE (\<lambda>m x. com_read_cb c wr m bev x) m xs) (\<lambda>m'. Inr (read_client_cb m' d))"
  by (induction xs arbitrary: m) (simp_all add: com_read_report bindE_assoc)

text \<open>
  A run over both kinds of events is the run over the reads alone, followed by the reports; hence
  the workers are sent the same bytes and sources are assigned in the same way.
\<close>

lemma com_reads_among_reports:
  assumes "\<forall>ev \<in> set evs. com_or_report bev ev" and "bev \<in> set (mg_live m)"
    and "foldE (\<lambda>m d. com_read_cb c wr m bev d) m (com_reads evs) = Inr m1"
  shows "\<exists>m'. foldE (mgr_handle c wr) m evs = Inr m' \<and> mg_writes m' = mg_writes m1 \<and>
    mg_client_src2fd m' = mg_client_src2fd m1 \<and> mg_com_msg_buffer m' = mg_com_msg_buffer m1"
  using assms
proof (induction evs arbitrary: m m1)
  case (Cons ev evs)
  have ok: "\<forall>ev \<in> set evs. com_or_report bev ev" using Cons.prems(1) by simp
  consider (com) d where "ev = Com_read bev d" | (rep) b d where "ev = Client_read b d"
    using Cons.prems(1) by (cases ev) auto
  then show ?case
  proof cases
    case com
    then obtain m2 where m2: "com_read_cb c wr m bev d = Inr m2"
      "foldE (\<lambda>m d. com_read_cb c wr m bev d) m2 (com_reads evs) = Inr m1"
      using Cons.prems(3) by (auto simp: fault_simps)
    from Cons.IH [OF ok _ m2(2)] com_read_frame [OF m2(1)] Cons.prems(2) com m2(1) show ?thesis by simp
  next
    case rep
    let ?r = "read_client_cb m1 d"
    have "foldE (\<lambda>m d. com_read_cb c wr m bev d) (read_client_cb m d) (com_reads evs) = Inr ?r"
      using Cons.prems(3) rep by (simp add: com_reads_report)
    from Cons.IH [OF ok _ this] Cons.IH [OF ok Cons.prems(2)] Cons.prems(2,3) rep show ?thesis
      by auto
  qed
qed simp

end
