(* ===== verification/Client_Life.thy ===== *)
theory Client_Life
  imports Client_Props
begin

text \<open>
  The end of a worker's life: the destructor of \<^verbatim>\<open>DNSClient\<close> and the dispatch of the UDP read
  events (\<^verbatim>\<open>client.cc\<close>).  The destructor closes the sockets it finds in the table of read events
  and the unified socket; the lemmas show that these are all the UDP sockets that are open.
\<close>

section \<open>Dispatch of the read events and the destructor\<close>

definition EV_TIMEOUT :: u16 where "EV_TIMEOUT = 1"
definition EV_READ :: u16 where "EV_READ = 2"

text \<open>\<^verbatim>\<open>what\<close> says why the event is active; \<open>data\<close> is what \<^verbatim>\<open>recv\<close> delivers.\<close>

definition server_udp_read_cb_helper ::
    "cenv \<Rightarrow> 'p ldns \<Rightarrow> client \<Rightarrow> int \<Rightarrow> u16 \<Rightarrow> bytes option \<Rightarrow> client result" where
  "server_udp_read_cb_helper E L s fd what data =
     (if what AND EV_READ \<noteq> 0 then server_udp_read_cb E L s fd data
      else if what AND EV_TIMEOUT \<noteq> 0 then Inr (server_udp_read_timeout_cb s fd)
      else Inr s)"

text \<open>\<^verbatim>\<open>close\<close> of a descriptor; one that is not open is refused with an error nobody looks at.\<close>

definition close_fd :: "int \<Rightarrow> client \<Rightarrow> client" where
  "close_fd fd s = s\<lparr>cl_open := removeAll fd (cl_open s)\<rparr>"

text \<open>
  The destructor.  The manager's descriptor, which the release of the bufferevent has closed
  before, and the release of the events are outside the state.
\<close>

definition DNSClient_destroy :: "client \<Rightarrow> client" where
  "DNSClient_destroy s =
     (let s1 = foldl (\<lambda>s fd. close_fd fd s) s (cl_udp_read_event s);
          s2 = (if cl_unified_udp_fd s1 \<noteq> -1 then close_fd (cl_unified_udp_fd s1) s1 else s1)
      in if cl_ssl_ctx s2 then s2\<lparr>cl_ssl_ctx := False\<rparr> else s2)"

text \<open>The two kinds of UDP read events of the event loop are the two cases of the helper.\<close>

lemma udp_events_dispatched:
  "fd \<in> set (cl_udp_read_event s) \<Longrightarrow>
     cl_handle E c L s (Udp_timeout fd) = server_udp_read_cb_helper E L s fd EV_TIMEOUT d"
  "fd \<in> set (cl_udp_read_event s) \<Longrightarrow>
     cl_handle E c L s (Udp_read fd d) = server_udp_read_cb_helper E L s fd EV_READ d"
  by (simp_all add: server_udp_read_cb_helper_def EV_READ_def EV_TIMEOUT_def)

section \<open>The open sockets\<close>

text \<open>
  The open UDP sockets are those with a read event and the unified one; the unified one has no
  entry in the table of read events.
\<close>

definition open_inv :: "client \<Rightarrow> bool" where
  "open_inv s \<longleftrightarrow>
     set (cl_open s) = set (cl_udp_read_event s) \<union> ({cl_unified_udp_fd s} - {-1}) \<and>
     cl_unified_udp_fd s \<notin> set (cl_udp_read_event s)"

text \<open>What the invariant looks at; most operations leave it alone.\<close>

definition socks :: "client \<Rightarrow> int list \<times> int list \<times> int" where
  "socks s = (cl_open s, cl_udp_read_event s, cl_unified_udp_fd s)"

lemma open_inv_socks: "socks s' = socks s \<Longrightarrow> open_inv s \<Longrightarrow> open_inv s'"
  by (simp add: socks_def open_inv_def)

lemma manager_write_socks: "manager_write E m s bs = Inr s' \<Longrightarrow> socks s' = socks s"
  by (auto simp: manager_write_def fault_simps call_eq socks_def split: if_splits)

lemma sendto_manager_socks: "sendto_manager E L s buf len = Inr s' \<Longrightarrow> socks s' = socks s"
  unfolding sendto_manager_def gettimeofday_def Let_def
  by (auto simp: fault_simps socks_def split: option.splits dest!: manager_write_socks)

lemma record_message_time_socks: "record_message_time E L s buf a = Inr s' \<Longrightarrow> socks s' = socks s"
  unfolding record_message_time_def gettimeofday_def Let_def
  by (auto simp: fault_simps socks_def split: if_splits dest!: manager_write_socks)

lemma log_timing_socks: "log_timing E L s buf a = Inr s' \<Longrightarrow> socks s' = socks s"
  by (auto simp: log_timing_def split: if_splits dest: record_message_time_socks)

lemma draw_key_socks: "draw_key E L s q buf = Inr (x, k, s') \<Longrightarrow> socks s' = socks s"
  by (auto simp: draw_key_def fault_simps socks_def)

lemma log_query_socks: "socks (log_query E s q k) = socks s"
  by (simp add: log_query_def gettimeofday_def socks_def)

lemma bev_write_socks: "bev_write E m s b bs = Inr s' \<Longrightarrow> socks s' = socks s"
  by (auto simp: bev_write_def fault_simps call_eq socks_def split: if_splits)

lemma open_conn_socks: "open_conn E s ip = Inr (b, s') \<Longrightarrow> socks s' = socks s"
  by (auto simp: open_conn_def Let_def fault_simps call_eq socks_def split: if_splits)

lemma tcp_connect_socks: "tcp_connect E tls s ip = Inr (b, s') \<Longrightarrow> socks s' = socks s"
  by (erule tcp_connect_cases) (drule open_conn_socks, simp add: socks_def)

lemma send_query_tcp_socks: "send_query_tcp E L tls s msg = Inr s' \<Longrightarrow> socks s' = socks s"
  unfolding send_query_tcp_def Let_def
  by (auto simp: fault_simps log_query_socks split: if_splits option.splits
      dest!: draw_key_socks log_timing_socks tcp_connect_socks bev_write_socks)

lemma udp_socket_open:
  assumes "udp_socket E s ip = Inr (fd, s')" and "open_inv s" and "socket_ok E"
  shows "open_inv s'"
proof (cases "fd = ce_socket E (cl_tick s) (cl_open s) \<and> fd \<noteq> -1 \<and> map_of (cl_src2udpfd s) ip = None \<and>
    cl_socket_unify s AND SOCKET_UNIFY_UDP = 0")
  case False
  then have "s' = s"
    using assms(1) unfolding udp_socket_def Let_def
    by (auto simp: fault_simps split: if_splits option.splits)
  with assms(2) show ?thesis by simp
next
  case True
  have fresh: "fd \<notin> set (cl_open s)" using True assms(3) unfolding socket_ok_def by metis
  have "socks s' = (fd # cl_open s, List.insert fd (cl_udp_read_event s), cl_unified_udp_fd s)"
    using assms(1) True unfolding udp_socket_def Let_def
    by (auto simp: fault_simps call_eq socks_def split: if_splits option.splits)
  with assms(2) fresh True show ?thesis by (auto simp: open_inv_def socks_def)
qed

lemma send_query_udp_open:
  assumes "send_query_udp E L s msg = Inr s'" and "open_inv s" and "socket_ok E"
  shows "open_inv s'"
proof (cases "(of_nat (length (raw msg)) :: u16) = 0")
  case True
  with assms show ?thesis by (simp add: send_query_udp_def)
next
  case False
  with assms(1) obtain buf key s1 fd s2 where
    "draw_key E L s (get_query_rr_str L (query_raw msg)) (query_raw msg) = Inr (buf, key, s1)"
    and u: "udp_socket E s1 (src_ip msg) = Inr (fd, s2)" and "socks s' = socks s2"
    unfolding send_query_udp_def Let_def
    by (auto simp: fault_simps call_eq socks_def log_query_def gettimeofday_def)
  then show ?thesis
    using udp_socket_open [OF u _ assms(3)] open_inv_socks draw_key_socks assms(2) by metis
qed

lemma open_inv_frame [simp]:
  "open_inv (s\<lparr>cl_tick := a\<rparr>) = open_inv s"
  "open_inv (s\<lparr>cl_shift_ts := b\<rparr>) = open_inv s"
  "open_inv (s\<lparr>cl_num_query := c\<rparr>) = open_inv s"
  "open_inv (s\<lparr>cl_num_notimer := d\<rparr>) = open_inv s"
  "open_inv (s\<lparr>cl_msg_buffer := e\<rparr>) = open_inv s"
  "open_inv (s\<lparr>cl_manager_live := f\<rparr>) = open_inv s"
  "open_inv (s\<lparr>cl_start_trace_ts := x, cl_start_real_ts := y\<rparr>) = open_inv s"
  "open_inv (s\<lparr>cl_timers := g, cl_num_pending_event := h\<rparr>) = open_inv s"
  "open_inv (s\<lparr>cl_server_msg_buffer := j\<rparr>) = open_inv s"
  "open_inv (s\<lparr>cl_udp_writes := k\<rparr>) = open_inv s"
  "open_inv (s\<lparr>cl_sent_udp := l\<rparr>) = open_inv s"
  by (simp_all add: open_inv_def)

lemma send_query_tcp_open: "send_query_tcp E L tls s msg = Inr s' \<Longrightarrow> open_inv s \<Longrightarrow> open_inv s'"
  by (blast intro: open_inv_socks dest: send_query_tcp_socks)

lemma send_query_open:
  "send_query E L s msg = Inr s' \<Longrightarrow> open_inv s \<Longrightarrow> socket_ok E \<Longrightarrow> open_inv s'"
  unfolding send_query_def gettimeofday_def Let_def prod.case
  by (auto split: if_splits dest!: send_query_tcp_open send_query_udp_open)

lemma add_timer_open: "add_timer E s tv msg = Inr s' \<Longrightarrow> open_inv s \<Longrightarrow> open_inv s'"
  by (auto simp: add_timer_def fault_simps call_eq Let_def open_inv_def)

lemma schedule_open:
  "schedule E L s t msg = Inr s' \<Longrightarrow> open_inv s \<Longrightarrow> socket_ok E \<Longrightarrow> open_inv s'"
  unfolding schedule_def gettimeofday_def Let_def prod.case
  by (auto simp: send_now_def fault_simps split: if_splits dest: send_query_open add_timer_open)

lemma manager_msg_open:
  "manager_msg E c L s d = Inr s' \<Longrightarrow> open_inv s \<Longrightarrow> socket_ok E \<Longrightarrow> open_inv s'"
  by (auto simp: manager_msg_def sync_clock_def gettimeofday_def count_query_def Let_def
      split: if_splits dest: schedule_open)

lemma manager_read_cb_open:
  assumes "manager_read_cb E c L s d = Inr s'" and "open_inv s" and "socket_ok E"
  shows "open_inv s'"
proof -
  from assms(1) obtain t b ps where "foldE (manager_msg E c L) s ps = Inr t"
    "s' = t\<lparr>cl_msg_buffer := b\<rparr>"
    unfolding manager_read_cb_def cl_loop.loop_foldE by (auto simp: fault_simps)
  moreover from this(1) have "open_inv t"
    using assms(2) by (rule foldE_invariant) (use assms(3) manager_msg_open in blast)
  ultimately show ?thesis by simp
qed

lemma log_timing_open: "log_timing E L s buf a = Inr s' \<Longrightarrow> open_inv s \<Longrightarrow> open_inv s'"
  by (blast intro: open_inv_socks dest: log_timing_socks)

lemma server_udp_write_cb_open:
  "server_udp_write_cb E L s fd msg = Inr s' \<Longrightarrow> open_inv s \<Longrightarrow> open_inv s'"
  by (auto simp: server_udp_write_cb_def fault_simps call_eq dest: log_timing_open)

lemma server_udp_read_cb_open:
  "server_udp_read_cb E L s fd d = Inr s' \<Longrightarrow> open_inv s \<Longrightarrow> open_inv s'"
  by (auto simp: server_udp_read_cb_def Let_def split: if_splits option.splits
      dest: sendto_manager_socks log_timing_socks open_inv_socks)

lemma server_udp_read_timeout_cb_open:
  "open_inv s \<Longrightarrow> open_inv (server_udp_read_timeout_cb s fd)"
  by (auto simp: server_udp_read_timeout_cb_def Let_def open_inv_def split: option.splits)

lemma timing_loop_open:
  assumes "timing_loop E L src b s = Inr (s', r)" and "open_inv s"
  shows "open_inv s'"
proof -
  from assms(1) have "foldE (\<lambda>s p. record_message_time E L s p src) s (fst (deframe step16 b)) = Inr s'"
    unfolding timing.loop_foldE by (auto simp: fault_simps)
  then show ?thesis
    using assms(2) by (rule foldE_invariant) (blast intro: open_inv_socks dest: record_message_time_socks)
qed

lemma server_read_cb_open: "server_read_cb E L s b d = Inr s' \<Longrightarrow> open_inv s \<Longrightarrow> open_inv s'"
  unfolding server_read_cb_def Let_def
  by (auto simp: fault_simps split: if_split_asm dest!: timing_loop_open sendto_manager_socks
      dest: open_inv_socks)

lemma cl_handle_open:
  assumes "cl_handle E c L s ev = Inr s'" and "open_inv s" and "socket_ok E"
  shows "open_inv s'"
proof (cases ev)
  case (Timer_fires i)
  with assms show ?thesis
    by (auto simp: send_query_helper_def split: if_splits prod.splits dest: send_query_open)
next
  case (Udp_writable i)
  with assms show ?thesis
    by (auto simp: server_udp_write_cb_helper_def split: if_splits prod.splits
        dest: server_udp_write_cb_open)
next
  case (Server_event b w)
  with assms show ?thesis
    by (auto simp: server_event_cb_def Let_def open_inv_def split: if_splits)
qed (use assms in \<open>auto simp: manager_event_cb_def Let_def split: if_splits
      dest: manager_read_cb_open server_udp_read_cb_open server_read_cb_open
      intro: server_udp_read_timeout_cb_open\<close>)

lemma start_open:
  assumes "start E c L s evs = Inr s'" and "cl_open s = []" "cl_udp_read_event s = []"
    "cl_unified_udp_fd s = -1" and "socket_ok E"
  shows "open_inv s'"
proof -
  from assms(1) obtain s1 s2 where s1: "start_setup E s = Inr s1"
    and s2: "foldE (cl_handle E c L) s1 evs = Inr s2" and s': "s' = s2\<lparr>cl_manager_live := False\<rparr>"
    by (auto simp: start_def fault_simps split: if_splits)
  have "open_inv s1"
    using s1 assms(2-5) unfolding start_setup_def Let_def
    by (auto simp: open_inv_def fault_simps call_eq split: if_splits)
  then have "open_inv s2"
    by (rule foldE_invariant [OF s2]) (use assms(5) cl_handle_open in blast)
  with s' show ?thesis by simp
qed

lemma close_all:
  "cl_open (foldl (\<lambda>s fd. close_fd fd s) s fds) = filter (\<lambda>fd. fd \<notin> set fds) (cl_open s) \<and>
   cl_unified_udp_fd (foldl (\<lambda>s fd. close_fd fd s) s fds) = cl_unified_udp_fd s"
  by (induction fds arbitrary: s) (auto simp: close_fd_def removeAll_filter_not_eq intro: filter_cong)

lemma destroy_open:
  "cl_open (DNSClient_destroy s) =
   filter (\<lambda>fd. fd \<notin> set (cl_udp_read_event s) \<and> (fd \<noteq> cl_unified_udp_fd s \<or> fd = -1)) (cl_open s)"
proof -
  have "cl_open (close_fd fd s) = filter (\<lambda>x. x \<noteq> fd) (cl_open s)" for fd s
    by (auto simp: close_fd_def removeAll_filter_not_eq intro: filter_cong)
  then show ?thesis
    using close_all [of s "cl_udp_read_event s"]
    by (auto simp: DNSClient_destroy_def Let_def intro!: filter_cong)
qed

text \<open>
  C17.  A worker leaves no UDP socket open: after any sequence of events the destructor finds
  every socket that is open, those of the source addresses and the unified one.
\<close>

theorem worker_leaves_no_socket_open:
  assumes "DNSClient_new inet_aton ct g t s_ip s_port fd unify opt nw = Inr s" and "socket_ok E"
    and "start E c L s evs = Inr s'"
  shows "cl_open (DNSClient_destroy s') = []"
proof -
  have "cl_open s = []" "cl_udp_read_event s = []" "cl_unified_udp_fd s = -1"
    using assms(1) by (auto simp: DNSClient_new_def split: if_splits)
  from start_open [OF assms(3) this assms(2)] show ?thesis
    by (auto simp: destroy_open open_inv_def filter_empty_conv)
qed

definition life_query :: dnsmsg where
  "life_query = demo_query\<lparr>f_seconds := Some 5\<rparr>"

definition life_events :: "cl_event list" where
  "life_events = [Manager_read (frame32 [0] @ frame32 [1]), Udp_writable 0]"

definition life_client :: client where
  "life_client = (demo_client ''udp'' 0)\<lparr>cl_manager_live := False\<rparr>"

definition life_codec :: pb where
  "life_codec = table_pb [set_sync_time True life_query, life_query]"

declare pick_id.simps [code]

lemma life_worker:
  "\<exists>s'. start demo_env life_codec header_ldns life_client life_events = Inr s' \<and> cl_open s' \<noteq> []"
proof -
  have "(case start demo_env life_codec header_ldns life_client life_events of
      Inr s' \<Rightarrow> cl_open s' \<noteq> [] | _ \<Rightarrow> False)"
    by code_simp
  then show ?thesis by (auto split: sum.splits)
qed

theorem worker_leaves_no_socket_open_witness:
  "\<exists>s'. start demo_env life_codec header_ldns life_client life_events = Inr s' \<and> cl_open s' \<noteq> [] \<and>
     cl_open (DNSClient_destroy s') = []"
proof -
  have "''udp'' \<in> conn_set" by (simp add: conn_set_def)
  note n = demo_new(1) [OF this, of 0, folded life_client_def]
  obtain s' where s': "start demo_env life_codec header_ldns life_client life_events = Inr s'"
    "cl_open s' \<noteq> []"
    using life_worker by blast
  from worker_leaves_no_socket_open [OF n demo_socket_ok s'(1)] s' show ?thesis by blast
qed

end
