(* ===== verification/Client_Events.thy ===== *)
theory Client_Events
  imports Client_Props
begin

text \<open>
  The messages of the manager among the other events of a worker.  Reads of the manager's socket
  come between timers, responses and closed connections, and each read delivers any piece of the
  stream.  The lemma \<open>worker_run_framed\<close> says that this does not matter: a run of the event loop is
  a run in which whole messages are handled one by one, in the order the manager wrote them,
  between the same other events in the same order.
\<close>

section \<open>What the other callbacks leave alone\<close>

lemma sendto_manager_buffer [buffer_simps]:
  "sendto_manager E L (s\<lparr>cl_msg_buffer := b\<rparr>) buf n = with_buffer b (sendto_manager E L s buf n)"
proof -
  have upd: "s\<lparr>cl_msg_buffer := b, cl_tick := k, cl_query_table := t\<rparr> =
      s\<lparr>cl_tick := k, cl_query_table := t\<rparr>\<lparr>cl_msg_buffer := b\<rparr>" for k t by simp
  show ?thesis
    unfolding sendto_manager_def gettimeofday_def Let_def prod.case with_buffer_simps
    by (intro bindE_cong refl) (auto simp: upd manager_write_buffer simp del: client.update_convs split: option.splits)
qed

lemma timing_loop_buffer [buffer_simps]:
  "timing_loop E L src x (s\<lparr>cl_msg_buffer := b\<rparr>) =
   bindE (timing_loop E L src x s) (\<lambda>(s', y). Inr (s'\<lparr>cl_msg_buffer := b\<rparr>, y))"
proof (induction E L src x s rule: timing_loop.induct)
  case (1 E L src x s)
  show ?case
    by (subst (1 2) timing_loop.simps)
       (auto simp: buffer_simps bindE_assoc 1 split: option.splits intro!: bindE_cong)
qed

lemma send_query_helper_buffer [buffer_simps]:
  "send_query_helper E L (s\<lparr>cl_msg_buffer := b\<rparr>) i = with_buffer b (send_query_helper E L s i)"
proof -
  have upd: "s\<lparr>cl_msg_buffer := b, cl_timers := t, cl_num_pending_event := n\<rparr> =
      s\<lparr>cl_timers := t, cl_num_pending_event := n\<rparr>\<lparr>cl_msg_buffer := b\<rparr>" for t n by simp
  show ?thesis
    by (simp add: send_query_helper_def upd buffer_simps case_prod_beta del: client.update_convs)
qed

lemma src_of_fd_buffer [simp]: "src_of_fd (s\<lparr>cl_msg_buffer := b\<rparr>) fd = src_of_fd s fd"
  by (simp add: src_of_fd_def)

lemma server_udp_write_buffer [buffer_simps]:
  "server_udp_write_cb_helper E L (s\<lparr>cl_msg_buffer := b\<rparr>) i = with_buffer b (server_udp_write_cb_helper E L s i)"
proof -
  have upd: "s\<lparr>cl_msg_buffer := b, cl_udp_writes := w\<rparr> = s\<lparr>cl_udp_writes := w\<rparr>\<lparr>cl_msg_buffer := b\<rparr>" for w
    by simp
  have "server_udp_write_cb E L (s\<lparr>cl_msg_buffer := b\<rparr>) fd m = with_buffer b (server_udp_write_cb E L s fd m)"
    for s fd m
    by (auto simp: server_udp_write_cb_def buffer_simps bindE_assoc intro!: bindE_cong)
  then show ?thesis
    by (simp add: server_udp_write_cb_helper_def upd case_prod_beta del: client.update_convs)
qed

lemma server_udp_read_buffer [buffer_simps]:
  "server_udp_read_cb E L (s\<lparr>cl_msg_buffer := b\<rparr>) fd d = with_buffer b (server_udp_read_cb E L s fd d)"
  by (simp add: server_udp_read_cb_def buffer_simps Let_def split: option.splits)

lemma server_udp_timeout_buffer [buffer_simps]:
  "server_udp_read_timeout_cb (s\<lparr>cl_msg_buffer := b\<rparr>) fd = (server_udp_read_timeout_cb s fd)\<lparr>cl_msg_buffer := b\<rparr>"
  by (simp add: server_udp_read_timeout_cb_def Let_def split: option.splits)

lemma server_read_buffer [buffer_simps]:
  "server_read_cb E L (s\<lparr>cl_msg_buffer := b\<rparr>) bev d = with_buffer b (server_read_cb E L s bev d)"
proof -
  have upd: "s\<lparr>cl_msg_buffer := b, cl_server_msg_buffer := m\<rparr> =
      s\<lparr>cl_server_msg_buffer := m\<rparr>\<lparr>cl_msg_buffer := b\<rparr>" for s :: client and m by simp
  show ?thesis
    unfolding server_read_cb_def Let_def
    by (auto simp: buffer_simps upd bindE_assoc case_prod_beta simp del: client.update_convs
        split: option.splits intro!: bindE_cong)
qed

lemma server_event_buffer [buffer_simps]:
  "server_event_cb (s\<lparr>cl_msg_buffer := b\<rparr>) bev w = with_buffer b (server_event_cb s bev w)"
  by (simp add: server_event_cb_def Let_def split: option.splits)

text \<open>The events that do not come from the manager.\<close>

fun from_manager :: "cl_event \<Rightarrow> bool" where
  "from_manager (Manager_read d) = True"
| "from_manager (Manager_event w err) = True"
| "from_manager ev = False"

lemma cl_handle_buffer:
  "\<not> from_manager ev \<Longrightarrow> cl_handle E c L (s\<lparr>cl_msg_buffer := b\<rparr>) ev = with_buffer b (cl_handle E c L s ev)"
  by (cases ev) (simp_all add: buffer_simps)

section \<open>The manager's connection\<close>

named_theorems live_dest \<open>operations that keep the manager's connection\<close>

lemma manager_write_live [live_dest]:
  "manager_write E m s bs = Inr s' \<Longrightarrow> cl_manager_live s' = cl_manager_live s"
  by (auto simp: manager_write_def fault_simps call_eq split: if_splits)

lemma sendto_manager_live [live_dest]:
  "sendto_manager E L s buf n = Inr s' \<Longrightarrow> cl_manager_live s' = cl_manager_live s"
  unfolding sendto_manager_def gettimeofday_def Let_def
  by (auto simp: fault_simps split: option.splits dest!: manager_write_live)

lemma record_message_time_live [live_dest]:
  "record_message_time E L s buf a = Inr s' \<Longrightarrow> cl_manager_live s' = cl_manager_live s"
  unfolding record_message_time_def gettimeofday_def Let_def
  by (auto simp: fault_simps split: if_splits dest!: manager_write_live)

lemma log_timing_live [live_dest]:
  "log_timing E L s buf a = Inr s' \<Longrightarrow> cl_manager_live s' = cl_manager_live s"
  by (auto simp: log_timing_def split: if_splits dest: record_message_time_live)

lemma draw_key_live [live_dest]:
  "draw_key E L s q buf = Inr (x, k, s') \<Longrightarrow> cl_manager_live s' = cl_manager_live s"
  by (auto simp: draw_key_def fault_simps)

lemma log_query_live [simp]: "cl_manager_live (log_query E s q k) = cl_manager_live s"
  by (simp add: log_query_def gettimeofday_def)

lemma call_live [live_dest]: "call E m s = Inr s' \<Longrightarrow> cl_manager_live s' = cl_manager_live s"
  by (auto simp: call_eq)

lemma bev_write_live [live_dest]:
  "bev_write E m s b bs = Inr s' \<Longrightarrow> cl_manager_live s' = cl_manager_live s"
  by (auto simp: bev_write_def fault_simps call_eq split: if_splits)

lemma tcp_connect_live [live_dest]:
  "tcp_connect E tls s ip = Inr (b, s') \<Longrightarrow> cl_manager_live s' = cl_manager_live s"
  by (erule tcp_connect_cases)
     (auto simp: open_conn_def Let_def fault_simps call_eq split: if_splits)

lemma udp_socket_live [live_dest]:
  "udp_socket E s ip = Inr (fd, s') \<Longrightarrow> cl_manager_live s' = cl_manager_live s"
  unfolding udp_socket_def Let_def
  by (auto simp: fault_simps call_eq split: if_splits option.splits)

lemma send_query_tcp_live [live_dest]:
  "send_query_tcp E L tls s m = Inr s' \<Longrightarrow> cl_manager_live s' = cl_manager_live s"
  unfolding send_query_tcp_def Let_def
  by (auto simp: fault_simps split: if_splits option.splits dest!: live_dest)

lemma send_query_udp_live [live_dest]:
  "send_query_udp E L s m = Inr s' \<Longrightarrow> cl_manager_live s' = cl_manager_live s"
  unfolding send_query_udp_def Let_def
  by (auto simp: fault_simps split: if_splits dest!: live_dest)

lemma send_query_live [live_dest]:
  "send_query E L s m = Inr s' \<Longrightarrow> cl_manager_live s' = cl_manager_live s"
  by (auto simp: send_query_def gettimeofday_def Let_def split: if_splits dest!: live_dest)

lemma timing_loop_live [live_dest]:
  "timing_loop E L src x s = Inr (s', r) \<Longrightarrow> cl_manager_live s' = cl_manager_live s"
proof (induction E L src x s rule: timing_loop.induct)
  case (1 E L src x s)
  show ?case
  proof (cases "step16 x")
    case None
    with "1.prems" show ?thesis by (simp add: timing_loop.simps)
  next
    case (Some pr)
    then obtain p q where pr: "step16 x = Some (p, q)" by (cases pr) simp
    then obtain s1 where s1: "record_message_time E L s p src = Inr s1" "timing_loop E L src q s1 = Inr (s', r)"
      using "1.prems" by (subst (asm) timing_loop.simps) (auto simp: fault_simps)
    from "1.IH" [OF pr refl s1] record_message_time_live [OF s1(1)] show ?thesis by simp
  qed
qed

lemma manager_msg_live [live_dest]:
  "manager_msg E c L s d = Inr s' \<Longrightarrow> cl_manager_live s' = cl_manager_live s"
  unfolding manager_msg_def sync_clock_def schedule_def send_now_def add_timer_def count_query_def
    gettimeofday_def Let_def
  by (auto simp: fault_simps split: if_splits dest!: live_dest)

lemma cl_handle_live:
  assumes "cl_handle E c L s ev = Inr s'" and "\<not> from_manager ev"
  shows "cl_manager_live s' = cl_manager_live s"
  using assms
  by (cases ev)
     (auto simp: send_query_helper_def server_udp_write_cb_helper_def server_udp_write_cb_def server_udp_read_cb_def
        server_udp_read_timeout_cb_def server_read_cb_def server_event_cb_def Let_def fault_simps
        split: if_splits option.splits prod.splits dest!: live_dest)

section \<open>Whole messages among the other events\<close>

text \<open>A step of a run: a message of the manager or another event.\<close>

datatype wk_step = Msg bytes | Other cl_event

fun wk_do :: "cenv \<Rightarrow> pb \<Rightarrow> 'p ldns \<Rightarrow> client \<Rightarrow> wk_step \<Rightarrow> client result" where
  "wk_do E c L s (Msg p) = manager_msg E c L s p"
| "wk_do E c L s (Other ev) = cl_handle E c L s ev"

text \<open>The bytes that come from the manager, and the steps a run takes with \<open>b\<close> in the buffer.\<close>

fun read_of :: "cl_event \<Rightarrow> bytes" where
  "read_of (Manager_read d) = d"
| "read_of ev = []"

fun wk_steps :: "bytes \<Rightarrow> cl_event list \<Rightarrow> wk_step list \<times> bytes" where
  "wk_steps b [] = ([], b)"
| "wk_steps b (Manager_read d # evs) =
     (let (ps, r) = deframe step32 (b @ d); (xs, r') = wk_steps r evs in (map Msg ps @ xs, r'))"
| "wk_steps b (ev # evs) = (let (xs, r') = wk_steps b evs in (Other ev # xs, r'))"

lemma wk_steps_other:
  "\<not> from_manager ev \<Longrightarrow> wk_steps b (ev # evs) = (Other ev # fst (wk_steps b evs), snd (wk_steps b evs))"
  by (cases ev) (simp_all add: case_prod_beta)

lemma foldE_Msg: "foldE (wk_do E c L) s (map Msg ps) = foldE (manager_msg E c L) s ps"
  by (induction ps arbitrary: s) simp_all

lemma foldE_Msg_live:
  "foldE (manager_msg E c L) s ps = Inr s' \<Longrightarrow> cl_manager_live s' = cl_manager_live s"
  by (induction ps arbitrary: s) (auto simp: fault_simps dest!: manager_msg_live)

text \<open>Events with which the manager stays connected.\<close>

definition manager_stays :: "cl_event list \<Rightarrow> bool" where
  "manager_stays evs \<longleftrightarrow> (\<forall>w err. Manager_event w err \<notin> set evs)"

lemma worker_run_steps:
  assumes "manager_stays evs" and "cl_manager_live s"
  shows "foldE (cl_handle E c L) (s\<lparr>cl_msg_buffer := b\<rparr>) evs =
    with_buffer (snd (wk_steps b evs)) (foldE (wk_do E c L) s (fst (wk_steps b evs)))"
  using assms
proof (induction evs arbitrary: s b)
  case Nil
  then show ?case by simp
next
  case (Cons ev evs)
  have stays: "manager_stays evs" using Cons.prems(1) by (simp add: manager_stays_def)
  show ?case
  proof (cases "from_manager ev")
    case True
    then obtain d where ev: "ev = Manager_read d"
      using Cons.prems(1) by (cases ev) (auto simp: manager_stays_def)
    obtain ps r where pr: "deframe step32 (b @ d) = (ps, r)" by fastforce
    have "cl_handle E c L (s\<lparr>cl_msg_buffer := b\<rparr>) ev = with_buffer r (foldE (manager_msg E c L) s ps)"
      using Cons.prems(2)
      by (simp add: ev manager_read_cb_def manager_msgs_buffer cl_loop.loop_foldE pr bindE_assoc with_buffer_def)
    moreover have "foldE (cl_handle E c L) (s'\<lparr>cl_msg_buffer := r\<rparr>) evs =
        with_buffer (snd (wk_steps r evs)) (foldE (wk_do E c L) s' (fst (wk_steps r evs)))"
      if "foldE (manager_msg E c L) s ps = Inr s'" for s'
      using Cons.IH [OF stays] foldE_Msg_live [OF that] Cons.prems(2) by simp
    ultimately show ?thesis
      by (auto simp: ev pr case_prod_beta foldE_append foldE_Msg intro!: bindE_cong)
  next
    case False
    have "foldE (cl_handle E c L) (s'\<lparr>cl_msg_buffer := b\<rparr>) evs =
        with_buffer (snd (wk_steps b evs)) (foldE (wk_do E c L) s' (fst (wk_steps b evs)))"
      if "cl_handle E c L s ev = Inr s'" for s'
      using Cons.IH [OF stays] cl_handle_live [OF that False] Cons.prems(2) by simp
    then show ?thesis
      by (auto simp: wk_steps_other [OF False] cl_handle_buffer [OF False] intro!: bindE_cong)
  qed
qed

text \<open>The steps are the frames of the stream and the other events, each in their order.\<close>

lemma wk_steps_shuffle:
  assumes "manager_stays evs" and "step32 b = None" and "length (b @ concat (map read_of evs)) \<le> lim32"
  shows "fst (wk_steps b evs) \<in>
      shuffles (map Msg (fst (deframe step32 (b @ concat (map read_of evs)))))
        (map Other (filter (\<lambda>ev. \<not> from_manager ev) evs)) \<and>
    snd (wk_steps b evs) = snd (deframe step32 (b @ concat (map read_of evs)))"
  using assms
proof (induction evs arbitrary: b)
  case Nil
  then show ?case by simp
next
  case (Cons ev evs)
  have stays: "manager_stays evs" using Cons.prems(1) by (simp add: manager_stays_def)
  show ?case
  proof (cases "from_manager ev")
    case True
    then obtain d where ev: "ev = Manager_read d"
      using Cons.prems(1) by (cases ev) (auto simp: manager_stays_def)
    let ?bs = "concat (map read_of evs)" and ?r = "snd (deframe step32 (b @ d))"
    have lim: "length (?r @ ?bs) \<le> lim32"
      using pb32.residue_length [of "b @ d"] Cons.prems(3) by (simp add: ev)
    have split: "deframe step32 (b @ d @ ?bs) =
        (fst (deframe step32 (b @ d)) @ fst (deframe step32 (?r @ ?bs)), snd (deframe step32 (?r @ ?bs)))"
      using pb32.deframe_append [of "b @ d" ?bs] Cons.prems(3) by (simp add: ev)
    have pre: "xs \<in> shuffles ys zs \<Longrightarrow> us @ xs \<in> shuffles (us @ ys) zs" for us xs ys zs :: "wk_step list"
      by (induction us) (auto intro: Cons_in_shuffles_leftI)
    from Cons.IH [OF stays pb32.residue_stuck lim] show ?thesis
      by (auto simp: ev split case_prod_beta intro!: pre)
  next
    case False
    then have "read_of ev = []" by (cases ev) simp_all
    with Cons.IH [OF stays Cons.prems(2)] Cons.prems(3) False show ?thesis
      by (auto simp: wk_steps_other intro: Cons_in_shuffles_rightI)
  qed
qed

text \<open>
  A run on a stream of framed messages, in pieces of any size and between any other events: whole
  messages are handled, in order, and no byte is left over.
\<close>

lemma worker_run_framed:
  assumes "\<forall>p \<in> set ps. valid32 p" and "concat (map read_of evs) = concat (map frame32 ps)"
    and "length (concat (map read_of evs)) \<le> lim32" and "manager_stays evs"
    and "cl_msg_buffer s = []" and "cl_manager_live s"
  shows "\<exists>steps \<in> shuffles (map Msg ps) (map Other (filter (\<lambda>ev. \<not> from_manager ev) evs)).
    foldE (cl_handle E c L) s evs = with_buffer [] (foldE (wk_do E c L) s steps)"
proof -
  have "deframe step32 (concat (map read_of evs)) = (ps, [])"
    using pb32.deframe_frames [OF assms(1)] assms(2,3) by simp
  with wk_steps_shuffle [OF assms(4), of "[]"] assms(3)
  have "fst (wk_steps [] evs) \<in> shuffles (map Msg ps) (map Other (filter (\<lambda>ev. \<not> from_manager ev) evs))"
    "snd (wk_steps [] evs) = []"
    by (simp_all add: step32_def)
  moreover have "s\<lparr>cl_msg_buffer := []\<rparr> = s" using assms(5) by simp
  ultimately show ?thesis using worker_run_steps [OF assms(4,6), of E c L "[]"] by (intro bexI) simp_all
qed

text \<open>
  The worker handles the messages \<open>xs\<close> when the manager sends it the bytes \<open>bs\<close>, whatever else happens
  meanwhile; the bytes of one run are at most \<open>lim32\<close>, and the manager does not go away before they
  are read.
\<close>

definition worker_handles ::
    "cenv \<Rightarrow> pb \<Rightarrow> 'p ldns \<Rightarrow> client \<Rightarrow> bytes list \<Rightarrow> bytes \<Rightarrow> bool" where
  "worker_handles E c L s xs bs \<longleftrightarrow>
     (\<forall>evs. concat (map read_of evs) = bs \<longrightarrow> length bs \<le> lim32 \<longrightarrow> manager_stays evs \<longrightarrow>
        (\<exists>steps \<in> shuffles (map Msg xs) (map Other (filter (\<lambda>ev. \<not> from_manager ev) evs)).
           foldE (cl_handle E c L) s evs = with_buffer [] (foldE (wk_do E c L) s steps)))"

lemma worker_hop:
  assumes "\<forall>x \<in> set xs. valid32 x" and "cl_msg_buffer s = []" and "cl_manager_live s"
  shows "worker_handles E c L s xs (concat (map frame32 xs))"
  unfolding worker_handles_def
proof (intro allI impI)
  fix evs
  assume bs: "concat (map read_of evs) = concat (map frame32 xs)"
    and "length (concat (map frame32 xs)) \<le> lim32" and stays: "manager_stays evs"
  then have "length (concat (map read_of evs)) \<le> lim32" by simp
  from worker_run_framed [OF assms(1) bs this stays assms(2,3)] show
    "\<exists>steps \<in> shuffles (map Msg xs) (map Other (filter (\<lambda>ev. \<not> from_manager ev) evs)).
       foldE (cl_handle E c L) s evs = with_buffer [] (foldE (wk_do E c L) s steps)" .
qed

end
