(* ===== verification/Wire_Format.thy ===== *)
theory Wire_Format
  imports Dns_Msg
begin

text \<open>
  The types of the fields of \<^verbatim>\<open>dns_msg.proto\<close> and what the programs rely on about the codec
  generated from it.  The contract is the locale \<open>msg_codec\<close>: a message with its required
  fields set, its numbers in the range of their types and a size below the limit is serialised
  and read back unchanged.  It is interpreted on the encoding that protocol buffers document
  for this schema, written out here: a key of field number and wire type, base 128 numbers for
  the integers and booleans, a length and the bytes for the strings.
\<close>

section \<open>Well-typed messages\<close>

definition typed :: "dnsmsg \<Rightarrow> bool" where
  "typed m \<longleftrightarrow> initialized m \<and> - (2 ^ 63) \<le> seconds m \<and> seconds m < 2 ^ 63 \<and>
     - (2 ^ 31) \<le> microseconds m \<and> microseconds m < 2 ^ 31"

definition dst_ip :: "dnsmsg \<Rightarrow> string" where
  "dst_ip m = (case f_dst_ip m of None \<Rightarrow> [] | Some v \<Rightarrow> v)"

text \<open>The limit of two gigabytes, with room for the keys, lengths and numbers.\<close>

definition fits :: "dnsmsg \<Rightarrow> bool" where
  "fits m \<longleftrightarrow> length (raw m) + length (src_ip m) + length (dst_ip m) < 2 ^ 30"

locale msg_codec =
  fixes c :: pb
  assumes typed_codec: "typed m \<Longrightarrow> fits m \<Longrightarrow> codec_ok c m"

lemma typed_sync [simp]: "typed (set_sync_time b m) = typed m" "fits (set_sync_time b m) = fits m"
  by (simp_all add: typed_def fits_def initialized_def set_sync_time_def dst_ip_def dnsmsg_accessors)

section \<open>Base 128 numbers\<close>

function varint :: "nat \<Rightarrow> bytes" where
  "varint n = (if n < 128 then [of_nat n] else of_nat (n mod 128 + 128) # varint (n div 128))"
  by pat_completeness auto
termination by (relation "measure id") auto

declare varint.simps [simp del]

fun read_varint :: "bytes \<Rightarrow> (nat \<times> bytes) option" where
  "read_varint [] = None"
| "read_varint (b # bs) =
     (if unat b < 128 then Some (unat b, bs)
      else map_option (\<lambda>(n, r). (unat b - 128 + 128 * n, r)) (read_varint bs))"

lemma read_varint [simp]: "read_varint (varint n @ r) = Some (n, r)"
proof (induction n rule: varint.induct)
  case (1 n)
  show ?case
  proof (cases "n < 128")
    case True
    then have "unat (of_nat n :: byte) = n" by (simp add: unat_of_nat)
    with True show ?thesis by (simp add: varint.simps [of n])
  next
    case False
    have "unat (of_nat k :: byte) = k" if "k < 256" for k using that by (simp add: unat_of_nat)
    from this [of "n mod 128 + 128"] False 1 show ?thesis by (simp add: varint.simps [of n])
  qed
qed

lemma length_varint: "0 < k \<Longrightarrow> n < 128 ^ k \<Longrightarrow> length (varint n) \<le> k"
proof (induction k arbitrary: n)
  case (Suc k)
  show ?case
  proof (cases "n < 128")
    case False
    then have "0 < k" using Suc.prems(2) by (cases k) auto
    moreover have "n div 128 < 128 ^ k" using Suc.prems(2) by (simp add: less_mult_imp_div_less mult.commute)
    ultimately show ?thesis using Suc.IH [of "n div 128"] False by (simp add: varint.simps [of n])
  qed (simp add: varint.simps [of n])
qed simp

lemma read_varint_shrinks: "read_varint bs = Some (n, r) \<Longrightarrow> length r < length bs"
  by (induction bs arbitrary: n r) (auto split: if_splits)

text \<open>Signed numbers are sent in 64 bit two's complement.\<close>

definition zig :: "int \<Rightarrow> nat" where "zig i = nat (i mod 2 ^ 64)"
definition zag :: "nat \<Rightarrow> int" where "zag n = (if n < 2 ^ 63 then int n else int n - 2 ^ 64)"

lemma zag_zig:
  assumes "- (2 ^ 63) \<le> i" "i < 2 ^ 63"
  shows "zag (zig i) = i"
proof (cases "0 \<le> i")
  case True
  then have "i mod 2 ^ 64 = i" using assms by simp
  with True assms show ?thesis by (simp add: zag_def zig_def nat_less_iff)
next
  case False
  have "i mod 2 ^ 64 = i + 2 ^ 64"
    using False assms by (intro mod_pos_pos_trivial [THEN trans [OF mod_add_self2 [symmetric]]]) auto
  with False assms show ?thesis by (simp add: zag_def zig_def nat_less_iff)
qed

section \<open>The encoding of a message\<close>

definition str_wire :: "string \<Rightarrow> bytes" where "str_wire s = map of_char s"
definition wire_str :: "bytes \<Rightarrow> string" where "wire_str bs = map (\<lambda>b. char_of (unat b)) bs"

lemma wire_str_wire [simp]: "wire_str (str_wire s) = s"
proof -
  have "char_of (unat (of_char ch :: byte)) = ch" for ch
  proof -
    have "(of_char ch :: byte) = of_nat (of_char ch)" by (cases ch) (simp add: of_char_Char)
    then have "unat (of_char ch :: byte) = of_char ch" by (simp add: unat_of_nat)
    then show ?thesis by simp
  qed
  then show ?thesis by (simp add: str_wire_def wire_str_def comp_def)
qed

text \<open>A field that is set: its key, then a number or a length and bytes.\<close>

definition put_num :: "byte \<Rightarrow> nat option \<Rightarrow> bytes" where
  "put_num key v = (case v of None \<Rightarrow> [] | Some n \<Rightarrow> key # varint n)"

definition put_bytes :: "byte \<Rightarrow> bytes option \<Rightarrow> bytes" where
  "put_bytes key v = (case v of None \<Rightarrow> [] | Some bs \<Rightarrow> key # varint (length bs) @ bs)"

definition wire_fields :: "dnsmsg \<Rightarrow> bytes" where
  "wire_fields m =
     put_num 0x08 (map_option zig (f_seconds m)) @ put_num 0x10 (map_option zig (f_microseconds m)) @
     put_num 0x18 (map_option of_bool (f_tcp m)) @ put_num 0x20 (map_option of_bool (f_ipv4 m)) @
     put_num 0x28 (map_option of_bool (f_response m)) @ put_bytes 0x32 (map_option str_wire (f_src_ip m)) @
     put_bytes 0x3A (map_option str_wire (f_dst_ip m)) @ put_bytes 0x42 (f_raw m) @
     put_num 0x48 (map_option of_bool (f_sync_time m))"

definition set_num :: "byte \<Rightarrow> nat \<Rightarrow> dnsmsg \<Rightarrow> dnsmsg option" where
  "set_num key n m =
     (if key = 0x08 then Some (m\<lparr>f_seconds := Some (zag n)\<rparr>)
      else if key = 0x10 then Some (m\<lparr>f_microseconds := Some (zag n)\<rparr>)
      else if key = 0x18 then Some (m\<lparr>f_tcp := Some (n \<noteq> 0)\<rparr>)
      else if key = 0x20 then Some (m\<lparr>f_ipv4 := Some (n \<noteq> 0)\<rparr>)
      else if key = 0x28 then Some (m\<lparr>f_response := Some (n \<noteq> 0)\<rparr>)
      else if key = 0x48 then Some (m\<lparr>f_sync_time := Some (n \<noteq> 0)\<rparr>)
      else None)"

definition set_bytes :: "byte \<Rightarrow> bytes \<Rightarrow> dnsmsg \<Rightarrow> dnsmsg option" where
  "set_bytes key bs m =
     (if key = 0x32 then Some (m\<lparr>f_src_ip := Some (wire_str bs)\<rparr>)
      else if key = 0x3A then Some (m\<lparr>f_dst_ip := Some (wire_str bs)\<rparr>)
      else if key = 0x42 then Some (m\<lparr>f_raw := Some bs\<rparr>)
      else None)"

text \<open>Reading stops at the first field that cannot be read and keeps what was read before.\<close>

function read_fields :: "bytes \<Rightarrow> dnsmsg \<Rightarrow> dnsmsg" where
  "read_fields [] m = m"
| "read_fields (key # bs) m =
     (case read_varint bs of
        None \<Rightarrow> m
      | Some (n, r) \<Rightarrow>
          (case set_num key n m of
             Some m' \<Rightarrow> read_fields r m'
           | None \<Rightarrow>
               if length r < n then m
               else (case set_bytes key (take n r) m of
                       Some m' \<Rightarrow> read_fields (drop n r) m'
                     | None \<Rightarrow> m)))"
  by pat_completeness auto
termination
  by (relation "measure (\<lambda>(bs, m). length bs)") (auto dest: read_varint_shrinks)

definition wire_pb :: pb where
  "wire_pb = \<lparr>SerializeToString = (\<lambda>m. if initialized m then Some (wire_fields m) else None),
     ParseFromArray = (\<lambda>bs. read_fields bs new_DNSMsg)\<rparr>"

lemma read_put_num:
  assumes "set_num key n m = Some m'"
  shows "read_fields (put_num key (Some n) @ bs) m = read_fields bs m'"
  using assms by (simp add: put_num_def)

lemma read_put_bytes:
  assumes "set_num key (length v) m = None" "set_bytes key v m = Some m'"
  shows "read_fields (put_bytes key (Some v) @ bs) m = read_fields bs m'"
  using assms by (simp add: put_bytes_def)

lemma put_none: "put_num key None = []" "put_bytes key None = []"
  by (simp_all add: put_num_def put_bytes_def)

lemma wire_roundtrip:
  assumes "typed m"
  shows "read_fields (wire_fields m) new_DNSMsg = m"
proof -
  obtain s us t v4 src rw where req: "f_seconds m = Some s" "f_microseconds m = Some us" "f_tcp m = Some t"
    "f_ipv4 m = Some v4" "f_src_ip m = Some src" "f_raw m = Some rw"
    using assms by (auto simp: typed_def initialized_def)
  have z: "zag (zig s) = s" "zag (zig us) = us"
    using assms by (auto simp: typed_def req dnsmsg_accessors intro!: zag_zig)
  have "m = \<lparr>f_seconds = Some s, f_microseconds = Some us, f_tcp = Some t, f_ipv4 = Some v4,
      f_response = f_response m, f_src_ip = Some src, f_dst_ip = f_dst_ip m, f_raw = Some rw,
      f_sync_time = f_sync_time m\<rparr>"
    by (simp add: req [symmetric])
  note m = this
  note ends = read_put_num [where bs = "[]", simplified] read_put_bytes [where bs = "[]", simplified]
  show ?thesis
    by (subst (2) m, cases "f_response m"; cases "f_dst_ip m"; cases "f_sync_time m")
       (simp_all add: wire_fields_def req put_none read_put_num read_put_bytes ends set_num_def
          set_bytes_def z new_DNSMsg_def)
qed

text \<open>The size of the encoding.\<close>

lemma length_put_num:
  assumes "\<And>n. v = Some n \<Longrightarrow> n < 2 ^ 64"
  shows "length (put_num key v) \<le> 11"
proof (cases v)
  case (Some n)
  have "n < 128 ^ 10" using assms [OF Some] by simp
  then show ?thesis using length_varint [of 10 n] Some by (simp add: put_num_def)
qed (simp add: put_num_def)

lemma length_put_bytes:
  assumes "length (case v of None \<Rightarrow> [] | Some bs \<Rightarrow> bs) < 2 ^ 30"
  shows "length (put_bytes key v) \<le> 6 + length (case v of None \<Rightarrow> [] | Some bs \<Rightarrow> bs)"
proof (cases v)
  case (Some bs)
  have "length bs < 128 ^ 5" using assms Some by simp
  then show ?thesis using length_varint [of 5 "length bs"] Some by (simp add: put_bytes_def)
qed (simp add: put_bytes_def)

lemma wire_size:
  assumes "fits m"
  shows "length (wire_fields m) < 2 ^ 31"
proof -
  have z: "zig i < 2 ^ 64" for i by (simp add: zig_def nat_less_iff)
  have b: "of_bool b < (2 :: nat) ^ 64" for b by simp
  have n: "length (put_num key (map_option zig v)) \<le> 11" "length (put_num key (map_option of_bool w)) \<le> 11"
    for key v w
    by (rule length_put_num, use z b in auto)+
  have s: "length (put_bytes 0x32 (map_option str_wire (f_src_ip m))) \<le> 6 + length (src_ip m)"
    "length (put_bytes 0x3A (map_option str_wire (f_dst_ip m))) \<le> 6 + length (dst_ip m)"
    "length (put_bytes 0x42 (f_raw m)) \<le> 6 + length (raw m)"
    using assms length_put_bytes [of "map_option str_wire (f_src_ip m)" "0x32"]
      length_put_bytes [of "map_option str_wire (f_dst_ip m)" "0x3A"] length_put_bytes [of "f_raw m" "0x42"]
    by (auto simp: fits_def src_ip_def dst_ip_def raw_def str_wire_def split: option.splits)
  show ?thesis
    using assms s n(1) [of "0x08" "f_seconds m"] n(1) [of "0x10" "f_microseconds m"]
      n(2) [of "0x18" "f_tcp m"] n(2) [of "0x20" "f_ipv4 m"] n(2) [of "0x28" "f_response m"]
      n(2) [of "0x48" "f_sync_time m"]
    by (simp add: wire_fields_def fits_def)
qed

interpretation wire: msg_codec wire_pb
proof
  fix m
  assume m: "typed m" "fits m"
  then obtain s where "f_seconds m = Some s" "initialized m" by (auto simp: typed_def initialized_def)
  then have "SerializeToString wire_pb m = Some (wire_fields m)" "wire_fields m \<noteq> []"
    by (simp_all add: wire_pb_def wire_fields_def put_num_def)
  moreover have "ParseFromArray wire_pb (wire_fields m) = m" using wire_roundtrip [OF m(1)] by (simp add: wire_pb_def)
  ultimately show "codec_ok wire_pb m" using wire_size [OF m(2)] by (simp add: codec_ok_def)
qed

end
