(* ===== verification/Msg_Types.thy ===== *)
theory Msg_Types
  imports Wire_Format Manager
begin

text \<open>
  The messages the input delivers are well typed: every message made from a text line or a
  trace packet that carries DNS data has all required fields of \<^verbatim>\<open>dns_msg.proto\<close> set, with numbers
  in the range of their types, so that serialising it cannot fail for a missing field.  The
  manager's changes to a message (the pace and the synchronisation mark) keep this.
\<close>

section \<open>Messages from the input\<close>

lemma raw_new [simp]: "raw new_DNSMsg = []" by (simp add: new_DNSMsg_def raw_def)

lemma stoi_range: "stoi s = Inr i \<Longrightarrow> int_min \<le> i \<and> i \<le> int_max"
  by (auto simp: stoi_def Let_def split: if_splits)

lemma uncaught_Inr [simp]: "uncaught x = Inr a \<longleftrightarrow> x = Inr a"
  by (auto simp: uncaught_def split: sum.splits)

lemma line_time_range:
  assumes "line_time v = Inr (s, us)"
  shows "int_min \<le> s \<and> s \<le> int_max \<and> int_min \<le> us \<and> us \<le> int_max"
proof -
  have z: "int_min \<le> 0" "0 \<le> int_max" by (simp_all add: int_min_def int_max_def)
  show ?thesis
    using assms z by (auto simp: line_time_def Let_def fault_simps split: if_splits dest!: stoi_range)
qed

lemma process_line_typed:
  assumes "process_line L rnd line = Inr m" and "raw m \<noteq> []"
  shows "typed m"
proof -
  from assms obtain v q s us where m: "m = new_DNSMsg\<lparr>f_raw := Some q, f_src_ip := Some (v ! 1),
      f_seconds := Some s, f_microseconds := Some us, f_tcp := Some (v ! 5 = ''tcp''), f_ipv4 := Some True\<rparr>"
    and t: "line_time (v ! 0) = Inr (s, us)"
    by (auto simp: process_line_def Let_def fault_simps split: if_splits)
  from line_time_range [OF t] show ?thesis
    by (simp add: typed_def initialized_def m dnsmsg_accessors int_min_def int_max_def)
qed

text \<open>Libtrace reports times that fit the fields.\<close>

definition times_ok :: "trace_pkt \<Rightarrow> bool" where
  "times_ok p \<longleftrightarrow> - (2 ^ 63) \<le> fst (tp_timeval p) \<and> fst (tp_timeval p) < 2 ^ 63 \<and>
     0 \<le> snd (tp_timeval p) \<and> snd (tp_timeval p) < 1000000"

lemma fill_msg_typed: "times_ok p \<Longrightarrow> raw (fill_msg p e proto d) \<noteq> [] \<Longrightarrow> typed (fill_msg p e proto d)"
  by (cases "tp_src_addr p"; cases "tp_dst_addr p")
     (simp_all add: fill_msg_def times_ok_def typed_def initialized_def new_DNSMsg_def dnsmsg_accessors)

lemma process_packet_typed:
  assumes "process_packet p = Inr m" and "raw m \<noteq> []" and "times_ok p"
  shows "typed m"
proof (cases p rule: process_packet_query_of)
  case 1
  with assms show ?thesis by auto
next
  case (2 e proto left)
  have "query_of p e proto (transport_payload p proto left) = Inr m" using 2(1) assms(1) by simp
  then have "m = new_DNSMsg \<or> (\<exists>d. m = fill_msg p e proto d)"
    by (auto simp: query_of_def fault_simps split: option.splits prod.splits if_splits)
  with assms(2,3) show ?thesis using fill_msg_typed raw_new by metis
qed

lemma get_typed:
  assumes "get c L rnd ins = Inr (Some m, ins')" and "input_format ins \<noteq> INPUT_SRC_RAW"
    and "\<forall>p \<in> set (in_packets ins). times_ok p"
  shows "(raw m \<noteq> [] \<longrightarrow> typed m) \<and> input_format ins' \<noteq> INPUT_SRC_RAW \<and>
    (\<forall>p \<in> set (in_packets ins'). times_ok p)"
proof (cases "input_format ins = INPUT_SRC_TRACE")
  case True
  with assms(1) obtain p ps where "in_packets ins = p # ps" "process_packet p = Inr m"
    "ins' = ins\<lparr>in_packets := ps\<rparr>"
    by (auto simp: get_def get_from_trace_def fault_simps split: list.splits if_splits)
  with assms(2,3) process_packet_typed [of p m] show ?thesis by simp
next
  case False
  with assms(1,2) obtain line ls where "process_line L rnd line = Inr m" "ins' = ins\<lparr>in_lines := ls\<rparr>"
    by (auto simp: get_def get_from_text_def fault_simps split: option.splits if_splits)
  with assms(2,3) process_line_typed [of L rnd line m] show ?thesis by simp
qed

lemma get_all_typed:
  assumes "get_all c L rnd k ins = Inr ms" and "input_format ins \<noteq> INPUT_SRC_RAW"
    and "\<forall>p \<in> set (in_packets ins). times_ok p" and "q \<in> set ms" and "raw q \<noteq> []"
  shows "typed q"
  using assms
proof (induction ms arbitrary: k ins)
  case Nil
  then show ?case by simp
next
  case (Cons m ms)
  then obtain ins' where g: "get c L (rnd k) ins = Inr (Some m, ins')"
    "get_all c L rnd (Suc k) ins' = Inr ms"
    by (subst (asm) get_all.simps) (auto simp: fault_simps split: sum.splits option.splits)
  note t = get_typed [OF g(1) Cons.prems(2,3)]
  show ?case
  proof (cases "q = m")
    case True
    with t Cons.prems(5) show ?thesis by simp
  next
    case False
    with t Cons.IH [OF g(2)] Cons.prems(4,5) show ?thesis by simp
  qed
qed

text \<open>
  C21.  Well-typed input from text files and traces: every message with DNS data that the input source
  makes of a text line or of a trace packet has all required fields of the schema set and its times in
  the range of their types.  If the data and the addresses together are shorter than a gigabyte,
  any codec that follows the schema serialises it, with and without the synchronisation mark, and
  reads it back unchanged.  Traces are taken to have times that fit their fields.  Messages read from a
  raw stream are excluded: the reader ignores whether a record could be parsed, so that they may lack
  required fields.
\<close>

theorem messages_well_typed:
  assumes "msg_codec c" and "get_all c L rnd k ins = Inr ms" and "input_format ins \<noteq> INPUT_SRC_RAW"
    and "\<forall>p \<in> set (in_packets ins). times_ok p" and "q \<in> set ms" and "raw q \<noteq> []"
  shows "typed q \<and> (fits q \<longrightarrow> codec_ok c q \<and> codec_ok c (set_sync_time b q))"
proof -
  have "typed q" using get_all_typed [OF assms(2-6)] .
  then show ?thesis using msg_codec.typed_codec [OF assms(1)] by simp
qed

text \<open>A raw stream whose record is the DNS data alone.\<close>

lemma raw_record_untyped:
  "let m = new_DNSMsg\<lparr>f_raw := Some (replicate 12 0)\<rparr>
   in get_all wire_pb header_ldns (\<lambda>_. 0) 0 (raw_source (frame32 (wire_fields m))) = Inr [m] \<and>
      raw m \<noteq> [] \<and> \<not> typed m"
proof -
  let ?m = "new_DNSMsg\<lparr>f_raw := Some (replicate 12 0)\<rparr>"
  have "get_all wire_pb header_ldns (\<lambda>_. 0) 0 (raw_source (frame32 (wire_fields ?m))) = Inr [?m]"
    by code_simp
  then show ?thesis by (simp add: typed_def initialized_def new_DNSMsg_def raw_def)
qed

definition text_demo :: input_source where
  "text_demo = (raw_source [])\<lparr>input_format := INPUT_SRC_TEXT, in_lines := [''# query'', ''7.5 a - - - udp'']\<rparr>"

definition text_query :: dnsmsg where
  "text_query = new_DNSMsg\<lparr>f_raw := Some (replicate 12 0), f_src_ip := Some ''a'', f_seconds := Some 7,
     f_microseconds := Some 5, f_tcp := Some False, f_ipv4 := Some True\<rparr>"

lemma text_demo_read: "get_all wire_pb header_ldns (\<lambda>_. 0) 0 text_demo = Inr [text_query]"
  by code_simp

lemma text_query_facts: "raw text_query \<noteq> []" "fits text_query"
  by (simp_all add: text_query_def raw_def fits_def src_ip_def dst_ip_def new_DNSMsg_def)

theorem messages_well_typed_witness:
  "typed text_query \<and> codec_ok wire_pb text_query \<and> codec_ok wire_pb (set_sync_time True text_query)"
  using messages_well_typed [OF wire.msg_codec_axioms text_demo_read, of text_query True] text_query_facts
  by (simp add: text_demo_def raw_source_def format_defs)

section \<open>Changes made by the manager\<close>

text \<open>A conversion of a floating point number to \<^verbatim>\<open>int\<close> gives an \<^verbatim>\<open>int\<close>.\<close>

definition casts_ok :: "'r dbl \<Rightarrow> bool" where
  "casts_ok F \<longleftrightarrow> (\<forall>x. int_min \<le> dbl_to_int F x \<and> dbl_to_int F x \<le> int_max)"

lemma casts_range:
  assumes "casts_ok F"
  shows "- 9223372036854775808 \<le> dbl_to_int F x" "dbl_to_int F x < 9223372036854775808"
    "- 2147483648 \<le> dbl_to_int F x" "dbl_to_int F x < 2147483648"
proof -
  have "int_min \<le> dbl_to_int F x" "dbl_to_int F x \<le> int_max" using assms by (auto simp: casts_ok_def)
  then show "- 9223372036854775808 \<le> dbl_to_int F x" "dbl_to_int F x < 9223372036854775808"
    "- 2147483648 \<le> dbl_to_int F x" "dbl_to_int F x < 2147483648"
    by (simp_all add: int_min_def int_max_def)
qed

lemma pace_msg_typed:
  assumes "typed q" and "dbl_less F (dbl_of_int F 0) (mg_query_pace m) \<longrightarrow> casts_ok F"
  shows "typed (fst (pace_msg F m q))"
  using assms
  by (auto simp: pace_msg_def Let_def typed_def initialized_def dnsmsg_accessors casts_range)

lemma pace_msg_keeps:
  "fits (fst (pace_msg F m q)) = fits q" "raw (fst (pace_msg F m q)) = raw q"
  "src_ip (fst (pace_msg F m q)) = src_ip q" "mg_query_pace (snd (pace_msg F m q)) = mg_query_pace m"
  by (simp_all add: pace_msg_def Let_def fits_def dst_ip_def dnsmsg_accessors)

lemma paced_typed:
  assumes "\<forall>q \<in> set ms. raw q \<noteq> [] \<longrightarrow> typed q \<and> fits q"
    and "dbl_less F (dbl_of_int F 0) (mg_query_pace m) \<longrightarrow> casts_ok F"
  shows "\<forall>q \<in> set (paced F m ms). typed q \<and> fits q"
  using assms
  by (induction F m ms rule: paced.induct) (auto simp: pace_msg_typed pace_msg_keeps)

context msg_codec
begin

lemma typed_serializable: "typed q \<Longrightarrow> fits q \<Longrightarrow> serializable c q"
  unfolding serializable_def using typed_codec [of "set_sync_time b q" for b]
  by (metis codec_okE typed_sync)

end

section \<open>The contract of an input\<close>

text \<open>
  What is asked of an input whose messages are \<open>ms\<close>: the packets of a trace have times that fit,
  no message exceeds the size limit, and a file of serialised messages holds well-typed ones.
  For the other formats the messages are well typed because of how they are made.
\<close>

definition input_ok :: "input_source \<Rightarrow> dnsmsg list \<Rightarrow> bool" where
  "input_ok ins ms \<longleftrightarrow>
     (\<forall>p \<in> set (in_packets ins). times_ok p) \<and> (\<forall>q \<in> set ms. raw q \<noteq> [] \<longrightarrow> fits q) \<and>
     (input_format ins = INPUT_SRC_RAW \<longrightarrow> (\<forall>q \<in> set ms. raw q \<noteq> [] \<longrightarrow> typed q))"

lemma input_ok_typed:
  assumes "get_all c L rnd k ins = Inr ms" and "input_ok ins ms"
  shows "\<forall>q \<in> set ms. raw q \<noteq> [] \<longrightarrow> typed q \<and> fits q"
proof (cases "input_format ins = INPUT_SRC_RAW")
  case True
  with assms(2) show ?thesis by (simp add: input_ok_def)
next
  case False
  with assms get_all_typed [OF assms(1)] show ?thesis by (simp add: input_ok_def)
qed

end
