(* ===== verification/Replay.thy ===== *)
theory Replay
  imports Client_Main Controller_Main Mutator_Main Proxy_Main Manager_Life Manager_Events Client_Life Client_Events
    Msg_Types
begin

text \<open>
  The tools together.  In local mode an input file goes through the manager to the workers of one
  client; in distributed mode it goes through the reader and the postman of the controller to the
  managers of the clients and on to their workers.  Every hop is a stream of length-prefixed
  messages that the receiver may see in pieces of any size.  The theorems compose the contracts of
  the components: a worker handles exactly the messages the assignment of sources gives it, in the
  order of the input.
\<close>

section \<open>What travels\<close>

text \<open>A message whose two forms, with and without the synchronisation mark, fit into a frame.\<close>

definition sendable :: "pb \<Rightarrow> dnsmsg \<Rightarrow> bool" where
  "sendable c q \<longleftrightarrow> (\<forall>b. \<exists>s. SerializeToString c (set_sync_time b q) = Some s \<and> valid32 s)"

lemma sendable_serializable: "sendable c q \<Longrightarrow> serializable c q"
  unfolding sendable_def serializable_def valid32_def by blast

lemma sendable_ser: "sendable c q \<Longrightarrow> valid32 (ser c b q)"
  unfolding sendable_def ser_def by (metis option.sel)

context msg_codec
begin

lemma typed_sendable:
  assumes "typed q" and "fits q"
  shows "sendable c q"
  unfolding sendable_def
proof
  fix b
  from typed_codec [of "set_sync_time b q"] assms obtain s where
    "SerializeToString c (set_sync_time b q) = Some s" "s \<noteq> []" "length s < 2 ^ 31"
    by (auto elim: codec_okE)
  then show "\<exists>s. SerializeToString c (set_sync_time b q) = Some s \<and> valid32 s" by (simp add: valid32_def)
qed

lemma typed_received:
  assumes "typed q" and "fits q"
  shows "\<forall>b. ParseFromArray c (ser c b q) = set_sync_time b q"
proof
  fix b
  from typed_codec [of "set_sync_time b q"] assms have "codec_ok c (set_sync_time b q)" by simp
  then show "ParseFromArray c (ser c b q) = set_sync_time b q" by (auto simp: ser_def elim: codec_okE)
qed

end

lemma routed_valid:
  assumes "\<forall>q \<in> set qs. sendable c q"
  shows "\<forall>p \<in> set (routed c sync tbl d qs). valid32 p"
  using assms by (cases qs) (auto simp: routed_def sendable_ser)

text \<open>A receiver may see a stream in reads of any sizes.\<close>

definition any_reads :: "bytes \<Rightarrow> (bytes list \<Rightarrow> bool) \<Rightarrow> bool" where
  "any_reads bs P \<longleftrightarrow> (\<forall>reads. concat reads = bs \<longrightarrow> length (concat reads) \<le> lim32 \<longrightarrow> P reads)"

text \<open>
  A client in distributed mode with the socket pairs \<open>pairs\<close>: its manager \<open>m\<close> with the connection
  \<open>bev\<close> to the controller and the worker \<open>w fd\<close> for every socket \<open>fd\<close> of the manager, which reads at
  the other end.
\<close>

definition client_ready :: "(int \<times> int) list \<Rightarrow> 'r manager \<Rightarrow> nat \<Rightarrow> (int \<Rightarrow> client) \<Rightarrow> bool" where
  "client_ready pairs m bev w \<longleftrightarrow>
     mgr_ok m \<and> mg_com_bev m = Some bev \<and> bev \<in> set (mg_live m) \<and> mg_com_msg_buffer m = [] \<and>
     mg_writes m = [] \<and> \<not> mg_done_sync_time m \<and>
     (\<forall>fd \<in> set (mg_client_fd m). cl_msg_buffer (w fd) = [] \<and> cl_manager_live (w fd) \<and>
        peer pairs (cl_manager_fd (w fd)) = Some fd)"

text \<open>
  The client \<open>b\<close> of the postman's table handles its share of the queries \<open>qs\<close> when the controller
  sends it the bytes \<open>bs\<close>: whatever the reads and the reports between them, every query for this
  client is assigned to a worker, and each worker handles those whose source it is given when it reads
  what the manager's writes make arrive at its descriptor.
\<close>

definition through :: "(string \<rightharpoonup> nat) \<Rightarrow> nat \<Rightarrow> (string \<rightharpoonup> int) \<Rightarrow> string \<rightharpoonup> int" where
  "through ptbl b tbl ip = (if ptbl ip = Some b then tbl ip else None)"

definition client_handles ::
    "(int \<Rightarrow> cenv) \<Rightarrow> pb \<Rightarrow> 'p ldns \<Rightarrow> write_ret \<Rightarrow> (int \<times> int) list \<Rightarrow> 'r manager \<Rightarrow> nat \<Rightarrow> (int \<Rightarrow> client) \<Rightarrow>
     (string \<rightharpoonup> nat) \<Rightarrow> nat \<Rightarrow> dnsmsg list \<Rightarrow> bytes \<Rightarrow> bool" where
  "client_handles E c K wr pairs m bev w ptbl b qs bs \<longleftrightarrow>
     (\<forall>evs. (\<forall>ev \<in> set evs. com_or_report bev ev) \<longrightarrow> concat (com_reads evs) = bs \<longrightarrow> length bs \<le> lim32 \<longrightarrow>
        (\<exists>m'. foldE (mgr_handle c wr) m evs = Inr m' \<and>
           (\<forall>q \<in> set qs. ptbl (c_str (src_ip q)) = Some b \<longrightarrow>
              assigned (mg_client_src2fd m') (set (mg_client_fd m)) q) \<and>
           (\<forall>fd \<in> set (mg_client_fd m).
              worker_handles (E fd) c K (w fd) (routed c False (through ptbl b (mg_client_src2fd m')) fd qs)
                (received_on pairs (mg_writes m') (cl_manager_fd (w fd))))))"

text \<open>A message that the receiver reads as it was sent.\<close>

definition received :: "pb \<Rightarrow> dnsmsg \<Rightarrow> bool" where
  "received c q \<longleftrightarrow> sendable c q \<and> (\<forall>b. ParseFromArray c (ser c b q) = set_sync_time b q)"

lemma delivered_plain:
  assumes "\<forall>q \<in> set qs. received c q"
  shows "delivered c sync tbl fd (map (ser c False) qs) =
    map (ser c False) (filter (\<lambda>q. tbl (c_str (src_ip q)) = Some fd) qs)"
  using assms by (induction qs arbitrary: sync) (simp_all add: received_def)

lemma delivered_routed:
  assumes "\<forall>q \<in> set qs. received c q"
  shows "delivered c False tbl fd (routed c False ptbl b qs) = routed c False (through ptbl b tbl) fd qs"
proof -
  let ?ps = "map (ser c False) (filter (\<lambda>q. ptbl (c_str (src_ip q)) = Some b) qs)"
  have "delivered c sync tbl fd ?ps =
      map (ser c False) (filter (\<lambda>q. through ptbl b tbl (c_str (src_ip q)) = Some fd) qs)" for sync
    using delivered_plain [of "filter (\<lambda>q. ptbl (c_str (src_ip q)) = Some b) qs" c sync tbl fd] assms
    by (auto simp: through_def intro!: arg_cong [where f = "map (ser c False)"] filter_cong)
  moreover have "sync_time (ParseFromArray c (ser c True (hd qs)))" if "qs \<noteq> []"
    using assms that by (cases qs) (simp_all add: received_def)
  ultimately show ?thesis by (cases "qs = []") (simp_all add: routed_def)
qed

lemma client_hop:
  assumes "\<forall>q \<in> set qs. received c q" and "full_writes wr" and "client_ready pairs m bev w"
  shows "client_handles E c K wr pairs m bev w ptbl b qs (concat (map frame32 (routed c False ptbl b qs)))"
  unfolding client_handles_def
proof (intro allI impI)
  let ?xs = "routed c False ptbl b qs"
  fix evs
  assume ev: "\<forall>ev \<in> set evs. com_or_report bev ev" and r: "concat (com_reads evs) = concat (map frame32 ?xs)"
    and l: "length (concat (map frame32 ?xs)) \<le> lim32"
  from assms(3) have m: "mgr_ok m" "mg_com_bev m = Some bev" "bev \<in> set (mg_live m)" "mg_com_msg_buffer m = []"
    "mg_writes m = []" "\<not> mg_done_sync_time m"
    "\<forall>fd \<in> set (mg_client_fd m). cl_msg_buffer (w fd) = [] \<and> cl_manager_live (w fd) \<and>
        peer pairs (cl_manager_fd (w fd)) = Some fd"
    by (simp_all add: client_ready_def)
  have valid: "\<forall>x \<in> set (routed c False t d qs). valid32 x" for t :: "string \<rightharpoonup> 'd" and d
    using assms(1) by (intro routed_valid) (simp add: received_def)
  from pb32.deframe_frames [OF valid l] r have d: "deframe step32 (concat (com_reads evs)) = (?xs, [])" by simp
  have "length (concat (com_reads evs)) \<le> lim32" using l unfolding r .
  from com_reads_ok [OF m(1) assms(2) m(2,4) this, of c] obtain m1 where
    m1: "foldE (\<lambda>m d. com_read_cb c wr m bev d) m (com_reads evs) = Inr m1"
    "\<forall>x \<in> set ?xs. \<not> sync_time (ParseFromArray c x) \<longrightarrow>
       assigned (mg_client_src2fd m1) (set (mg_client_fd m)) (ParseFromArray c x)"
    "\<forall>fd \<in> set (mg_client_fd m). stream fd (mg_writes m1) =
       concat (map frame32 (delivered c False (mg_client_src2fd m1) fd ?xs))"
    using m(5,6) by (auto simp: d)
  from com_reads_among_reports [OF ev m(3) m1(1)] obtain m' where
    m': "foldE (mgr_handle c wr) m evs = Inr m'" "mg_writes m' = mg_writes m1" "mg_client_src2fd m' = mg_client_src2fd m1"
    by blast
  have "assigned (mg_client_src2fd m') (set (mg_client_fd m)) q"
    if q: "q \<in> set qs" "ptbl (c_str (src_ip q)) = Some b" for q
  proof -
    have "ser c False q \<in> set ?xs" using q by (simp add: routed_def)
    moreover have "ParseFromArray c (ser c False q) = set_sync_time False q"
      using assms(1) q(1) by (simp add: received_def)
    ultimately show ?thesis using m1(2) m'(3) by (auto simp: assigned_def)
  qed
  moreover have "worker_handles (E fd) c K (w fd) (routed c False (through ptbl b (mg_client_src2fd m')) fd qs)
      (received_on pairs (mg_writes m') (cl_manager_fd (w fd)))" if "fd \<in> set (mg_client_fd m)" for fd
    using m(7) m1(3) m'(2,3) that
    by (auto simp: received_on_def delivered_routed [OF assms(1)] intro!: worker_hop valid)
  ultimately show "\<exists>m'. foldE (mgr_handle c wr) m evs = Inr m' \<and>
      (\<forall>q \<in> set qs. ptbl (c_str (src_ip q)) = Some b \<longrightarrow>
         assigned (mg_client_src2fd m') (set (mg_client_fd m)) q) \<and>
      (\<forall>fd \<in> set (mg_client_fd m). worker_handles (E fd) c K (w fd)
         (routed c False (through ptbl b (mg_client_src2fd m')) fd qs)
         (received_on pairs (mg_writes m') (cl_manager_fd (w fd))))"
    using m'(1) by blast
qed

text \<open>What the reader has written, as the postman parses it.\<close>

lemma plain_messages:
  assumes "\<forall>q \<in> set qs. codec_ok c q" and "\<forall>q \<in> set qs. raw q \<noteq> []"
  shows "\<forall>q \<in> set qs. plain_ok c q"
    and "\<forall>x \<in> set (map (\<lambda>q. the (SerializeToString c q)) qs). valid32 x"
    and "filter (\<lambda>q. raw q \<noteq> []) (map (ParseFromArray c) (map (\<lambda>q. the (SerializeToString c q)) qs)) = qs"
proof -
  have *: "\<exists>bs. SerializeToString c q = Some bs \<and> bs \<noteq> [] \<and> length bs < 2 ^ 32 \<and> ParseFromArray c bs = q"
    if "q \<in> set qs" for q
    using assms(1) that by (force elim!: codec_okE)
  show "\<forall>q \<in> set qs. plain_ok c q" using * by (force simp: plain_ok_def)
  show "\<forall>x \<in> set (map (\<lambda>q. the (SerializeToString c q)) qs). valid32 x"
    using * by (force simp: valid32_def)
  have "map (ParseFromArray c) (map (\<lambda>q. the (SerializeToString c q)) qs) = qs"
    unfolding map_map by (rule map_idI) (use * in force)
  then show "filter (\<lambda>q. raw q \<noteq> []) (map (ParseFromArray c) (map (\<lambda>q. the (SerializeToString c q)) qs)) = qs"
    using assms(2) by (simp add: filter_id_conv)
qed

section \<open>Local mode\<close>

text \<open>Local replay from a manager and any workers at the other ends of its sockets.\<close>

lemma local_replay_end_to_end:
  assumes "mgr_ok m" and "full_writes wr" and "mg_writes m = []"
    and "clock_advances F now (mg_trace_limit m)
           ((\<lambda>q. trace_ts F (seconds q) (microseconds q)) ` set (paced F m ms))"
    and "mg_input_file m \<noteq> []" and "input_src_map (mg_input_format m) \<noteq> None"
    and "mg_ins m = Some ins" and "get_all c L rnd 0 ins = Inr ms"
    and "msg_codec c" and "input_ok ins ms"
    and "dbl_less F (dbl_of_int F 0) (mg_query_pace m) \<longrightarrow> casts_ok F"
    and "mg_closed m = []" and "\<forall>t \<in> set ts. \<not> closes_worker t"
    and "local_exec F c L rnd wr now ts (local_start F m) = Some (Inr st)"
  shows "\<exists>n st'. local_exec F c L rnd wr now (replicate n None) st = Some (Inr st') \<and>
    lo_read st' = Read_done \<and>
    (\<forall>q \<in> set (paced F m ms). assigned (mg_client_src2fd (lo_mgr st')) (set (mg_client_fd m)) q) \<and>
    (\<forall>fd \<in> set (mg_client_fd m). \<forall>E s. cl_msg_buffer s = [] \<longrightarrow> cl_manager_live s \<longrightarrow>
       worker_handles E c K s
         (routed c (mg_done_sync_time m) (mg_client_src2fd (lo_mgr st')) fd (paced F m ms))
         (stream fd (mg_writes (lo_mgr st'))))"
proof -
  have typed: "\<forall>q \<in> set (paced F m ms). typed q \<and> fits q"
    using paced_typed [OF input_ok_typed [OF assms(8,10)] assms(11)] .
  then have ser: "\<forall>q \<in> set (paced F m ms). serializable c q"
    using msg_codec.typed_serializable [OF assms(9)] by blast
  from read_input_file_ok [OF assms(1,2,4-8) ser] obtain m' where
    m': "read_input_file F c L rnd wr now m = Some (Inr m')"
    "\<forall>q \<in> set (paced F m ms). assigned (mg_client_src2fd m') (set (mg_client_fd m)) q"
    "\<forall>fd \<in> set (mg_client_fd m). stream fd (mg_writes m') = stream fd (mg_writes m) @
        concat (map frame32 (routed c (mg_done_sync_time m) (mg_client_src2fd m') fd (paced F m ms)))"
    by blast
  obtain n r where r: "local_exec F c L rnd wr now (replicate n None) st = Some (Inr (join_threads r st))"
    "lo_read r = Read_done" "lo_mgr r = m'"
    using reader_can_finish [OF assms(14) m'(1)] nothing_closed [OF assms(14,13)] assms(12)
    by (auto simp: local_start_def)
  have "worker_handles E c K s (routed c (mg_done_sync_time m) (mg_client_src2fd m') fd (paced F m ms))
      (stream fd (mg_writes m'))"
    if "fd \<in> set (mg_client_fd m)" "cl_msg_buffer s = []" "cl_manager_live s" for fd E s
  proof -
    let ?ps = "routed c (mg_done_sync_time m) (mg_client_src2fd m') fd (paced F m ms)"
    have "stream fd (mg_writes m') = concat (map frame32 ?ps)" using m'(3) assms(3) that(1) by simp
    moreover have "\<forall>p \<in> set ?ps. valid32 p"
      by (rule routed_valid) (use typed msg_codec.typed_sendable [OF assms(9)] in blast)
    ultimately show ?thesis using worker_hop [OF _ that(2,3), of ?ps] by auto
  qed
  with r m'(2) show ?thesis
    by (intro exI [of _ n] exI [of _ "join_threads r st"]) (simp add: join_threads_def)
qed

text \<open>A text file with one query.\<close>

lemma text_input_ok: "input_ok text_demo [text_query]"
  by (simp add: input_ok_def text_query_facts) (simp add: text_demo_def raw_source_def format_defs)

section \<open>Distributed mode\<close>

text \<open>Distributed replay from a reader, a postman with its connections, and a client for each of them.\<close>

lemma distributed_replay_end_to_end:
  assumes "get_all c L rnd 0 (rd_ins rd) = Inr ms" and "full_writes wr" and "rd_writes rd = []"
    and "qs = filter (\<lambda>q. raw q \<noteq> []) ms" and "msg_codec c" and "input_ok (rd_ins rd) ms"
    and "clock_advances F now (dbl_of_int F l)
           ((\<lambda>q. trace_ts F (seconds q) (microseconds q)) ` set qs)"
    and "pm_good p" and "pm_skt_buffer p = []" and "pm_writes p = []" and "\<not> pm_done_sync_time p"
    and "\<forall>b \<in> pm_peers p. client_ready (P b) (M b) (V b) (W b)" and "full_writes wr'"
  shows "\<exists>rd'. read_input F c L rnd wr now l rd = Some (Inr rd') \<and>
    any_reads (stream (rd_skt rd) (rd_writes rd')) (\<lambda>reads.
       if lengths_whole [] reads then
         \<exists>p'. foldE (skt_read_cb c) p reads = Inr p' \<and>
         (\<forall>q \<in> set qs. assigned (pm_table p') (pm_peers p) q) \<and>
         (\<forall>b \<in> pm_peers p.
            client_handles (E b) c K wr' (P b) (M b) (V b) (W b) (pm_table p') b qs (stream b (pm_writes p')))
       else \<exists>e. foldE (skt_read_cb c) p reads = Inl e)"
proof -
  let ?ps = "map (\<lambda>q. the (SerializeToString c q)) qs"
  have typed: "\<forall>q \<in> set qs. typed q \<and> fits q" using input_ok_typed [OF assms(1,6)] assms(4) by simp
  have "\<forall>q \<in> set qs. codec_ok c q" "\<forall>q \<in> set qs. raw q \<noteq> []"
    using typed msg_codec.typed_codec [OF assms(5)] assms(4) by auto
  note pl = plain_messages [OF this]
  have sendable: "\<forall>q \<in> set qs. sendable c q" using typed msg_codec.typed_sendable [OF assms(5)] by blast
  then have ser: "\<forall>q \<in> set qs. serializable c q" using sendable_serializable by blast
  obtain rd' where rd': "read_input F c L rnd wr now l rd = Some (Inr rd')"
    "stream (rd_skt rd) (rd_writes rd') = concat (map frame32 ?ps)"
    using reader_writes_every_query [OF assms(1-4) pl(1) assms(7)] by (auto simp: comp_def)
  have rec: "\<forall>q \<in> set qs. received c q"
    using sendable typed msg_codec.typed_received [OF assms(5)] by (simp add: received_def)
  have "if lengths_whole [] reads then
      \<exists>p'. foldE (skt_read_cb c) p reads = Inr p' \<and> (\<forall>q \<in> set qs. assigned (pm_table p') (pm_peers p) q) \<and>
      (\<forall>b \<in> pm_peers p. client_handles (E b) c K wr' (P b) (M b) (V b) (W b) (pm_table p') b qs (stream b (pm_writes p')))
      else \<exists>e. foldE (skt_read_cb c) p reads = Inl e"
    if r: "concat reads = concat (map frame32 ?ps)" "length (concat reads) \<le> lim32" for reads
  proof (cases "lengths_whole [] reads")
    case True
    from skt_reads_ok [OF assms(8,9) pl(2) r pl(3) [symmetric] ser] True obtain p' where
      p': "foldE (skt_read_cb c) p reads = Inr p'" "\<forall>q \<in> set qs. assigned (pm_table p') (pm_peers p) q"
      "\<forall>b \<in> pm_peers p. stream b (pm_writes p') = concat (map frame32 (routed c False (pm_table p') b qs))"
      using assms(10,11) by auto
    have "\<forall>b \<in> pm_peers p. client_handles (E b) c K wr' (P b) (M b) (V b) (W b) (pm_table p') b qs (stream b (pm_writes p'))"
      using p'(3) rec assms(12,13) by (auto intro: client_hop)
    with p'(1,2) True show ?thesis by auto
  next
    case False
    with skt_reads_ok [OF assms(8,9) pl(2) r pl(3) [symmetric] ser] show ?thesis by simp
  qed
  with rd' show ?thesis unfolding any_reads_def by metis
qed

section \<open>From the response to the output file\<close>

lemma str_bytes_nonzero: "CHR 0x00 \<notin> set s \<Longrightarrow> 0 \<notin> set (str_bytes s)"
proof
  assume "CHR 0x00 \<notin> set s" "0 \<in> set (str_bytes s)"
  then obtain ch where ch: "ch \<in> set s" "(of_char ch :: byte) = 0" by (auto simp: str_bytes_def)
  then have "wire_str (str_wire [ch]) = [CHR 0x00]" by (simp add: wire_str_def str_wire_def char_of_def)
  with ch \<open>CHR 0x00 \<notin> set s\<close> show False by simp
qed

lemma token_chars: "w \<in> set (stream_tokens s) \<Longrightarrow> set w \<subseteq> set s"
proof (induction s rule: stream_tokens.induct)
  case (1 s)
  obtain x rest where n: "next_token s = (x, rest)" by fastforce
  then have "set x \<subseteq> set s" "set rest \<subseteq> set s"
    by (auto simp: next_token_def Let_def dest!: set_takeWhileD set_dropWhileD)
  moreover from "1.prems" n have "w = x \<or> rest \<noteq> [] \<and> w \<in> set (stream_tokens rest)"
    by (subst (asm) stream_tokens.simps) (auto split: if_splits)
  ultimately show ?case using "1.IH" [OF n [symmetric]] by blast
qed

lemma to_string_nonzero: "CHR 0x00 \<notin> set (to_string i)"
  by (auto simp: to_string_def isdigit_def dest: nat_digits_isdigit)

lemma c_data_line: "0 \<notin> set bs \<Longrightarrow> c_data (bs @ [0]) = bs"
  unfolding c_data_def by (induction bs) auto

text \<open>
  What the manager prints of the reads that hold a report.  A report that arrives in several reads is
  printed whole; of a read that holds several, the first is printed.
\<close>

lemma report_reads:
  assumes "b \<in> set (mg_live m)" and "mg_output_file m \<noteq> []" and "mg_out_open m"
    and "concat ds = bs @ [0]" and "0 \<notin> set bs"
  shows "\<exists>m'. foldE (\<lambda>m d. mgr_handle c wr m (Client_read b d)) m ds = Inr m' \<and> mg_out_text m' = mg_out_text m @ bs"
proof -
  have "\<exists>m'. foldE (\<lambda>m d. mgr_handle c wr m (Client_read b d)) m ds = Inr m' \<and>
      mg_out_text m' = mg_out_text m @ concat (map c_data ds)"
    using assms(1-3)
  proof (induction ds arbitrary: m)
    case (Cons d ds)
    let ?m = "read_client_cb m d"
    have m: "b \<in> set (mg_live ?m)" "mg_output_file ?m \<noteq> []" "mg_out_open ?m"
      "mg_out_text ?m = mg_out_text m @ c_data d"
      using Cons.prems by (simp_all add: read_client_cb_def c_data_def)
    from Cons.IH [OF m(1-3)] Cons.prems(1) m(4) show ?case by simp
  qed simp
  moreover have "concat (map c_data ds) = bs" using assms(4,5)
  proof (induction ds arbitrary: bs)
    case (Cons d ds)
    show ?case
    proof (cases "0 \<in> set d")
      case False
      then have d: "c_data d = d" by (auto simp: c_data_def takeWhile_eq_all_conv)
      have "\<exists>r. bs = d @ r \<and> concat ds = r @ [0]"
        using Cons.prems(1) False by (auto simp: append_eq_append_conv2 append_eq_Cons_conv)
      with Cons.IH Cons.prems(2) d show ?thesis by auto
    next
      case True
      then have "d = bs @ [0] \<and> concat ds = []"
        using Cons.prems by (auto simp: append_eq_append_conv2 append_eq_Cons_conv)
      then show ?thesis using c_data_line [OF Cons.prems(2)] by (auto simp: c_data_def)
    qed
  qed simp
  ultimately show ?thesis by simp
qed

lemma report_coalesced:
  assumes "b \<in> set (mg_live m)" and "mg_output_file m \<noteq> []" and "mg_out_open m"
    and "pre = [] \<or> 0 \<in> set pre" and "0 \<notin> set bs"
  shows "\<exists>m'. mgr_handle c wr m (Client_read b (pre @ (bs @ [0]) @ rest)) = Inr m' \<and>
    mg_out_text m' = mg_out_text m @ (if pre = [] then bs else c_data pre)"
  using assms by (auto simp: read_client_cb_def c_data_def takeWhile_append)

section \<open>Properties\<close>

text \<open>
  C20.  A response reaches the output.  Take any later state of the worker in which the entry it made for
  a query is still the one in its table (no response to it has come and no other query with the same
  identifier and question has taken its place).  When a response carries the identifier that was drawn
  for the query and the same question, the worker sends one report; the query is no longer pending and the
  other pending queries stay.  The report is one line with the time between sending and receiving and
  the words of the question.  The manager that gets the report on its own, in however many reads, appends that line
  to its output file.  When one read holds other reports as well, the line is appended only if the
  report is the first of that read; of a read that begins with other reports the first alone is printed.
\<close>

theorem latency_reaches_output_file:
  assumes "client_inv s" and "CHR 0x09 \<in> set qname" and "CHR 0x00 \<notin> set qname" and "2 \<le> length buf"
    and "id_rw_ok L buf (ce_rand E (cl_tick s))" and "cl_output_option s AND OUTPUT_LATENCY \<noteq> 0"
    and "draw_key E L s qname buf = Inr (buf', key, s1)"
    and "cl_query_table s2 key = cl_query_table (log_query E s1 qname key) key"
    and "cl_manager_live s2" and "\<forall>k. ce_ok E k"
    and "get_id L resp = get_id L buf'" and "get_query_rr_str L (take n resp) = qname"
    and "latency = timersub (ce_now E (cl_tick s2)) (ce_now E (cl_tick s + 1))"
    and "line = str_bytes (to_string (tv_sec latency) @ '' '' @ to_string (tv_usec latency) @
                  concat (map (\<lambda>w. CHR '' '' # w) (words qname)) @ [CHR 0x0A])"
    and "b \<in> set (mg_live m)" and "mg_output_file m \<noteq> []" and "mg_out_open m"
  shows "\<exists>s' report. sendto_manager E L s2 resp n = Inr s' \<and>
     cl_query_table s' = (cl_query_table s2)(key := None) \<and>
     cl_to_manager s' = cl_to_manager s2 @ report \<and>
     (\<forall>reads. concat reads = report \<longrightarrow>
        (\<exists>m'. foldE (\<lambda>m d. mgr_handle c wr m (Client_read b d)) m reads = Inr m' \<and>
           mg_out_text m' = mg_out_text m @ line)) \<and>
     (\<forall>before after. before = [] \<or> 0 \<in> set before \<longrightarrow>
        (\<exists>m'. mgr_handle c wr m (Client_read b (before @ report @ after)) = Inr m' \<and>
           mg_out_text m' = mg_out_text m @ (if before = [] then line else c_data before)))"
proof -
  from answered_query_reported [OF assms(1,2,4-13)] obtain s' where
    s': "sendto_manager E L s2 resp n = Inr s'" "cl_query_table s' = (cl_query_table s2)(key := None)"
    "cl_to_manager s' = cl_to_manager s2 @ (line @ [0])" unfolding assms(14) by auto
  have "0 \<notin> set line"
    unfolding assms(14)
    using assms(3) token_chars [of _ qname] to_string_nonzero by (intro str_bytes_nonzero) (auto simp: words_def)
  with report_reads [OF assms(15-17)] report_coalesced [OF assms(15-17)] s' show ?thesis
    by (intro exI [of _ s'] exI [of _ "line @ [0]"] conjI allI impI) blast+
qed

theorem latency_reaches_output_file_witness:
  "let L = header_ldns; E = Client_Props.demo_env; s = pending_client;
       q = [0, 0, 0, 0, 0, 1, 0, 0, 0, 0, 0, 0];
       key = fmt_str (to_string (uint (ce_rand E 0)) @ '' '' @ demo_rr) '' '';
       s2 = (log_query E (s\<lparr>cl_tick := Suc 0\<rparr>) demo_rr key)\<lparr>cl_tick := 7\<rparr>;
       latency = timersub (ce_now E 7) (ce_now E 1);
       line = str_bytes (to_string (tv_sec latency) @ '' '' @ to_string (tv_usec latency) @
                  concat (map (\<lambda>w. CHR '' '' # w) (words demo_rr)) @ [CHR 0x0A]);
       m = (demo True [])\<lparr>mg_output_file := ''o'', mg_out_open := True, mg_live := [0]\<rparr>
   in \<exists>s' report m'. sendto_manager E L s2 q 12 = Inr s' \<and>
     cl_query_table s' = (cl_query_table s2)(key := None) \<and>
     cl_to_manager s' = cl_to_manager s2 @ report \<and>
     foldE (\<lambda>m d. mgr_handle wire_pb (\<lambda>n bs. Some (length bs)) m (Client_read 0 d)) m [take 3 report, drop 3 report] =
       Inr m' \<and>
     mg_out_text m' = mg_out_text m @ line"
proof -
  let ?E = Client_Props.demo_env
  let ?q = "[0, 0, 0, 0, 0, 1, 0, 0, 0, 0, 0, 0] :: bytes"
  let ?k = "fmt_str (to_string (uint (ce_rand ?E 0)) @ '' '' @ demo_rr) '' ''"
  let ?s2 = "(log_query ?E (pending_client\<lparr>cl_tick := Suc 0\<rparr>) demo_rr ?k)\<lparr>cl_tick := 7\<rparr>"
  let ?m = "(demo True [])\<lparr>mg_output_file := ''o'', mg_out_open := True, mg_live := [0]\<rparr>"
  let ?latency = "timersub (ce_now ?E 7) (ce_now ?E 1)"
  let ?line = "str_bytes (to_string (tv_sec ?latency) @ '' '' @ to_string (tv_usec ?latency) @
                  concat (map (\<lambda>w. CHR '' '' # w) (words demo_rr)) @ [CHR 0x0A])"
  have rw: "id_rw_ok header_ldns ?q (ce_rand ?E (cl_tick pending_client))"
    by (rule header_ldns_rw) simp
  have d: "draw_key ?E header_ldns pending_client demo_rr ?q =
      Inr (ldns_write_uint16 header_ldns ?q 0, ?k, pending_client\<lparr>cl_tick := Suc 0\<rparr>)"
    using draw_key_first [OF pending_client_inv rw _ pending_client_fields(4)]
    by (simp add: pending_client_fields Client_Props.demo_env_def)
  have "\<exists>s' report. sendto_manager ?E header_ldns ?s2 ?q 12 = Inr s' \<and>
     cl_query_table s' = (cl_query_table ?s2)(?k := None) \<and>
     cl_to_manager s' = cl_to_manager ?s2 @ report \<and>
     (\<forall>reads. concat reads = report \<longrightarrow>
        (\<exists>m'. foldE (\<lambda>m d. mgr_handle wire_pb (\<lambda>n bs. Some (length bs)) m (Client_read 0 d)) ?m reads = Inr m' \<and>
           mg_out_text m' = mg_out_text ?m @ ?line)) \<and>
     (\<forall>before after. before = [] \<or> 0 \<in> set before \<longrightarrow>
        (\<exists>m'. mgr_handle wire_pb (\<lambda>n bs. Some (length bs)) ?m (Client_read 0 (before @ report @ after)) = Inr m' \<and>
           mg_out_text m' = mg_out_text ?m @ (if before = [] then ?line else c_data before)))"
    by (rule latency_reaches_output_file [OF pending_client_inv pending_client_fields(4) _ _ rw _ d])
       (simp_all add: pending_client_fields OUTPUT_LATENCY_def Client_Props.demo_env_def header_ldns_def
          get_id_def be16_def get_query_rr_str_def rd16_def demo_rr_def log_query_def gettimeofday_def Let_def)
  then obtain s' report where r: "sendto_manager ?E header_ldns ?s2 ?q 12 = Inr s'"
    "cl_query_table s' = (cl_query_table ?s2)(?k := None)" "cl_to_manager s' = cl_to_manager ?s2 @ report"
    and reads: "\<forall>reads. concat reads = report \<longrightarrow>
        (\<exists>m'. foldE (\<lambda>m d. mgr_handle wire_pb (\<lambda>n bs. Some (length bs)) m (Client_read 0 d)) ?m reads = Inr m' \<and>
           mg_out_text m' = mg_out_text ?m @ ?line)" by metis
  from reads [rule_format, of "[take 3 report, drop 3 report]"] r show ?thesis
    unfolding Let_def by (intro exI [of _ s'] exI [of _ report]) (simp only: concat.simps append_Nil2 append_take_drop_id simp_thms)
qed

end
