(* ===== verification/Client_System.thy ===== *)
theory Client_System
  imports Replay
begin

text \<open>
  The replay client in local mode, from the command line to the workers: \<^verbatim>\<open>main.cc\<close> makes the socket
  pairs and the processes, the manager reads the input and writes to its ends of the pairs, and
  every worker handles what arrives at the other end of its pair.
\<close>

lemma start_setup_ready:
  assumes "DNSClient_new aton c g t ip port fd su opt nw = Inr s" and "start_setup V s = Inr s1"
  shows "cl_msg_buffer s1 = [] \<and> cl_manager_live s1 \<and> cl_manager_fd s1 = cl_manager_fd s"
  using assms by (auto simp: DNSClient_new_def start_setup_def call_def Let_def fault_simps split: if_split_asm)

text \<open>
  C2.  Local replay: a command line that passes the checks, asks for at least one worker and has no
  \<^verbatim>\<open>-u\<close> starts a manager and as many workers as there are socket pairs.  Whatever the order in which
  the manager's two threads take their steps, as long as no worker has closed its socket and the
  event loop has not ended, the reading thread can be run to its end; then the source of every query
  of the input is assigned to the manager's end of a pair.  The \<open>i\<close>-th worker reads at its own
  descriptor what the manager's writes make arrive there, and however these bytes are split into reads
  and whatever timers, responses and lost connections it handles between them, it handles exactly the
  synchronisation message and the queries whose source is assigned to its pair, in the order of the
  input, and no byte is left over.  (Writes take all they are given, the ends of the socket pairs are
  different positive descriptors, the clock advances.)  For text and trace input nothing is asked of
  the messages but their size.
\<close>

theorem local_system_end_to_end:
  assumes "client_main E argc opts = Inr sys" and "\<forall>x \<in> set opts. fst x \<noteq> Short CHR ''u''"
    and "\<forall>i p q. cm_socketpair E i = Some (p, q) \<longrightarrow> 0 < p \<and> 0 < q"
    and "ends_distinct (sys_pairs sys)" and "sys_pairs sys \<noteq> []" and "length (sys_pairs sys) < 2 ^ 31"
    and "sys_manager sys = Inr m" and "mg_ins m = Some ins"
    and "get_all c L rnd 0 ins = Inr ms" and "qs = paced (cm_dbl E) m ms"
    and "msg_codec c" and "input_ok ins ms" and "full_writes wr"
    and "clock_advances (cm_dbl E) now (mg_trace_limit m)
           ((\<lambda>q. trace_ts (cm_dbl E) (seconds q) (microseconds q)) ` set qs)"
    and "dbl_less (cm_dbl E) (dbl_of_int (cm_dbl E) 0) (mg_query_pace m) \<longrightarrow> casts_ok (cm_dbl E)"
    and "\<forall>t \<in> set ts. \<not> closes_worker t"
    and "local_exec (cm_dbl E) c L rnd wr now ts (local_start (cm_dbl E) m) = Some (Inr st)"
  shows "\<exists>n st'. local_exec (cm_dbl E) c L rnd wr now (replicate n None) st = Some (Inr st') \<and>
    lo_read st' = Read_done \<and>
    (\<forall>q \<in> set qs. assigned (mg_client_src2fd (lo_mgr st')) (fst ` set (sys_pairs sys)) q) \<and>
    length (sys_workers sys) = length (sys_pairs sys) \<and>
    (\<forall>i < length (sys_pairs sys). \<forall>V w s. sys_workers sys ! i = Inr w \<longrightarrow> start_setup V w = Inr s \<longrightarrow>
       worker_handles V c K s
         (routed c False (mg_client_src2fd (lo_mgr st')) (fst (sys_pairs sys ! i)) qs)
         (received_on (sys_pairs sys) (mg_writes (lo_mgr st')) (cl_manager_fd s)))"
proof -
  have "distinct (map fst (sys_pairs sys))" using assms(4) by simp
  note m = client_main_manager [OF assms(1,7,3) this assms(5,6,2)]
  have src: "mg_input_file m \<noteq> []" "input_src_map (mg_input_format m) \<noteq> None" using m(7) [OF assms(8)] by simp_all
  from local_replay_end_to_end [where K = K, OF m(1) assms(13) m(3) _ src assms(8,9,11,12,15) m(6) assms(16,17)] obtain n st' where
    st: "local_exec (cm_dbl E) c L rnd wr now (replicate n None) st = Some (Inr st')" "lo_read st' = Read_done"
    "\<forall>q \<in> set qs. assigned (mg_client_src2fd (lo_mgr st')) (set (mg_client_fd m)) q"
    "\<forall>fd \<in> set (mg_client_fd m). \<forall>E s. cl_msg_buffer s = [] \<longrightarrow> cl_manager_live s \<longrightarrow>
       worker_handles E c K s (routed c False (mg_client_src2fd (lo_mgr st')) fd qs) (stream fd (mg_writes (lo_mgr st')))"
    using assms(10,14) m(4) by auto
  have "worker_handles V c K s (routed c False (mg_client_src2fd (lo_mgr st')) (fst (sys_pairs sys ! i)) qs)
      (received_on (sys_pairs sys) (mg_writes (lo_mgr st')) (cl_manager_fd s))"
    if i: "i < length (sys_pairs sys)" "sys_workers sys ! i = Inr w" "start_setup V w = Inr s" for i V w s
  proof -
    have "sys_workers sys ! i \<in> set (sys_workers sys)" using i(1) client_main_lengths [OF assms(1)] by simp
    from client_main_worker [OF assms(1) this i(2)] i(3)
    have "cl_msg_buffer s = [] \<and> cl_manager_live s \<and> cl_manager_fd s = cl_manager_fd w"
      by (metis start_setup_ready)
    then show ?thesis
      using st(4) i(1) m(2) client_main_wired(2) [OF assms(1,4) i(1,2)] by (simp add: received_on_def)
  qed
  then show ?thesis
    using st(1-3) m(2) client_main_lengths(1) [OF assms(1)] by (intro exI [of _ n] exI [of _ st']) simp
qed

text \<open>Two workers and a text file with one query.\<close>

definition text_cm :: "int cm_env" where
  "text_cm = demo_cm\<lparr>cm_input := (cm_input demo_cm)\<lparr>env_lines := [''# query'', ''7.5 a - - - udp'']\<rparr>\<rparr>"

definition text_cli :: cli where
  "text_cli = [(Short CHR ''s'', ''10.0.0.1:53''), (Short CHR ''i'', ''text:-''), (Short CHR ''n'', ''2'')]"

definition text_mgr :: "int manager" where
  "text_mgr = projr (Manager_new int_dbl (cm_input text_cm) (cm_aton text_cm) (cm_rand text_cm) 2 False ''-'' ''text'' [] []
     [3, 5] [100, 101] False (-1) (-1))"

definition text_worker :: client where
  "text_worker = projr (DNSClient_new (\<lambda>_. True) ''adaptive'' [] 30 ''10.0.0.1'' 53 4 0 OUTPUT_NONE False)"

lemma text_mgr:
  "Manager_new int_dbl (cm_input text_cm) (cm_aton text_cm) (cm_rand text_cm) 2 False ''-'' ''text'' [] []
     [3, 5] [100, 101] False (-1) (-1) = Inr text_mgr"
  "mg_ins text_mgr = Some text_demo" "mg_trace_limit text_mgr = -1" "mg_query_pace text_mgr = -1"
  by (simp_all add: text_mgr_def Manager_new_def InputSource_def input_src_map_def text_cm_def
      demo_cm_def format_defs text_demo_def raw_source_def add_client_def Manager_fields_def int_dbl_def)

lemma text_worker:
  "DNSClient_new (\<lambda>_. True) ''adaptive'' [] 30 ''10.0.0.1'' 53 4 0 OUTPUT_NONE False = Inr text_worker"
  by (simp add: text_worker_def DNSClient_new_def conn_set_def)

lemma text_system:
  "\<exists>sys. client_main text_cm 7 text_cli = Inr sys \<and> sys_pairs sys = [(3, 4), (5, 6)] \<and>
     sys_manager sys = Inr text_mgr \<and> sys_workers sys ! 0 = Inr text_worker"
proof -
  let ?a = "(client_args0 int_dbl 4)\<lparr>ca_server_ip := ''10.0.0.1'', ca_server_port := 53, ca_input_format := ''text'',
     ca_input_file := ''-'', ca_num_clients := 2\<rparr>"
  have args: "foldE (client_option (cm_stod text_cm)) (client_args0 (cm_dbl text_cm) (cm_cores text_cm)) text_cli = Inr ?a"
    by code_simp
  have check: "client_check ?a = Inr OUTPUT_NONE" by code_simp
  have pairs: "socket_pairs text_cm [0..<2] = Inr [(3, 4), (5, 6)]" by code_simp
  have pids: "fork_workers text_cm [0..<2] = Inr [100, 101]" "\<not> cm_fork text_cm 2 < 0" by code_simp+
  have mgr: "manager_process text_cm ?a [3, 5] [100, 101] = Inr text_mgr"
    using text_mgr(1) by (simp add: manager_process_def client_args0_def text_cm_def demo_cm_def int_dbl_def)
  have worker: "worker_process text_cm ?a OUTPUT_NONE 4 = Inr text_worker"
    using text_worker by (simp add: worker_process_def client_args0_def text_cm_def demo_cm_def SOCKET_UNIFY_NONE_def)
  show ?thesis
    unfolding client_main_def args bindE_Inr check using mgr worker by (simp add: pairs pids)
qed

theorem local_system_end_to_end_witness:
  "\<exists>sys st n st'. client_main text_cm 7 text_cli = Inr sys \<and> sys_manager sys = Inr text_mgr \<and>
    local_exec int_dbl wire_pb header_ldns (\<lambda>_. 0) (\<lambda>n bs. Some (length bs)) int [Some Loop_setup]
      (local_start int_dbl text_mgr) = Some (Inr st) \<and>
    local_exec int_dbl wire_pb header_ldns (\<lambda>_. 0) (\<lambda>n bs. Some (length bs)) int (replicate n None) st =
      Some (Inr st') \<and> lo_read st' = Read_done \<and>
    assigned (mg_client_src2fd (lo_mgr st')) {3, 5} text_query \<and>
    worker_handles Client_Props.demo_env wire_pb header_ldns (text_worker\<lparr>cl_manager_live := True\<rparr>)
      (routed wire_pb False (mg_client_src2fd (lo_mgr st')) 3 [text_query])
      (received_on [(3, 4), (5, 6)] (mg_writes (lo_mgr st')) 4)"
proof -
  obtain sys where sys: "client_main text_cm 7 text_cli = Inr sys" "sys_pairs sys = [(3, 4), (5, 6)]"
    "sys_manager sys = Inr text_mgr" "sys_workers sys ! 0 = Inr text_worker"
    using text_system by blast
  have F: "cm_dbl text_cm = int_dbl" by (simp add: text_cm_def demo_cm_def)
  have paced: "paced (cm_dbl text_cm) text_mgr [text_query] = [text_query]"
    by (simp add: text_query_facts text_mgr pace_msg_def F int_dbl_def)
  have start: "start_setup Client_Props.demo_env text_worker = Inr (text_worker\<lparr>cl_manager_live := True\<rparr>)"
    by (simp add: start_setup_def text_worker_def DNSClient_new_def conn_set_def)
  let ?st = "(local_start int_dbl text_mgr)\<lparr>lo_mgr := loop_setup text_mgr, lo_loop := Dispatching\<rparr>"
  have st: "local_exec (cm_dbl text_cm) wire_pb header_ldns (\<lambda>_. 0) (\<lambda>n bs. Some (length bs)) int [Some Loop_setup]
      (local_start (cm_dbl text_cm) text_mgr) = Some (Inr ?st)"
    by (simp add: local_step_def local_start_def F)
  note run = local_system_end_to_end [where K = header_ldns, OF sys(1) _ _ _ _ _ sys(3) text_mgr(2) text_demo_read paced [symmetric]
      wire.msg_codec_axioms text_input_ok full_writes_length _ _ _ st]
  have fd: "cl_manager_fd (text_worker\<lparr>cl_manager_live := True\<rparr>) = 4"
    by (simp add: text_worker_def DNSClient_new_def conn_set_def)
  show ?thesis
    using run sys start st int_clock fd
    by (fastforce simp: text_cli_def text_cm_def demo_cm_def F text_mgr(3,4) int_dbl_def)
qed

end
