(* ===== verification/Controller_Life.thy ===== *)
theory Controller_Life
  imports Postman
begin

text \<open>
  The life of the controller's two objects.  The postman's tables stay consistent under every
  sequence of connections, losses and queries that the system can produce, the start signal is
  written at most once, and the clean-up at the end of the event loop releases every
  connection.  The reader's and the postman's destructors and their error callbacks
  (\<^verbatim>\<open>reader.cc\<close>, \<^verbatim>\<open>postman.cc\<close>) are here too.
\<close>

section \<open>Destructors and error callbacks\<close>

definition Reader_clean_up :: "reader \<Rightarrow> reader" where
  "Reader_clean_up rd = rd\<lparr>rd_ins := InputSource_destroy (rd_ins rd)\<rparr>"

definition Reader_destroy :: "reader \<Rightarrow> reader" where
  "Reader_destroy rd = Reader_clean_up rd"

definition Reader_log_err :: "reader \<Rightarrow> string \<Rightarrow> reader \<times> fault" where
  "Reader_log_err rd s = (Reader_clean_up rd, Exit 1 s)"

text \<open>
  The event callback of the reader's socket while it waits; \<open>e\<close> is what
  \<^verbatim>\<open>bufferevent_socket_get_dns_error\<close> returns.
\<close>

definition reader_event_cb :: "u16 \<Rightarrow> int \<Rightarrow> unit result" where
  "reader_event_cb events e =
     (if events AND BEV_EVENT_ERROR \<noteq> 0 \<and> e \<noteq> 0 then Inl (Exit 1 ''event error'') else Inr ())"

definition Postman_destroy :: "postman \<Rightarrow> postman" where
  "Postman_destroy s = s\<lparr>pm_out_open := False\<rparr>"

section \<open>Reachable states\<close>

text \<open>
  What the system reports: a new connection has a descriptor that is not in use, and an event of
  a connection comes with its own descriptor.
\<close>

fun pm_ev_ok :: "postman \<Rightarrow> pm_event \<Rightarrow> bool" where
  "pm_ev_ok s (Accept addr fd) \<longleftrightarrow> fd \<notin> fst ` set (pm_fd2bev s)"
| "pm_ev_ok s (Peer_event b fd w err) \<longleftrightarrow> (fd, b) \<in> set (pm_fd2bev s)"
| "pm_ev_ok s _ \<longleftrightarrow> True"

inductive pm_reach :: "pb \<Rightarrow> postman \<Rightarrow> postman \<Rightarrow> bool" for c s\<^sub>0 where
  start: "pm_reach c s\<^sub>0 s\<^sub>0"
| step: "pm_reach c s\<^sub>0 s \<Longrightarrow> pm_ev_ok s ev \<Longrightarrow> pm_handle c s ev = Inr s' \<Longrightarrow> pm_reach c s\<^sub>0 s'"

text \<open>
  The invariant: the connections are the live bufferevents, each under one descriptor; the
  sources known for a descriptor are those assigned to it, and only connected clients have any;
  the start signal was written once, or not yet.
\<close>

definition conn_inv :: "postman \<Rightarrow> bool" where
  "conn_inv s \<longleftrightarrow>
     distinct (map fst (pm_fd2bev s)) \<and> distinct (map snd (pm_fd2bev s)) \<and>
     set (pm_live s) = snd ` set (pm_fd2bev s) \<and> (\<forall>b \<in> set (pm_live s). b < pm_next_bev s) \<and>
     dom (pm_fd2src s) = fst ` set (pm_fd2bev s) \<and> fst ` set (pm_fd2bev s) \<subseteq> set (pm_client_fds s)"

definition source_inv :: "postman \<Rightarrow> bool" where
  "source_inv s \<longleftrightarrow> (\<forall>ip fd. pm_src2fd s ip = Some fd \<longleftrightarrow> (\<exists>l. pm_fd2src s fd = Some l \<and> ip \<in> set l))"

definition signal_inv :: "postman \<Rightarrow> bool" where
  "signal_inv s \<longleftrightarrow> pm_skt_written s = (if pm_start_read_input s then str_bytes POSTMAN_FLAG else [])"

definition pm_inv :: "postman \<Rightarrow> bool" where
  "pm_inv s \<longleftrightarrow> conn_inv s \<and> source_inv s \<and> signal_inv s"

lemmas pm_inv_defs = pm_inv_def conn_inv_def source_inv_def signal_inv_def

lemma pm_inv_frame [simp]:
  "pm_inv (s\<lparr>pm_writes := a\<rparr>) = pm_inv s" "pm_inv (s\<lparr>pm_draws := b\<rparr>) = pm_inv s"
  "pm_inv (s\<lparr>pm_done_sync_time := d\<rparr>) = pm_inv s" "pm_inv (s\<lparr>pm_skt_buffer := e\<rparr>) = pm_inv s"
  "pm_inv (s\<lparr>pm_skt_live := f\<rparr>) = pm_inv s" "pm_inv (s\<lparr>pm_out_text := g\<rparr>) = pm_inv s"
  "pm_inv (s\<lparr>pm_stdout := h\<rparr>) = pm_inv s"
  by (simp_all add: pm_inv_defs)

lemma accept_inv:
  assumes "accept_conn_cb addr fd s = Inr s'" and "pm_inv s" and "fd \<notin> fst ` set (pm_fd2bev s)"
  shows "pm_inv s'"
proof -
  have f: "filter (\<lambda>x. fst x \<noteq> fd) (pm_fd2bev s) = pm_fd2bev s"
    using assms(3) by (auto intro!: filter_True)
  have none: "pm_fd2src s fd = None" using assms(2,3) by (auto simp: pm_inv_defs dom_def)
  then have src: "pm_src2fd s ip \<noteq> Some fd" for ip using assms(2) by (auto simp: pm_inv_defs)
  have fresh: "pm_next_bev s \<notin> snd ` set (pm_fd2bev s)" using assms(2) by (auto simp: pm_inv_defs)
  have s': "pm_next_bev s' = Suc (pm_next_bev s)" "pm_live s' = pm_next_bev s # pm_live s"
    "pm_fd2bev s' = (fd, pm_next_bev s) # pm_fd2bev s" "pm_fd2src s' = (pm_fd2src s)(fd \<mapsto> [])"
    "pm_client_fds s' = pm_client_fds s @ [fd]" "pm_src2fd s' = pm_src2fd s"
    and w: "signal_inv s \<Longrightarrow> signal_inv s'"
    using assms(1) by (auto simp: accept_conn_cb_def Let_def f signal_inv_def split: option.splits if_splits)
  have "conn_inv s'"
    using assms(2,3) fresh by (auto simp: s' pm_inv_def conn_inv_def less_Suc_eq)
  moreover have "source_inv s'" using assms(2) none src by (auto simp: s' pm_inv_def source_inv_def)
  moreover have "signal_inv s'" using assms(2) w by (simp add: pm_inv_def)
  ultimately show ?thesis by (simp add: pm_inv_def)
qed

lemma client_bevent_inv:
  assumes "client_bevent_cb_helper err b fd w s = Inr s'" and "pm_inv s" and "(fd, b) \<in> set (pm_fd2bev s)"
  shows "pm_inv s'"
proof (cases "pm_err_msg err w = []")
  case True
  with assms show ?thesis by (simp add: client_bevent_cb_helper_def)
next
  case False
  have d: "distinct (map fst (pm_fd2bev s))" "distinct (map snd (pm_fd2bev s))"
    using assms(2) by (auto simp: pm_inv_defs)
  then have get: "map_of (pm_fd2bev s) fd = Some b" using assms(3) by simp
  have "fd \<in> fst ` set (pm_fd2bev s)" using assms(3) by force
  then have "fd \<in> dom (pm_fd2src s)" using assms(2) by (simp add: pm_inv_def conn_inv_def)
  then obtain l where l: "pm_fd2src s fd = Some l" by auto
  have inj: "inj_on snd (set (pm_fd2bev s))" using d(2) by (simp add: distinct_map)
  have u1: "(fd, b') \<in> set (pm_fd2bev s) \<Longrightarrow> b' = b" for b'
    using eq_key_imp_eq_value [OF d(1) _ assms(3)] .
  have s': "s' = s\<lparr>pm_live := removeAll b (pm_live s), pm_fd2bev := filter (\<lambda>x. fst x \<noteq> fd) (pm_fd2bev s),
      pm_src2fd := (pm_src2fd s) |` (- set l), pm_fd2src := (pm_fd2src s)(fd := None)\<rparr>"
    using assms(1) False get l
    by (auto simp: client_bevent_cb_helper_def pm_bev_free_def client_bevent_cb_def Let_def fault_simps split: if_splits)
  have "{x \<in> set (pm_fd2bev s). fst x \<noteq> fd} = set (pm_fd2bev s) - {(fd, b)}"
  proof (rule set_eqI)
    fix x :: "int \<times> nat"
    obtain f b' where "x = (f, b')" by (cases x)
    then show "x \<in> {x \<in> set (pm_fd2bev s). fst x \<noteq> fd} \<longleftrightarrow> x \<in> set (pm_fd2bev s) - {(fd, b)}"
      using u1 [of b'] by (cases "f = fd") simp_all
  qed
  then have "snd ` {x \<in> set (pm_fd2bev s). fst x \<noteq> fd} = snd ` set (pm_fd2bev s) - {b}"
    using inj_on_image_set_diff [OF inj, of "set (pm_fd2bev s)" "{(fd, b)}"] assms(3) by simp
  moreover have "fst ` {x \<in> set (pm_fd2bev s). fst x \<noteq> fd} = fst ` set (pm_fd2bev s) - {fd}" by auto
  moreover have "conn_inv s" using assms(2) by (simp add: pm_inv_def)
  ultimately have "conn_inv s'"
    unfolding conn_inv_def s' by (simp add: distinct_map_filter) blast
  moreover have "source_inv s'"
  proof -
    have src: "pm_src2fd s ip = Some f \<longleftrightarrow> (\<exists>l. pm_fd2src s f = Some l \<and> ip \<in> set l)" for ip f
      using assms(2) by (simp add: pm_inv_def source_inv_def)
    have k: "ip \<in> set l \<longleftrightarrow> pm_src2fd s ip = Some fd" for ip using src l by simp
    have "((pm_src2fd s) |` (- set l)) ip = Some f \<longleftrightarrow> f \<noteq> fd \<and> pm_src2fd s ip = Some f" for ip f
      by (auto simp: restrict_map_def k)
    then show ?thesis by (simp add: source_inv_def s' src)
  qed
  moreover have "signal_inv s'" using assms(2) by (simp add: s' pm_inv_defs)
  ultimately show ?thesis by (simp add: pm_inv_def)
qed

lemma pick_client_inv:
  assumes "pick_client s ip = Inr (b, s')" and "pm_inv s"
  shows "pm_inv s'"
proof (cases "pm_src2fd s ip")
  case (Some fd)
  with assms show ?thesis by (auto simp: pick_client_def rand_client_def fault_simps split: option.splits)
next
  case None
  with assms(1) obtain fd k where s': "s' = add_source (s\<lparr>pm_draws := k\<rparr>) ip fd"
    and "map_of (pm_fd2bev s) fd = Some b"
    by (auto simp: pick_client_def rand_client_def draw_index_def Let_def fault_simps
        split: option.splits if_splits)
  then have "fd \<in> fst ` set (pm_fd2bev s)" by (force dest: map_of_SomeD)
  then have "fd \<in> dom (pm_fd2src s)" using assms(2) by (simp add: pm_inv_def conn_inv_def)
  then obtain l where l: "pm_fd2src s fd = Some l" by auto
  have "conn_inv s'" using assms(2) l by (auto simp: s' add_source_def pm_inv_def conn_inv_def)
  moreover have "\<forall>f l. pm_fd2src s f = Some l \<longrightarrow> ip \<notin> set l"
    using assms(2) None unfolding pm_inv_def source_inv_def by (metis option.distinct(1))
  then have "source_inv s'"
    using assms(2) l None by (auto simp: s' add_source_def pm_inv_def source_inv_def)
  moreover have "signal_inv s'" using assms(2) by (simp add: s' add_source_def pm_inv_def signal_inv_def)
  ultimately show ?thesis by (simp add: pm_inv_def)
qed

lemma skt_msg_inv:
  assumes "skt_msg c s d = Inr s'" and "pm_inv s"
  shows "pm_inv s'"
proof (cases "raw (ParseFromArray c d) = []")
  case True
  with assms show ?thesis by (simp add: skt_msg_def)
next
  case False
  with assms(1) obtain s1 b s2 str where "pm_sync c s (ParseFromArray c d) = Inr s1"
    "pick_client s1 (c_str (src_ip (ParseFromArray c d))) = Inr (b, s2)"
    "s' = s2\<lparr>pm_writes := pm_writes s2 @ frame_writes b str\<rparr>"
    by (auto simp: skt_msg_def Let_def fault_simps)
  moreover from this(1) assms(2) have "pm_inv s1"
    by (auto simp: pm_sync_def fault_simps split: if_splits)
  ultimately show ?thesis using pick_client_inv by simp
qed

lemma skt_loop_inv: "skt_loop c b s = Inr (s', r) \<Longrightarrow> pm_inv s \<Longrightarrow> pm_inv s'"
  by (rule skt_loop_preserves [where P = pm_inv]) (rule skt_msg_inv)

lemma pm_handle_inv:
  assumes "pm_handle c s ev = Inr s'" and "pm_ev_ok s ev" and "pm_inv s"
  shows "pm_inv s'"
proof (cases ev)
  case (Accept addr fd)
  with assms show ?thesis using accept_inv by simp
next
  case (Peer_read b d)
  with assms show ?thesis by (auto simp: client_read_cb_def split: if_splits)
next
  case (Peer_event b fd w err)
  with assms show ?thesis using client_bevent_inv by (auto split: if_splits)
next
  case (Skt_read d)
  with assms show ?thesis
    by (auto simp: skt_read_cb_def fault_simps split: if_splits dest: skt_loop_inv)
next
  case (Skt_event w err)
  with assms show ?thesis by (auto simp: skt_event_cb_def split: if_splits)
qed

lemma pm_reach_inv: "pm_reach c s\<^sub>0 s \<Longrightarrow> pm_inv s\<^sub>0 \<Longrightarrow> pm_inv s"
  by (induction rule: pm_reach.induct) (auto dest: pm_handle_inv)

lemma Postman_new_inv:
  "Postman_new files opens uf uc ofn ip port n f = Inr s \<Longrightarrow> pm_inv (s\<lparr>pm_skt_live := True\<rparr>) \<and> pm_inv s"
  by (auto simp: Postman_new_def fault_simps pm_inv_defs split: if_splits)

text \<open>A sequence of events that the system can report, from a given state on.\<close>

fun pm_valid :: "pb \<Rightarrow> postman \<Rightarrow> pm_event list \<Rightarrow> bool" where
  "pm_valid c s [] \<longleftrightarrow> True"
| "pm_valid c s (ev # evs) \<longleftrightarrow>
     pm_ev_ok s ev \<and> (case pm_handle c s ev of Inl _ \<Rightarrow> True | Inr s' \<Rightarrow> pm_valid c s' evs)"

lemma pm_reach_run:
  assumes "pm_reach c s\<^sub>0 s" and "pm_valid c s evs" and "foldE (pm_handle c) s evs = Inr s'"
  shows "pm_reach c s\<^sub>0 s'"
  using assms
proof (induction evs arbitrary: s)
  case Nil
  then show ?case by simp
next
  case (Cons ev evs)
  then obtain s1 where "pm_handle c s ev = Inr s1" "foldE (pm_handle c) s1 evs = Inr s'"
    by (auto simp: bindE_eq_Inr)
  with Cons pm_reach.step [of c s\<^sub>0 s ev s1] show ?case by simp
qed

section \<open>Properties\<close>

text \<open>
  C22.  The postman's tables stay consistent whatever connects, disconnects or is to be sent: the
  connections are exactly the live bufferevents, each under its own descriptor; the two tables of
  sources mirror each other; a source is never assigned to a client that is not connected; and
  the start signal has been written once or not at all.
\<close>

theorem postman_tables_consistent:
  assumes "Postman_new files opens uf uc ofn ip port n f = Inr s\<^sub>0"
    and "pm_valid c (s\<^sub>0\<lparr>pm_skt_live := True\<rparr>) evs"
    and "foldE (pm_handle c) (s\<^sub>0\<lparr>pm_skt_live := True\<rparr>) evs = Inr s"
  shows "pm_inv s \<and> ran (pm_src2fd s) \<subseteq> fst ` set (pm_fd2bev s)"
proof -
  have inv: "pm_inv s"
    using pm_reach_inv [OF pm_reach_run [OF pm_reach.start assms(2,3)]] Postman_new_inv [OF assms(1)] by blast
  have "fd \<in> fst ` set (pm_fd2bev s)" if "fd \<in> ran (pm_src2fd s)" for fd
  proof -
    from that obtain a where "pm_src2fd s a = Some fd" by (auto simp: ran_def)
    then have "fd \<in> dom (pm_fd2src s)" using inv by (auto simp: pm_inv_def source_inv_def)
    then show ?thesis using inv by (simp add: pm_inv_def conn_inv_def)
  qed
  with inv show ?thesis by blast
qed

definition life_conns :: "pm_event list" where
  "life_conns = [Accept (Some ''10.0.0.2'') 7, Accept (Some ''10.0.0.3'') 8,
     Peer_event 0 7 BEV_EVENT_EOF [], Accept (Some ''10.0.0.2'') 7]"

definition life_postman :: postman where
  "life_postman = projr (foldE (pm_handle (table_pb [])) (demo_postman\<lparr>pm_skt_live := True\<rparr>) life_conns)"

lemma life_conns_run:
  "pm_valid (table_pb []) (demo_postman\<lparr>pm_skt_live := True\<rparr>) life_conns"
  "foldE (pm_handle (table_pb [])) (demo_postman\<lparr>pm_skt_live := True\<rparr>) life_conns = Inr life_postman"
proof -
  show "pm_valid (table_pb []) (demo_postman\<lparr>pm_skt_live := True\<rparr>) life_conns"
    by code_simp
  have "(case foldE (pm_handle (table_pb [])) (demo_postman\<lparr>pm_skt_live := True\<rparr>) life_conns of
      Inr s \<Rightarrow> True | _ \<Rightarrow> False)"
    by code_simp
  then show "foldE (pm_handle (table_pb [])) (demo_postman\<lparr>pm_skt_live := True\<rparr>) life_conns = Inr life_postman"
    unfolding life_postman_def by (auto split: sum.splits)
qed

theorem postman_tables_consistent_witness:
  "pm_inv life_postman \<and> ran (pm_src2fd life_postman) \<subseteq> fst ` set (pm_fd2bev life_postman)"
  by (rule postman_tables_consistent [OF new_postman_demo [unfolded new_postman_def] life_conns_run])

lemma free_all_bevs:
  "distinct bs \<Longrightarrow> set bs \<subseteq> set (pm_live s) \<Longrightarrow>
   foldE pm_bev_free s bs = Inr (s\<lparr>pm_live := filter (\<lambda>b. b \<notin> set bs) (pm_live s)\<rparr>)"
proof (induction bs arbitrary: s)
  case (Cons b bs)
  have "filter (\<lambda>x. x \<notin> set bs) (removeAll b l) = filter (\<lambda>x. x \<noteq> b \<and> x \<notin> set bs) l" for l :: "nat list"
    by (induction l) auto
  with Cons.IH [of "s\<lparr>pm_live := removeAll b (pm_live s)\<rparr>"] Cons.prems show ?case
    by (auto simp: pm_bev_free_def)
qed simp



end
