(* ===== verification/Distributed_System.thy ===== *)
theory Distributed_System
  imports Client_System Controller_Life
begin

text \<open>
  The whole distributed replay, from the command lines: \<^verbatim>\<open>main.cc\<close> of the controller starts the
  postman and the reader, the clients connect, the last connection lets the reader read its
  input, and the queries travel over the postman and the managers to the workers of the clients.
\<close>

section \<open>The clients connect\<close>

abbreviation accepted :: "(string \<times> int) list \<Rightarrow> pm_event list" where
  "accepted \<equiv> map (\<lambda>(a, fd). Accept (Some a) fd)"

lemma connections_accepted:
  assumes "distinct (map snd conns)" and "length conns \<le> unat (pm_num_clients s)" and "pm_num_clients s \<noteq> 0"
    and "pm_fd2bev s = []" "pm_client_fds s = []" "\<not> pm_start_read_input s" "pm_next_bev s = 0"
  shows "\<exists>s'. foldE (pm_handle c) s (accepted conns) = Inr s' \<and>
    pm_fd2bev s' = rev (zip (map snd conns) [0..<length conns]) \<and> pm_client_fds s' = map snd conns \<and>
    pm_next_bev s' = length conns \<and> pm_start_read_input s' = (length conns = unat (pm_num_clients s)) \<and>
    pm_skt_written s' = pm_skt_written s @
      (if length conns = unat (pm_num_clients s) then str_bytes POSTMAN_FLAG else []) \<and>
    pm_num_clients s' = pm_num_clients s \<and> pm_filter s' = pm_filter s \<and> pm_src2fd s' = pm_src2fd s \<and>
    pm_uniform_filter s' = pm_uniform_filter s \<and> pm_uniform_client s' = pm_uniform_client s \<and>
    pm_skt_buffer s' = pm_skt_buffer s \<and> pm_writes s' = pm_writes s \<and>
    pm_done_sync_time s' = pm_done_sync_time s \<and> pm_skt_live s' = pm_skt_live s"
  using assms(1,2)
proof (induction conns rule: rev_induct)
  case Nil
  then show ?case using assms(3-7) by (simp add: unat_eq_0)
next
  case (snoc x conns)
  obtain a fd where x: "x = (a, fd)" by fastforce
  from snoc obtain s1 where s1: "foldE (pm_handle c) s (accepted conns) = Inr s1"
    "pm_fd2bev s1 = rev (zip (map snd conns) [0..<length conns])" "pm_client_fds s1 = map snd conns"
    "pm_next_bev s1 = length conns" "pm_start_read_input s1 = (length conns = unat (pm_num_clients s))"
    "pm_skt_written s1 = pm_skt_written s @
      (if length conns = unat (pm_num_clients s) then str_bytes POSTMAN_FLAG else [])"
    "pm_num_clients s1 = pm_num_clients s" "pm_filter s1 = pm_filter s" "pm_src2fd s1 = pm_src2fd s"
    "pm_uniform_filter s1 = pm_uniform_filter s" "pm_uniform_client s1 = pm_uniform_client s"
    "pm_skt_buffer s1 = pm_skt_buffer s" "pm_writes s1 = pm_writes s"
    "pm_done_sync_time s1 = pm_done_sync_time s" "pm_skt_live s1 = pm_skt_live s"
    by auto
  have "filter (\<lambda>x. fst x \<noteq> fd) (pm_fd2bev s1) = pm_fd2bev s1"
    using snoc.prems(1) x set_zip_leftD [of fd _ "map snd conns"] by (auto simp: s1(2) intro!: filter_True)
  then show ?case
    using snoc.prems(2) s1 x by (simp add: foldE_append accept_conn_cb_def Let_def)
qed

text \<open>The postman of a configuration that main lets pass, once all clients are connected.\<close>

lemma main_draws_ok:
  assumes "main_filter Q fl = Inr f" and "0 < fl_num_clients fl" and "pm_filter p = f"
    and "fl_filter fl \<noteq> [] \<longrightarrow> one_pass (k_files Q) (fl_filter fl) \<and> (\<forall>w \<in> set (weight f). 0 \<le> w)"
    and "\<forall>k. pm_uniform_filter p k \<in> {0..<100}" and "\<forall>k. pm_uniform_client p k \<in> {0..<fl_num_clients fl}"
    and "int (length (pm_client_fds p)) = fl_num_clients fl"
  shows "draws_ok p"
proof (cases "fl_filter fl = []")
  case True
  with assms show ?thesis by (auto simp: main_filter_def draws_ok_def Filter_default_def GetNumClients_def)
next
  case False
  with assms(1) have set: "Filter_Set (k_files Q) Filter_default (fl_filter fl) (fl_num_clients fl) = Inr f"
    and "Valid f" by (auto simp: main_filter_def fault_simps split: if_splits)
  then have "\<exists>c \<in> {0..<fl_num_clients fl}. GetClientIndex f (pm_uniform_filter p k) = Inr c" for k
    using valid_filter_index [OF set assms(2) False] assms(4,5) False by blast
  then show ?thesis
    using Filter_Set_frame(1) [OF set] assms(2,3,7) unfolding draws_ok_def GetNumClients_def
    by (metis atLeastLessThan_iff order_less_irrefl)
qed

lemma connected_postman_good:
  assumes "pm_fd2bev p = rev (zip fds [0..<length fds])" and "pm_client_fds p = fds" and "distinct fds"
    and "fds \<noteq> []" and "pm_src2fd p = Map.empty" and "draws_ok p"
  shows "pm_good p" and "pm_peers p = {0..<length fds}"
proof -
  have "set fds = dom (map_of (pm_fd2bev p))"
    using assms(1) by (simp add: dom_map_of_conv_image_fst set_map [symmetric] del: set_map)
  then show "pm_good p" using assms by (simp add: pm_good_def rev_map [symmetric])
  have "snd ` set (zip fds [0..<length fds]) = set [0..<length fds]"
    by (metis length_upt list.set_map map_snd_zip minus_nat.diff_0)
  then show "pm_peers p = {0..<length fds}" using assms(1) by (simp add: pm_peers_def)
qed

section \<open>A client that connects to the controller\<close>

text \<open>
  The processes of a client in distributed mode after their set-up: the socket pairs \<open>pairs\<close>, the
  manager \<open>m\<close> with its connection \<open>bev\<close>, and for the manager's end \<open>fd\<close> of the \<open>i\<close>-th pair the \<open>i\<close>-th
  worker \<open>w fd\<close>, with the descriptor it was given.
\<close>

definition dist_client ::
    "'r cm_env \<Rightarrow> nat \<Rightarrow> cli \<Rightarrow> (int \<Rightarrow> cenv) \<Rightarrow> (int \<times> int) list \<Rightarrow> 'r manager \<Rightarrow> nat \<Rightarrow> (int \<Rightarrow> client) \<Rightarrow> bool" where
  "dist_client E argc opts V pairs m bev w \<longleftrightarrow>
     (\<exists>sys m0. client_main E argc opts = Inr sys \<and> sys_pairs sys = pairs \<and> (\<forall>x \<in> set opts. fst x \<noteq> Short CHR ''u'') \<and>
        (\<forall>i p q. cm_socketpair E i = Some (p, q) \<longrightarrow> 0 < p \<and> 0 < q) \<and>
        ends_distinct pairs \<and> pairs \<noteq> [] \<and> length pairs < 2 ^ 31 \<and>
        sys_manager sys = Inr m0 \<and> mg_dist m0 \<and>
        com_connect True (loop_setup m0) = Inr m \<and> mg_com_bev m = Some bev \<and>
        (\<forall>i < length pairs. \<exists>w0. sys_workers sys ! i = Inr w0 \<and>
           start_setup (V (fst (pairs ! i))) w0 = Inr (w (fst (pairs ! i)))))"

lemma setup_bevs_frame:
  "setup_bevs cs m = (cs', m') \<Longrightarrow> \<exists>n l f. m' = m\<lparr>mg_next_bev := n, mg_live := l, mg_bev_fd := f\<rparr>"
proof (induction cs arbitrary: m cs' m')
  case Nil
  then show ?case by (auto intro!: exI [of _ "mg_next_bev m"] exI [of _ "mg_live m"] exI [of _ "mg_bev_fd m"])
next
  case (Cons clt cs)
  from Cons.prems obtain cs2 where "setup_bevs cs (snd (bev_new (Some (ct_fd clt)) m)) = (cs2, m')"
    by (auto simp: bev_new_def split: prod.splits)
  from Cons.IH [OF this] show ?case by (auto simp: bev_new_def)
qed

lemma dist_client_ready:
  assumes "dist_client E argc opts V pairs m bev w"
  shows "client_ready pairs m bev w"
proof -
  from assms obtain sys m0 where sys: "client_main E argc opts = Inr sys" "\<forall>x \<in> set opts. fst x \<noteq> Short CHR ''u''"
    "\<forall>i p q. cm_socketpair E i = Some (p, q) \<longrightarrow> 0 < p \<and> 0 < q"
    "ends_distinct (sys_pairs sys)" "sys_pairs sys \<noteq> []" "length (sys_pairs sys) < 2 ^ 31"
    "sys_manager sys = Inr m0" and pairs: "sys_pairs sys = pairs" and con: "com_connect True (loop_setup m0) = Inr m" "mg_com_bev m = Some bev"
    and w: "\<forall>i < length (sys_pairs sys). \<exists>w0. sys_workers sys ! i = Inr w0 \<and>
           start_setup (V (fst (sys_pairs sys ! i))) w0 = Inr (w (fst (sys_pairs sys ! i)))"
    unfolding dist_client_def by blast
  have "distinct (map fst (sys_pairs sys))" using sys(4) by simp
  note m0 = client_main_manager [OF sys(1,7,3) this sys(5,6,2)]
  obtain cs m1 where "setup_bevs (mg_client_vec m0) m0 = (cs, m1)" by fastforce
  with con obtain n l f where
    "m = m0\<lparr>mg_client_vec := cs, mg_next_bev := n, mg_live := bev # l, mg_bev_fd := f, mg_com_bev := Some bev\<rparr>"
    by (auto simp: com_connect_def loop_setup_def bev_new_def dest!: setup_bevs_frame)
  then have m: "mgr_ok m = mgr_ok m0" "mg_client_fd m = mg_client_fd m0" "mg_writes m = mg_writes m0"
    "mg_done_sync_time m = mg_done_sync_time m0" "mg_com_msg_buffer m = mg_com_msg_buffer m0" "bev \<in> set (mg_live m)"
    by (simp_all add: mgr_ok_def)
  have "cl_msg_buffer (w fd) = [] \<and> cl_manager_live (w fd) \<and> peer pairs (cl_manager_fd (w fd)) = Some fd"
    if fd: "fd \<in> set (mg_client_fd m)" for fd
  proof -
    from fd m(2) m0(2) obtain i where i: "i < length (sys_pairs sys)" "fd = fst (sys_pairs sys ! i)"
      by (auto simp: in_set_conv_nth)
    with w obtain w0 where w0: "sys_workers sys ! i = Inr w0" "start_setup (V fd) w0 = Inr (w fd)" by auto
    have "sys_workers sys ! i \<in> set (sys_workers sys)" using i(1) client_main_lengths [OF sys(1)] by simp
    from client_main_worker [OF sys(1) this w0(1)] w0(2)
    have "cl_msg_buffer (w fd) = [] \<and> cl_manager_live (w fd) \<and> cl_manager_fd (w fd) = cl_manager_fd w0"
      by (metis start_setup_ready)
    with client_main_wired(2) [OF sys(1,4) i(1) w0(1)] i(2) pairs show ?thesis by simp
  qed
  with m m0 con(2) show ?thesis by (simp add: client_ready_def)
qed

section \<open>Properties\<close>

lemma postman_process_fields:
  assumes "postman_process Q fl f = Some (Inr pm)" and "main_filter Q fl = Inr f"
  shows "pm_num_clients pm = of_int (fl_num_clients fl)" "pm_num_clients pm \<noteq> 0" "pm_filter pm = f"
    "pm_fd2bev pm = []" "pm_client_fds pm = []" "\<not> pm_start_read_input pm" "pm_next_bev pm = 0"
    "pm_skt_written pm = []" "pm_src2fd pm = Map.empty" "pm_skt_buffer pm = []" "pm_writes pm = []"
    "\<not> pm_done_sync_time pm" "pm_uniform_filter pm = k_uniform_filter Q" "pm_uniform_client pm = k_uniform_client Q"
  using assms filter_set_again [OF assms(2)]
  by (auto simp: postman_process_def Postman_new_def fault_simps split: if_split_asm)

lemma postman_connected:
  assumes "postman_process Q fl f = Some (Inr pm)" and "main_filter Q fl = Inr f"
    and "0 < fl_num_clients fl" and "fl_num_clients fl \<le> int_max"
    and "distinct (map snd conns)" and "int (length conns) = fl_num_clients fl"
    and "fl_filter fl \<noteq> [] \<longrightarrow> one_pass (k_files Q) (fl_filter fl) \<and> (\<forall>w \<in> set (weight f). 0 \<le> w)"
    and "\<forall>k. k_uniform_filter Q k \<in> {0..<100}" and "\<forall>k. k_uniform_client Q k \<in> {0..<fl_num_clients fl}"
  obtains p where "foldE (pm_handle c) (pm\<lparr>pm_skt_live := True\<rparr>) (accepted conns) = Inr p"
    "pm_skt_written p = str_bytes POSTMAN_FLAG" "pm_good p" "pm_peers p = {0..<length conns}"
    "pm_skt_buffer p = []" "pm_writes p = []" "\<not> pm_done_sync_time p" "pm_skt_live p"
proof -
  note pm = postman_process_fields [OF assms(1,2)]
  have n: "length conns = unat (pm_num_clients pm)"
  proof -
    have "uint (of_int (fl_num_clients fl) :: u32) = fl_num_clients fl"
      using assms(3,4) by (simp add: uint_word_of_int int_max_def)
    then show ?thesis using pm(1) assms(6) by (simp add: unat_eq_nat_uint)
  qed
  obtain p where p: "foldE (pm_handle c) (pm\<lparr>pm_skt_live := True\<rparr>) (accepted conns) = Inr p"
    "pm_fd2bev p = rev (zip (map snd conns) [0..<length (map snd conns)])" "pm_client_fds p = map snd conns"
    "pm_skt_written p = str_bytes POSTMAN_FLAG" "pm_filter p = f" "pm_src2fd p = Map.empty"
    "pm_uniform_filter p = k_uniform_filter Q" "pm_uniform_client p = k_uniform_client Q"
    "pm_skt_buffer p = []" "pm_writes p = []" "\<not> pm_done_sync_time p" "pm_skt_live p"
    using connections_accepted [OF assms(5), of "pm\<lparr>pm_skt_live := True\<rparr>" c] n pm by auto
  have "draws_ok p" using main_draws_ok [OF assms(2,3) p(5) assms(7)] p(3,7,8) assms(6,8,9) by simp
  moreover have "map snd conns \<noteq> []" using assms(3,6) by auto
  ultimately have "pm_good p" "pm_peers p = {0..<length (map snd conns)}"
    using connected_postman_good [OF p(2,3) assms(5) _ p(6)] by blast+
  with p that show thesis by simp
qed


text \<open>A text file with one query, a controller with a filter and two clients with two workers each.\<close>

definition dist_cli :: cli where
  "dist_cli = [(Short CHR ''s'', ''10.0.0.1:53''), (Short CHR ''r'', ''10.0.0.9:80''), (Short CHR ''d'', []),
     (Short CHR ''n'', ''2'')]"

definition dist_mgr :: "int manager" where
  "dist_mgr = projr (Manager_new int_dbl (cm_input demo_cm) (\<lambda>_. True) id 2 True [] [] [] ''10.0.0.9''
     [3, 5] [100, 101] False (-1) (-1))"

definition connected_mgr :: "int manager" where
  "connected_mgr = projr (com_connect True (loop_setup dist_mgr))"

definition demo_worker :: "int \<Rightarrow> client" where
  "demo_worker fd = projr (DNSClient_new (\<lambda>_. True) ''adaptive'' [] 30 ''10.0.0.1'' 53 fd 0 OUTPUT_NONE False)"

text \<open>The workers of the manager's ends 3 and 5 read at 4 and 6.\<close>

definition ready_worker :: "int \<Rightarrow> client" where
  "ready_worker fd = (demo_worker (fd + 1))\<lparr>cl_manager_live := True\<rparr>"

lemma dist_mgr:
  "Manager_new int_dbl (cm_input demo_cm) (\<lambda>_. True) id 2 True [] [] [] ''10.0.0.9''
     [3, 5] [100, 101] False (-1) (-1) = Inr dist_mgr" "mg_dist dist_mgr"
  "com_connect True (loop_setup dist_mgr) = Inr connected_mgr" "mg_com_bev connected_mgr = Some 2"
  by (simp_all add: connected_mgr_def dist_mgr_def Manager_new_def add_client_def Manager_fields_def com_connect_def
      loop_setup_def bev_new_def)

lemma dist_worker:
  "0 < fd \<Longrightarrow> start_setup E (demo_worker fd) = Inr ((demo_worker fd)\<lparr>cl_manager_live := True\<rparr>)"
  by (simp add: start_setup_def demo_worker_def DNSClient_new_def conn_set_def)

lemma dist_demo: "dist_client demo_cm 9 dist_cli (\<lambda>fd. Client_Props.demo_env) [(3, 4), (5, 6)] connected_mgr 2 ready_worker"
proof -
  let ?a = "(client_args0 int_dbl 4)\<lparr>ca_server_ip := ''10.0.0.1'', ca_server_port := 53, ca_command_ip := ''10.0.0.9'',
     ca_command_port := 80, ca_dist := True, ca_num_clients := 2\<rparr>"
  let ?sys = "\<lparr>sys_pairs = [(3, 4), (5, 6)], sys_pids = [100, 101],
     sys_workers = [Inr (demo_worker 4), Inr (demo_worker 6)], sys_manager = Inr dist_mgr\<rparr>"
  have args: "foldE (client_option (cm_stod demo_cm)) (client_args0 (cm_dbl demo_cm) (cm_cores demo_cm)) dist_cli = Inr ?a"
    by code_simp
  have check: "client_check ?a = Inr OUTPUT_NONE" by code_simp
  have pairs: "socket_pairs demo_cm [0..<2] = Inr [(3, 4), (5, 6)]" by code_simp
  have pids: "fork_workers demo_cm [0..<2] = Inr [100, 101]" "\<not> cm_fork demo_cm 2 < 0" by code_simp+
  have mgr: "manager_process demo_cm ?a [3, 5] [100, 101] = Inr dist_mgr"
    using dist_mgr(1) by (simp add: manager_process_def client_args0_def demo_cm_def int_dbl_def)
  have worker: "worker_process demo_cm ?a OUTPUT_NONE fd = Inr (demo_worker fd)" if "0 < fd" for fd
    using that by (simp add: worker_process_def client_args0_def demo_cm_def SOCKET_UNIFY_NONE_def demo_worker_def
        DNSClient_new_def conn_set_def)
  have main: "client_main demo_cm 9 dist_cli = Inr ?sys"
    unfolding client_main_def args bindE_Inr check using mgr worker by (simp add: pairs pids)
  then show ?thesis
    unfolding dist_client_def
    by (intro exI [of _ ?sys] exI [of _ dist_mgr])
       (auto simp: dist_mgr dist_worker ready_worker_def dist_cli_def demo_cm_def less_Suc_eq)
qed

definition dist_k :: "(bytes, int) k_env" where
  "dist_k = demo_k\<lparr>k_pb := wire_pb, k_datas := [str_bytes POSTMAN_FLAG],
     k_input := (k_input demo_k)\<lparr>env_lines := [''# query'', ''7.5 a - - - udp'']\<rparr>\<rparr>"

definition dist_flags :: flags where
  "dist_flags = demo_flags\<lparr>fl_input := ''text:-''\<rparr>"

definition dist_filter :: client_filter where
  "dist_filter = \<lparr>num_clients = 2, total_weight = 100, filter_input = ''40,60'',
       ifs_is_open = False, weight = [40, 60], client_index = replicate 40 0 @ replicate 60 1\<rparr>"

definition dist_postman :: postman where
  "dist_postman = projr (the (postman_process dist_k dist_flags dist_filter))"

definition dist_conns :: "(string \<times> int) list" where
  "dist_conns = [(''10.0.0.2'', 7), (''10.0.0.3'', 8)]"


end
