(* ===== verification/Proxy_Life.thy ===== *)
theory Proxy_Life
  imports Proxy_Main
begin

text \<open>
  The proxy as a whole.  First its descriptors: the tunnel interface, the raw sockets of the sending
  threads and the destructor (\<^verbatim>\<open>proxy.cc\<close>, \<^verbatim>\<open>socket_util.cc\<close>).  Then the composition of the command line,
  the threads, the queue and the rewriting: every packet without IP options read from the tunnel is sent
  once, as a valid packet to the server the command line names, and no such packet ends the process.
\<close>

section \<open>Sockets and the tunnel\<close>

text \<open>\<open>raw\<close> and \<open>opt\<close> are the results of \<^verbatim>\<open>socket\<close> and \<^verbatim>\<open>setsockopt\<close>.\<close>

definition create_raw_socket :: "int \<Rightarrow> int \<Rightarrow> int result" where
  "create_raw_socket raw opt =
     (if raw < 0 then Inl (Exit 1 ''SOCK_RAW'')
      else if opt < 0 then Inl (Exit 1 ''setsockopt IP_HDRINCL'')
      else Inr raw)"

text \<open>
  A connection; \<open>fd\<close> and \<open>r\<close> are the results of \<^verbatim>\<open>socket\<close> and \<^verbatim>\<open>connect\<close>.  The address is zero when
  the text is no address, since the result of \<^verbatim>\<open>inet_pton\<close> is not looked at.
\<close>

definition mk_conn :: "inet \<Rightarrow> int \<Rightarrow> (sockaddr \<Rightarrow> int) \<Rightarrow> string \<Rightarrow> int \<Rightarrow> int result" where
  "mk_conn N fd r ip port =
     (if fd = -1 then Inl (Exit 1 ''socket'')
      else let a = (case inet_pton4 N ip of None \<Rightarrow> [0, 0, 0, 0] | Some a \<Rightarrow> a)
           in if r (Sockaddr_in (of_int port) a) < 0 then Inl (Exit 1 ''connect'') else Inr fd)"

definition clean_fd :: "int \<Rightarrow> int list \<Rightarrow> int list" where
  "clean_fd f opened = (if 0 < f then removeAll f opened else opened)"

definition IFNAMSIZ :: nat where "IFNAMSIZ = 16"

text \<open>
  \<^verbatim>\<open>strcpy\<close> of a name over the characters of a string, which keeps its length; a longer name is
  written past them.
\<close>

definition strcpy_over :: "string \<Rightarrow> string \<Rightarrow> string result" where
  "strcpy_over dev name =
     (if length dev < length name then Inl (Undefined ''strcpy past the tunnel name'')
      else if length dev = length name then Inr name
      else Inr (name @ CHR 0x00 # drop (Suc (length name)) dev))"

text \<open>
  \<open>fd\<close> is the result of \<^verbatim>\<open>open\<close>, \<open>ioctl\<close> gives for the requested interface name the result of the
  call and the name of the interface it made.  The result is the descriptor (or the negative result),
  the name and the open descriptors.
\<close>

definition tun_alloc ::
    "int \<Rightarrow> (string \<Rightarrow> int \<times> string) \<Rightarrow> string \<Rightarrow> int list \<Rightarrow> (int \<times> string \<times> int list) result" where
  "tun_alloc fd ioctl dev opened =
     (if fd < 0 then Inr (fd, dev, opened)
      else let (e, name) = ioctl (take IFNAMSIZ dev)
           in if e < 0 then Inr (e, dev, opened)
              else bindE (strcpy_over dev name) (\<lambda>dev'. Inr (fd, dev', fd # opened)))"

section \<open>The descriptors of a proxy\<close>

text \<open>
  \<open>pd_open\<close>: the descriptors the process has opened; \<open>pd_alloc\<close>: the members allocated by the
  constructor; \<open>pd_reading\<close>: the reading thread has opened the tunnel.
\<close>

record proxy_fds =
  pd_tun_name :: string
  pd_tun_fd :: int
  pd_raw_fd :: "int list"
  pd_open :: "int list"
  pd_alloc :: "string list"
  pd_reading :: bool

definition proxy_fds_new :: "proxy \<Rightarrow> proxy_fds" where
  "proxy_fds_new p = \<lparr>pd_tun_name = px_tun_name p, pd_tun_fd = -1, pd_raw_fd = [], pd_open = [],
     pd_alloc = [''aut_addr'', ''rec_addr'', ''target_addr'', ''packet_queue''], pd_reading = False\<rparr>"

text \<open>The first part of \<^verbatim>\<open>read_packet\<close>, and one turn of the loop of \<^verbatim>\<open>start\<close>.\<close>

definition open_tunnel :: "int \<Rightarrow> (string \<Rightarrow> int \<times> string) \<Rightarrow> proxy_fds \<Rightarrow> proxy_fds result" where
  "open_tunnel fd ioctl s =
     bindE (tun_alloc fd ioctl (pd_tun_name s) (pd_open s)) (\<lambda>(t, name, opened).
       if t < 0 then Inl (Exit 1 ''cannot connect to tun'')
       else Inr (s\<lparr>pd_tun_fd := t, pd_tun_name := name, pd_open := opened, pd_reading := True\<rparr>))"

definition add_sender :: "int \<Rightarrow> int \<Rightarrow> proxy_fds \<Rightarrow> proxy_fds result" where
  "add_sender raw opt s =
     bindE (create_raw_socket raw opt) (\<lambda>fd.
       Inr (s\<lparr>pd_raw_fd := pd_raw_fd s @ [fd], pd_open := fd # pd_open s\<rparr>))"

definition DNSReplayProxy_destroy :: "proxy_fds \<Rightarrow> proxy_fds" where
  "DNSReplayProxy_destroy s =
     s\<lparr>pd_alloc := filter (\<lambda>x. x \<notin> {''aut_addr'', ''rec_addr'', ''target_addr''}) (pd_alloc s),
       pd_open := foldl (\<lambda>opened fd. clean_fd fd opened) (clean_fd (pd_tun_fd s) (pd_open s)) (pd_raw_fd s)\<rparr>"

text \<open>
  The reading thread opens the tunnel while the main thread creates the sockets; the system returns a
  descriptor that is not open.
\<close>

inductive booting :: "proxy \<Rightarrow> proxy_fds \<Rightarrow> bool" for p where
  boot_init: "booting p (proxy_fds_new p)"
| boot_tunnel: "booting p s \<Longrightarrow> \<not> pd_reading s \<Longrightarrow> fd \<notin> set (pd_open s) \<Longrightarrow>
    open_tunnel fd ioctl s = Inr s' \<Longrightarrow> booting p s'"
| boot_sender: "booting p s \<Longrightarrow> length (pd_raw_fd s) < nat (px_num_threads p) \<Longrightarrow> raw \<notin> set (pd_open s) \<Longrightarrow>
    add_sender raw opt s = Inr s' \<Longrightarrow> booting p s'"

text \<open>The proxy holds exactly the tunnel and one socket of its own for each sending thread.\<close>

definition fds_inv :: "proxy \<Rightarrow> proxy_fds \<Rightarrow> bool" where
  "fds_inv p s \<longleftrightarrow>
     set (pd_open s) = (if pd_reading s then {pd_tun_fd s} else {}) \<union> set (pd_raw_fd s) \<and>
     (pd_reading s \<longrightarrow> 0 \<le> pd_tun_fd s \<and> pd_tun_fd s \<notin> set (pd_raw_fd s)) \<and>
     (\<not> pd_reading s \<longrightarrow> pd_tun_fd s = -1) \<and> distinct (pd_raw_fd s) \<and> (\<forall>fd \<in> set (pd_raw_fd s). 0 \<le> fd) \<and>
     length (pd_raw_fd s) \<le> nat (px_num_threads p)"

lemma booting_fds: "booting p s \<Longrightarrow> fds_inv p s"
proof (induction rule: booting.induct)
  case (boot_tunnel s fd ioctl s')
  then show ?case
    by (auto simp: open_tunnel_def tun_alloc_def fds_inv_def fault_simps split: if_splits prod.splits)
next
  case (boot_sender s raw opt s')
  then show ?case
    by (auto simp: add_sender_def create_raw_socket_def fds_inv_def fault_simps split: if_splits)
qed (simp add: proxy_fds_new_def fds_inv_def)

lemma set_clean_fd: "set (clean_fd f opened) = set opened - {fd. fd = f \<and> 0 < fd}"
  by (auto simp: clean_fd_def)

lemma clean_all: "set (foldl (\<lambda>opened fd. clean_fd fd opened) opened fds) = set opened - {fd \<in> set fds. 0 < fd}"
  by (induction fds arbitrary: opened) (auto simp: set_clean_fd)

text \<open>
  The destructor closes every descriptor the proxy has opened except the number 0, which \<^verbatim>\<open>clean_fd\<close> does
  not take for a descriptor; it does not release the queue.
\<close>

lemma proxy_releases_descriptors:
  assumes "booting p s"
  shows "set (pd_open (DNSReplayProxy_destroy s)) \<subseteq> {0}"
  using booting_fds [OF assms] by (auto simp: DNSReplayProxy_destroy_def clean_all set_clean_fd fds_inv_def split: if_splits)

lemma proxy_keeps_queue: "booting p s \<Longrightarrow> pd_alloc (DNSReplayProxy_destroy s) = [''packet_queue'']"
  by (induction rule: booting.induct)
     (auto simp: DNSReplayProxy_destroy_def proxy_fds_new_def open_tunnel_def add_sender_def fault_simps
        split: if_splits)

text \<open>A name pattern for which the system makes a longer name is written past the end of the string.\<close>

lemma tunnel_pattern_overflows:
  "0 \<le> fd \<Longrightarrow> 0 \<le> e \<Longrightarrow> ioctl ''t%d'' = (e, ''t100'') \<Longrightarrow>
   tun_alloc fd ioctl ''t%d'' opened = Inl (Undefined ''strcpy past the tunnel name'')"
  by (simp add: tun_alloc_def strcpy_over_def IFNAMSIZ_def)

section \<open>From the tunnel to the servers\<close>

text \<open>
  Reads, when they succeed, deliver whole packets without IP options.  A read or a send of the system
  may also fail.
\<close>

definition plain_packet :: "bytes \<Rightarrow> bool" where
  "plain_packet x \<longleftrightarrow> whole_packet x \<and> header_len x = 20"

fun act_ok :: "act \<Rightarrow> bool" where
  "act_ok (Read (Some x)) \<longleftrightarrow> plain_packet x"
| "act_ok a \<longleftrightarrow> True"

lemma internal_act_ok: "internal a \<Longrightarrow> act_ok a"
  by (cases a) auto

fun failing :: "act \<Rightarrow> bool" where
  "failing (Read None) \<longleftrightarrow> True"
| "failing (Sent i r) \<longleftrightarrow> r < 0"
| "failing a \<longleftrightarrow> False"

text \<open>The packet \<open>pkt'\<close> and the address it was sent to carry \<open>pkt\<close> to the server at \<open>a\<close>.\<close>

definition delivers :: "bytes \<Rightarrow> bytes \<Rightarrow> bytes \<times> sockaddr \<Rightarrow> bool" where
  "delivers a pkt p \<longleftrightarrow> redirected a pkt (fst p) \<and> whole_packet (fst p) \<and> snd p = Sockaddr_in 53 a"

lemma in_hand_mem: "i < length (sq_workers s) \<Longrightarrow> sq_workers s ! i = Processing x \<Longrightarrow> x \<in> set (in_hand s)"
  by (auto simp: in_hand_def in_set_conv_nth intro!: bexI [of _ "Processing x"])

lemma outgoing_delivers:
  assumes "plain_packet x" and "inet_pton4 N (as_v4_str target) = Some a" and "length a = 4"
    and "as_v4_addr target = Sockaddr_in 53 a"
  shows "\<exists>y. outgoing N target x = Inr y \<and> delivers a x y"
proof -
  from assms(1) have x: "whole_packet x" "header_len x = 20" by (simp_all add: plain_packet_def)
  from rewrite_redirects [OF x assms(2,3)] obtain y where "rewrite_packet N target x = Inr y" "redirected a x y" by blast
  with redirected_whole(1) [OF x(1)] assms(4) show ?thesis
    by (simp add: process_packet_helper_def fault_simps delivers_def addr_set_addr_def)
qed

text \<open>What a thread holds can be sent, because all packets that were read can.\<close>

lemma held_outgoing:
  assumes "px_inv N target s" and "\<forall>x \<in> set (sq_read s). \<exists>y. outgoing N target x = Inr y"
    and "x \<in> set (in_hand s)"
  shows "\<exists>y. outgoing N target x = Inr y"
proof -
  have "set (map (outgoing N target) (in_hand s)) \<subseteq> set (map (outgoing N target) (sq_popped s))"
    using assms(1) unfolding px_inv_def sent_inv_def
    by (metis mset_subset_eq_add_right set_mset_mono set_mset_mset)
  moreover have "set (sq_popped s) \<subseteq> set (sq_read s)"
    using assms(1) by (simp add: px_inv_def fifo_inv_def)
  ultimately show ?thesis using assms(2,3) by (fastforce simp: subset_iff)
qed

lemma notify_ended: "notify_one w s = Some s' \<Longrightarrow> sq_ended s' = sq_ended s \<and> sq_read s' = sq_read s"
  by (auto simp: notify_one_def split: waiter.split_asm if_split_asm reader_pc.split_asm)

lemma step_plain:
  "px_step N target a s = Some s' \<Longrightarrow> act_ok a \<Longrightarrow> list_all plain_packet (sq_read s) \<Longrightarrow>
   list_all plain_packet (sq_read s')"
  by (erule px_step_cases) (auto dest!: notify_ended)

text \<open>Only a failing read or send ends the process.\<close>

lemma step_ended:
  assumes "px_step N target a s = Some s'" and "px_inv N target s" and "sq_ended s' \<noteq> None"
    and "\<forall>x \<in> set (sq_read s). \<exists>y. outgoing N target x = Inr y"
  shows "failing a"
proof -
  have e: "sq_ended s = None" using assms(1) by (auto simp: px_step_def split: if_split_asm)
  from assms(1) show ?thesis
  proof (cases rule: px_step_cases)
    case (crash i r x e)
    then obtain y where "outgoing N target x = Inr y"
      using held_outgoing [OF assms(2,4) in_hand_mem] by blast
    with crash show ?thesis
      by (auto simp: process_packet_helper_def fault_simps split: sum.split_asm if_split_asm)
  qed (use assms(3) e in \<open>auto dest!: notify_ended\<close>)
qed

lemma run_plain:
  assumes "px_run N target as s = Some s'" and "list_all act_ok as" and "list_all plain_packet (sq_read s)"
    and "px_inv N target s"
    and "inet_pton4 N (as_v4_str target) = Some a" and "length a = 4" and "as_v4_addr target = Sockaddr_in 53 a"
  shows "list_all plain_packet (sq_read s') \<and> px_inv N target s' \<and>
    (sq_ended s' \<noteq> None \<longrightarrow> sq_ended s \<noteq> None \<or> list_ex failing as)"
  using assms(1-4)
proof (induction as arbitrary: s)
  case (Cons x as)
  then obtain s1 where s1: "px_step N target x s = Some s1" "px_run N target as s1 = Some s'"
    by (auto simp: bind_eq_Some_conv)
  have "\<forall>x \<in> set (sq_read s). \<exists>y. outgoing N target x = Inr y"
    using Cons.prems(3) outgoing_delivers [OF _ assms(5-7)] by (fastforce simp: list_all_iff)
  with step_ended [OF s1(1)] step_plain [OF s1(1)] Cons.prems px_inv_step [OF s1(1)] Cons.IH [OF s1(2)]
  show ?case by auto
qed simp

lemma delivered_all:
  assumes "list_all plain_packet xs" and "inet_pton4 N (as_v4_str target) = Some a" and "length a = 4"
    and "as_v4_addr target = Sockaddr_in 53 a"
  shows "\<exists>ys. map (outgoing N target) xs = map Inr ys \<and> list_all2 (delivers a) xs ys"
  using assms(1)
proof (induction xs)
  case (Cons x xs)
  then obtain ys where "map (outgoing N target) xs = map Inr ys \<and> list_all2 (delivers a) xs ys"
    by auto
  moreover obtain y where "outgoing N target x = Inr y \<and> delivers a x y"
    using outgoing_delivers [OF _ assms(2-4), of x] Cons.prems by (simp only: list.pred_inject) blast
  ultimately show ?case by (intro exI [of _ "y # ys"]) simp
qed simp

lemma image_mset_projr: "image_mset projr (mset (map (Inr :: 'a \<Rightarrow> 'b + 'a) xs)) = mset xs"
  by (simp add: image_mset.compositionality comp_def)

lemma mset_map_Inr:
  "mset (map (Inr :: 'a \<Rightarrow> 'b + 'a) xs) = mset (map Inr ys) \<longleftrightarrow> mset xs = mset ys"
  by (metis image_mset_projr mset_map)

text \<open>What has been sent at any moment are packets that were read, none of them twice.\<close>

lemma sent_among_read:
  assumes "px_inv N target s" and "map (outgoing N target) (sq_read s) = map Inr ys"
  shows "mset (sq_sent s) \<subseteq># mset ys"
proof -
  have "mset (map (Inr :: _ \<Rightarrow> _ result) (sq_sent s)) \<subseteq># mset (map (outgoing N target) (sq_popped s))"
    using assms(1) by (simp add: px_inv_def sent_inv_def)
  also have "\<dots> \<subseteq># mset (map (outgoing N target) (sq_read s))"
    using assms(1) by (simp add: px_inv_def fifo_inv_def)
  finally have "image_mset projr (mset (map (Inr :: _ \<Rightarrow> _ result) (sq_sent s))) \<subseteq># image_mset projr (mset (map (Inr :: _ \<Rightarrow> _ result) ys))"
    unfolding assms(2) by (rule image_mset_subseteq_mono)
  then show ?thesis unfolding image_mset_projr .
qed

text \<open>The target of a proxy that the command line starts.\<close>

lemma proxy_main_target:
  assumes "proxy_main N fl = Inr (p, Some t)"
  obtains a where "inet_pton4 N (as_v4_str (px_target_addr p)) = Some a"
    "as_v4_str (px_target_addr p) = (if pf_proxy_type fl = ''recursive'' then pf_auth_addr fl else pf_rec_addr fl)"
    "as_v4_addr (px_target_addr p) = Sockaddr_in 53 a"
    "t = proxy_start (safe_queue_new (-1)) p" "1 \<le> px_num_threads p" "px_num_threads p = pf_num_threads fl"
proof -
  have new: "addr_set_new N x y q = Inr A \<Longrightarrow>
      as_v4_str A = x \<and> (\<exists>a. inet_pton4 N x = Some a \<and> as_v4_addr A = Sockaddr_in q a)" for x y q A
    by (auto simp: addr_set_new_def ip_s2b_def ipv4_addr_def fault_simps split: if_splits option.splits)
  show thesis
    using assms that
    by (auto simp: proxy_main_def parse_proxy_flags_def DNSReplayProxy_new_def fault_simps
        split: if_splits dest!: new)
qed


section \<open>An instance\<close>

lemma waiting_stuck:
  "sq_reader s = Reading \<Longrightarrow> list_all (\<lambda>w. w = Pop_wait) (sq_workers s) \<Longrightarrow> stuck N target s"
  unfolding stuck_def
proof (intro allI impI)
  fix a assume s: "sq_reader s = Reading" "list_all (\<lambda>w. w = Pop_wait) (sq_workers s)" and "internal a"
  then show "px_step N target a s = None"
    by (cases a) (auto simp: step_defs list_all_length)
qed

definition life_flags :: proxy_flags where
  "life_flags = \<lparr>pf_proxy_type = ''recursive'', pf_tun_name = ''dnstun'', pf_auth_addr = ''10.1.1.3'',
     pf_rec_addr = ''10.1.1.3'', pf_num_threads = 1, pf_dry_run = False\<rparr>"

text \<open>One packet is read while the sending thread waits; then the thread is woken and sends it.\<close>

definition life_reads :: "act list" where
  "life_reads = [Pop_enter 0, Read (Some demo_packet), Push_enter]"

definition life_sends :: "act list" where
  "life_sends = [Push_done (A_worker 0), Pop_enter 0, Pop_done 0 Nobody, Sent 0 31, Pop_enter 0]"

lemma life_proxy:
  "proxy_main demo_inet life_flags = Inr (demo_proxy 1, Some (proxy_start (safe_queue_new (-1)) (demo_proxy 1)))"
  by code_simp

lemma demo_inet_facts:
  "\<forall>x a. inet_pton4 demo_inet x = Some a \<longrightarrow> length a = 4"
  "inet_pton4 demo_inet ''10.1.1.3'' = Some [10, 1, 1, 3]"
  by (simp_all add: demo_inet_def)

lemma proxy_life_run:
  obtains s s' where
    "px_run demo_inet demo_target life_reads (proxy_start (safe_queue_new (-1)) (demo_proxy 1)) = Some s"
    "sq_read s = [demo_packet]" "px_run demo_inet demo_target life_sends s = Some s'"
    "stuck demo_inet demo_target s'"
proof -
  let ?s = "(proxy_start (safe_queue_new (-1)) (demo_proxy 1))\<lparr>sq_q := [demo_packet], sq_reader := Push_notify,
      sq_workers := [Pop_wait], sq_read := [demo_packet]\<rparr>"
  have t: "inet_pton4 demo_inet (as_v4_str demo_target) = Some [10, 1, 1, 3]" "length [10, 1, 1, 3 :: byte] = 4"
    by (simp_all add: demo_inet_facts demo_target_def)
  from rewrite_redirects [OF demo_packet_facts(1,2) t] obtain y where
    "rewrite_packet demo_inet demo_target demo_packet = Inr y" by auto
  then have y: "process_packet_helper demo_inet demo_target 31 demo_packet = Inr (y, addr_set_addr demo_target True)"
    by (simp add: process_packet_helper_def fault_simps)
  let ?s' = "?s\<lparr>sq_q := [], sq_reader := Reading, sq_popped := [demo_packet],
      sq_sent := [(y, addr_set_addr demo_target True)]\<rparr>"
  show thesis
  proof (rule that)
    show "px_run demo_inet demo_target life_reads (proxy_start (safe_queue_new (-1)) (demo_proxy 1)) = Some ?s"
      by (simp add: life_reads_def run_simps demo_packet_facts unat_unlimited)
    show "px_run demo_inet demo_target life_sends ?s = Some ?s'"
      using y by (simp add: life_sends_def run_simps)
    show "stuck demo_inet demo_target ?s'" by (rule waiting_stuck) simp_all
  qed simp
qed


end
