(* ===== verification/Spec2Isabelle.thy ===== *)
theory Spec2Isabelle
  imports Distributed_System Proxy_Life
begin

text \<open>
  A model of LDplayer, a set of tools that replay DNS traffic against name servers, and theorems
  about it.

  \<^bold>\<open>The programs.\<close>
  The \<^emph>\<open>mutator\<close> (\<^verbatim>\<open>dns-query-mutator-1.0\<close>) converts a network trace or a text into a raw stream of
  queries, with random changes of header fields, and back into text.  The \<^emph>\<open>replay client\<close>
  (\<^verbatim>\<open>dns-replay-client-1.0\<close>) is a manager process and several worker processes joined by socket pairs;
  the manager reads queries from a file or from a controller and gives each source address to one
  worker, the worker sends them over UDP, TCP or TLS at the times of the trace and reports the
  responses.  The \<^emph>\<open>controller\<close> (\<^verbatim>\<open>dns-replay-controller-1.0\<close>) is a reader process that reads the input
  and a postman process that distributes the queries over the connected clients, uniformly or by a
  filter with weights.  The \<^emph>\<open>proxy\<close> (\<^verbatim>\<open>dns-replay-proxy-1.0\<close>) rewrites the addresses of packets between a
  recursive and an authoritative server, with one reading thread and several sending threads around
  a shared queue.

  \<^bold>\<open>Conventions.\<close>
  A struct or class is a record, one definition models one function, method or named part of one.
  What ends a process is a value of \<^typ>\<open>fault\<close> (theory \<open>Prelude\<close>): an exit with its code, a failed
  assertion, an uncaught exception, an operation the language leaves undefined (an access outside a
  buffer, a second release), or a loop that does not end; fallible operations return a sum with the
  fault on the left.  Machine integers keep their width where it matters: lengths of 16 and 32 bits,
  indices that wrap, \<^verbatim>\<open>int\<close> results of \<^verbatim>\<open>stoi\<close>.  Code outside the repository is a parameter: the
  protocol buffer codec (\<open>pb\<close>), ldns (\<open>ldns\<close>, \<open>ldns_ext\<close>), libtrace (\<open>trace_pkt\<close>, \<open>input_env\<close>), floating
  point arithmetic (\<open>dbl\<close>), the network functions of the system (\<open>inet\<close>), clocks, random draws,
  results of system calls, the order in which hash maps are iterated, and libevent, which is the
  sequence of callbacks it makes.  A released bufferevent closes its descriptor, as the sources ask
  libevent to do; a write of the manager to a closed descriptor fails, and releasing one again is undefined.
  Numbers of closed descriptors are not taken again.  Seconds are unbounded integers (\<open>timersub_fits\<close>).
  What the sources rely on is a named hypothesis (\<open>msg_codec\<close>,
  \<open>codec_ok\<close>, \<open>serializable\<close>, \<open>id_rw_ok\<close>, \<open>macros_ok\<close>, \<open>times_ok\<close>, \<open>casts_ok\<close>, \<open>full_writes\<close>,
  \<open>clock_advances\<close>, \<open>socket_ok\<close>, \<open>pm_ev_ok\<close>), and the theorem that uses it is followed by an instance
  in which it holds.

  \<^bold>\<open>Theories.\<close>
  \<^item> \<open>Prelude\<close>, \<open>Cpp_Strings\<close>: faults, sequencing, byte order; the string library of C++ as used.
  \<^item> \<open>Text_Util\<close>: \<^verbatim>\<open>utility.cc\<close>, \<^verbatim>\<open>check.cc\<close> (client), \<^verbatim>\<open>str_util.cc\<close>, \<^verbatim>\<open>file_util.cc\<close> (mutator): splitting,
    numbers, checks of the command line.
  \<^item> \<open>Framing\<close>: length-prefixed messages of four and of two bytes.  The locales \<open>framing\<close>,
    \<open>frame_writer\<close> and \<open>frame_loop\<close> state that a receive loop does not depend on how the stream is
    split into reads; they are interpreted for both prefixes and for the receive loops of the
    manager, the worker (messages and DNS over TCP) and the postman.
  \<^item> \<open>Dns_Msg\<close>: the message \<^verbatim>\<open>dns_msg.proto\<close> and \<^verbatim>\<open>dns_util.cc\<close> of client and controller.
  \<^item> \<open>Wire_Format\<close>: the types of the fields of \<^verbatim>\<open>dns_msg.proto\<close> and the contract of the codec on typed
    messages (locale \<open>msg_codec\<close>), interpreted for the proto2 encoding of the message.
  \<^item> \<open>Input_Source\<close>, \<open>Input_Stream\<close>: \<^verbatim>\<open>input_source.cc\<close> and the mutator's \<^verbatim>\<open>input_stream.cc\<close>; the locale
    \<open>raw_reader\<close> is the contract of reading a raw file and is interpreted for both.  Reading ends, raw
    files are read back, trace packets become queries only if they are, lines become the messages
    they describe, and the two readers agree.
  \<^item> \<open>Client_Filter\<close>: \<^verbatim>\<open>filter.cc\<close>: every client gets its share of the hundred slots.
  \<^item> \<open>Pacing\<close>: the waiting loop of \<^verbatim>\<open>read_input_file\<close> and \<^verbatim>\<open>read_input\<close>, which ends if the clock advances.
  \<^item> \<open>Routing\<close>: writing to peers and the locale \<open>sticky_router\<close>: equal sources go to equal peers;
    interpreted for the manager and for the postman.
  \<^item> \<open>Manager\<close>: \<^verbatim>\<open>manager.cc\<close>: both input paths deliver every query to its worker; reconnection,
    reports and clean-up with the flaws they have.
  \<^item> \<open>Manager_Events\<close>: reads of the controller's connection among reports of workers; both are
    instances of the locale \<open>bystander\<close> of \<open>Manager\<close>, the fields an operation neither reads nor writes.
  \<^item> \<open>Manager_Life\<close>: \<^verbatim>\<open>start\<close>, the destructor and fatal errors of the manager.  The two threads of the
    local mode, which share the object without a lock, take steps in any order; each works on its
    own fields, but the event thread closes descriptors the reading thread writes to.  So every
    interleaving is the two threads run one by one or ends in a failed write to such a descriptor; the input is
    delivered whatever the workers report meanwhile, as long as none closes, and everything allocated is
    released.
  \<^item> \<open>Msg_Types\<close>: every message with DNS data that the input source makes of a line or a packet sets
    all required fields within their types, so that the codec's contract applies to it.
  \<^item> \<open>Timeval\<close>, \<open>Client\<close>, \<open>Client_Props\<close>: \<^verbatim>\<open>client.cc\<close>: the tables of a worker stay consistent under every
    sequence of callbacks, queries are scheduled at their place in the trace, sent whole, and matched
    with their responses; what 16 bit lengths do at their limits.
  \<^item> \<open>Client_Events\<close>: a worker's event loop as the manager sees it: whatever the sizes of the reads and
    whatever timers, responses and lost connections lie between them, a run is the whole messages of
    the manager, in order, among the other events (\<open>worker_handles\<close>).
  \<^item> \<open>Client_Life\<close>: the destructor of a worker, which finds every UDP socket that is open.
  \<^item> \<open>Reader\<close>, \<open>Postman\<close>: \<^verbatim>\<open>reader.cc\<close> and \<^verbatim>\<open>postman.cc\<close> of the controller; the start signal, which is
    written once and must arrive in one read; the reads of the reader's socket, which must leave a whole
    length in the buffer (\<open>lengths_whole\<close>), and what other events may lie between them (locale
    \<open>pm_bystander\<close>).
  \<^item> \<open>Controller_Life\<close>: their destructors; the tables of the postman stay consistent while clients
    connect, are lost and are given queries, and its end releases every connection.
  \<^item> \<open>Socket_Util\<close>, \<open>Proxy\<close>, \<open>Proxy_Threads\<close>: \<^verbatim>\<open>socket_util.cc\<close>, \<^verbatim>\<open>addr_util.cc\<close>, \<^verbatim>\<open>addr_set.cc\<close>, \<^verbatim>\<open>proxy.cc\<close> and
    \<^verbatim>\<open>safe_queue.cc\<close>: the checksum is the one of RFC 1071; a rewritten packet without IP options is valid, one with IP options
    need not be; the threads as a step relation, whose
    invariants give order and no loss in every interleaving, and progress to the end of the backlog.
  \<^item> \<open>Proxy_Life\<close>: the descriptors of the proxy and its destructor; the proxy from the command line to
    the packets it sends.
  \<^item> \<open>Mutator_Dns\<close>, \<open>Mutator\<close>: \<^verbatim>\<open>dns_util.cc\<close> and \<^verbatim>\<open>mutator.cc\<close> of the mutator: what mutation changes,
    that the client reads what the mutator writes, once and in the endless loop, and the text output.
    Releasing the changed packet is undefined unless an EDNS option is in effect, and the model says so.
  \<^item> \<open>Mutator_Main\<close>, \<open>Client_Main\<close>, \<open>Controller_Main\<close>, \<open>Proxy_Main\<close>: the four \<^verbatim>\<open>main.cc\<close>: options, checks and
    the processes they start.
  \<^item> \<open>Replay\<close>: the hops of a query composed, from the input file to the worker, in local mode (in any
    interleaving of the manager's threads) and in distributed mode, and from a response to the output
    file.
  \<^item> \<open>Client_System\<close>, \<open>Distributed_System\<close>: the programs composed, from their command lines: every query
    of the input is assigned to a worker (\<open>assigned\<close>), and every worker handles exactly its queries.  What
    is written to one end of a socket pair is read at the other (\<open>received_on\<close>), and a worker reads at the
    descriptor that main gave it.

  \<^bold>\<open>Loops.\<close>
  Loops over data are structural or have a termination proof by the length of what is left.  The
  waiting loop of \<open>Pacing\<close> is a partial function whose value \<open>None\<close> means that it does not return, and
  the theorems about it prove that it returns.  \<open>deframe_fuel\<close> takes the length of the buffer as
  fuel; every message takes at least one byte off, so it is enough (\<open>deframe_fuel_enough\<close>).  The
  endless loop of the mutator takes the number of rounds that are observed; the theorem about it
  holds for every number.  The bound \<open>lim32\<close> in statements about streams is the largest buffer for
  which the 32 bit count of the received bytes is exact.

  \<^bold>\<open>Not modelled.\<close>
  Log output, usage texts and the \<^verbatim>\<open>Print\<close> functions.  Signal handlers, which end the event loop after
  two seconds, as the error callback of the postman's listener does at once: in the model that is the
  end of the list of events.  \<^verbatim>\<open>init_ssl\<close> and the TLS handshake, which are calls of OpenSSL and
  libevent; the model has the context and the bufferevents they make.  The static callbacks that only
  pass on to a method.  Failing writes to an open output file, which the sources do not look at.  The
  controller's \<^verbatim>\<open>input_source.cc\<close>, \<^verbatim>\<open>utility.cc\<close>, \<^verbatim>\<open>dns_util.cc\<close> and \<^verbatim>\<open>addr_util.cc\<close> are copies, identical to the last
  byte, of the files of the client and the proxy, and the definitions for these stand for both.  The
  zone constructor and the route set-up are scripts that run external tools.
\<close>

end
